(* ===== verification/Prelude.thy ===== *)
theory Prelude
  imports Main "HOL-Library.Sublist"
begin

text \<open>
  Shared vocabulary of the development: the result types by which the model writes the
  errors of the C++ sources, the collections of simplification rules the component theories
  extend, and generic facts on lists, options and sums.

  \<^item> \<open>'a Try\<close> is stout's \<open>Try<T>\<close>: \<open>Inl\<close> carries the text of the \<open>Error\<close>, \<open>Inr\<close> the value.
  \<^item> \<open>'a outcome\<close> is the result of code that may take the process down: a failed glog \<open>CHECK\<close>,
    a call through a channel pointer that was never assigned, or a recursion through the
    framework's own callbacks that is deeper than the bound the run was given.
\<close>

type_synonym 'a Try = "string + 'a"

datatype failure =
    CheckFailed
  | WildChannel
  | DepthExceeded

type_synonym 'a outcome = "failure + 'a"

text \<open>
  \<open>mutation_simps\<close> collects the equations that read a field of a state after one of the
  operations on it; \<open>std_simps\<close> the facts on the modelled standard library.
\<close>

named_theorems mutation_simps
named_theorems std_simps

subsection \<open>Sequencing of outcomes\<close>

definition andThen :: "'a outcome \<Rightarrow> ('a \<Rightarrow> 'b outcome) \<Rightarrow> 'b outcome" where
  "andThen r f = (case r of Inl e \<Rightarrow> Inl e | Inr x \<Rightarrow> f x)"

definition require :: "bool \<Rightarrow> 'a outcome \<Rightarrow> 'a outcome" where
  "require b r = (if b then r else Inl CheckFailed)"

fun foldOutcome :: "('x \<Rightarrow> 's \<Rightarrow> 's outcome) \<Rightarrow> 'x list \<Rightarrow> 's \<Rightarrow> 's outcome" where
  "foldOutcome f [] s = Inr s"
| "foldOutcome f (x # xs) s = andThen (f x s) (foldOutcome f xs)"

definition holds :: "'a outcome \<Rightarrow> ('a \<Rightarrow> bool) \<Rightarrow> bool" where
  "holds r P \<longleftrightarrow> (case r of Inl _ \<Rightarrow> True | Inr x \<Rightarrow> P x)"

definition returns :: "'a outcome \<Rightarrow> ('a \<Rightarrow> bool) \<Rightarrow> bool" where
  "returns r P \<longleftrightarrow> (case r of Inl _ \<Rightarrow> False | Inr x \<Rightarrow> P x)"

definition safe :: "'a outcome \<Rightarrow> ('a \<Rightarrow> bool) \<Rightarrow> bool" where
  "safe r P \<longleftrightarrow> (case r of Inl e \<Rightarrow> e \<noteq> CheckFailed | Inr x \<Rightarrow> P x)"

definition within :: "failure set \<Rightarrow> 'a outcome \<Rightarrow> ('a \<Rightarrow> bool) \<Rightarrow> bool" where
  "within F r P \<longleftrightarrow> (case r of Inl e \<Rightarrow> e \<in> F | Inr x \<Rightarrow> P x)"

lemma andThen_simps [simp]:
  "andThen (Inl e) f = Inl e"
  "andThen (Inr x) f = f x"
  by (simp_all add: andThen_def)

lemma require_simps [simp]:
  "require True r = r"
  "require False r = Inl CheckFailed"
  by (simp_all add: require_def)

lemma foldOutcome_append: "foldOutcome f (xs @ ys) s = andThen (foldOutcome f xs s) (foldOutcome f ys)"
proof (induction xs arbitrary: s)
  case (Cons x xs)
  then show ?case by (cases "f x s") auto
qed simp

lemma andThen_eq_Inr [simp]:
  "andThen r f = Inr y \<longleftrightarrow> (\<exists>x. r = Inr x \<and> f x = Inr y)"
  by (cases r) auto

lemma require_eq_Inr [simp]: "require b r = Inr y \<longleftrightarrow> b \<and> r = Inr y"
  by (cases b) auto

lemma holds_simps [simp]:
  "holds (Inl e) P" "holds (Inr x) P = P x"
  by (simp_all add: holds_def)

lemma returns_simps [simp]:
  "\<not> returns (Inl e) P" "returns (Inr x) P = P x"
  by (simp_all add: returns_def)

lemma holds_iff: "holds r P \<longleftrightarrow> (\<forall>x. r = Inr x \<longrightarrow> P x)"
  by (cases r) auto

lemma returns_iff: "returns r P \<longleftrightarrow> (\<exists>x. r = Inr x \<and> P x)"
  by (cases r) auto

lemma holds_andThen [intro]:
  assumes "holds r P" and "\<And>x. P x \<Longrightarrow> holds (f x) Q"
  shows "holds (andThen r f) Q"
  using assms by (cases r) auto

lemma holds_andThen_iff: "holds (andThen r f) Q \<longleftrightarrow> holds r (\<lambda>x. holds (f x) Q)"
  by (cases r) auto

lemma holds_require [simp]: "holds (require b r) Q \<longleftrightarrow> (b \<longrightarrow> holds r Q)"
  by (cases b) auto

lemma returns_andThen [simp]: "returns (andThen r f) Q \<longleftrightarrow> returns r (\<lambda>x. returns (f x) Q)"
  by (cases r) auto

lemma returns_require [simp]: "returns (require b r) Q \<longleftrightarrow> b \<and> returns r Q"
  by (cases b) auto

lemma holds_mono: "holds r P \<Longrightarrow> (\<And>x. P x \<Longrightarrow> Q x) \<Longrightarrow> holds r Q"
  by (cases r) auto

lemma returns_mono: "returns r P \<Longrightarrow> (\<And>x. P x \<Longrightarrow> Q x) \<Longrightarrow> returns r Q"
  by (cases r) auto

lemma holds_foldOutcome:
  assumes "\<And>x s. x \<in> set xs \<Longrightarrow> P s \<Longrightarrow> holds (f x s) P" and "P s"
  shows "holds (foldOutcome f xs s) P"
  using assms
proof (induction xs arbitrary: s)
  case (Cons x xs)
  have "holds (f x s) P" using Cons.prems by simp
  moreover have "holds (foldOutcome f xs t) P" if "P t" for t
    using Cons.IH [of t] Cons.prems(1) that by simp
  ultimately show ?case by (auto simp: holds_andThen_iff intro: holds_mono)
qed simp

lemma returns_foldOutcome:
  assumes "\<And>x s. x \<in> set xs \<Longrightarrow> P s \<Longrightarrow> returns (f x s) P" and "P s"
  shows "returns (foldOutcome f xs s) P"
  using assms
proof (induction xs arbitrary: s)
  case (Cons x xs)
  have "returns (f x s) P" using Cons.prems by simp
  moreover have "returns (foldOutcome f xs t) P" if "P t" for t
    using Cons.IH [of t] Cons.prems(1) that by simp
  ultimately show ?case by (auto intro: returns_mono)
qed simp

text \<open>\<open>safe r P\<close>: no check fails, and a state that is reached satisfies \<open>P\<close>.\<close>

lemma safe_simps [simp]:
  "safe (Inl e) P \<longleftrightarrow> e \<noteq> CheckFailed" "safe (Inr x) P = P x"
  by (simp_all add: safe_def)

lemma safe_andThen [simp]: "safe (andThen r f) Q \<longleftrightarrow> safe r (\<lambda>x. safe (f x) Q)"
  by (cases r) auto

lemma safe_require [simp]: "safe (require b r) Q \<longleftrightarrow> b \<and> safe r Q"
  by (cases b) auto

lemma safe_mono: "safe r P \<Longrightarrow> (\<And>x. P x \<Longrightarrow> Q x) \<Longrightarrow> safe r Q"
  by (cases r) auto

lemma safe_foldOutcome:
  assumes "\<And>x s. x \<in> set xs \<Longrightarrow> P s \<Longrightarrow> safe (f x s) P" and "P s"
  shows "safe (foldOutcome f xs s) P"
  using assms
proof (induction xs arbitrary: s)
  case (Cons x xs)
  have "safe (f x s) P" using Cons.prems by simp
  moreover have "safe (foldOutcome f xs t) P" if "P t" for t
    using Cons.IH [of t] Cons.prems(1) that by simp
  ultimately show ?case by (auto intro: safe_mono)
qed simp

lemma safe_holds: "safe r P \<Longrightarrow> holds r P"
  by (cases r) auto

text \<open>\<open>within F r P\<close>: a failure is one of \<open>F\<close>, and a state that is reached satisfies \<open>P\<close>.\<close>

lemma within_simps [simp]:
  "within F (Inl e) P \<longleftrightarrow> e \<in> F" "within F (Inr x) P = P x"
  by (simp_all add: within_def)

lemma within_andThen [simp]: "within F (andThen r f) Q \<longleftrightarrow> within F r (\<lambda>x. within F (f x) Q)"
  by (cases r) auto

lemma within_require [simp]:
  "within F (require b r) Q \<longleftrightarrow> (b \<and> within F r Q \<or> \<not> b \<and> CheckFailed \<in> F)"
  by (cases b) auto

lemma within_mono: "within F r P \<Longrightarrow> (\<And>x. P x \<Longrightarrow> Q x) \<Longrightarrow> within F r Q"
  by (cases r) auto

lemma within_weaken: "within F r P \<Longrightarrow> F \<subseteq> G \<Longrightarrow> (\<And>x. P x \<Longrightarrow> Q x) \<Longrightarrow> within G r Q"
  by (cases r) auto

lemma within_foldOutcome:
  assumes "\<And>x s. x \<in> set xs \<Longrightarrow> P s \<Longrightarrow> within F (f x s) P" and "P s"
  shows "within F (foldOutcome f xs s) P"
  using assms
proof (induction xs arbitrary: s)
  case (Cons x xs)
  have "within F (f x s) P" using Cons.prems by simp
  moreover have "within F (foldOutcome f xs t) P" if "P t" for t
    using Cons.IH [of t] Cons.prems(1) that by simp
  ultimately show ?case by (auto intro: within_mono)
qed simp

lemma within_conj: "within F r P \<Longrightarrow> within G r Q \<Longrightarrow> within (F \<inter> G) r (\<lambda>x. P x \<and> Q x)"
  by (cases r) auto

lemma within_Inr: "within F r P \<Longrightarrow> r = Inr x \<Longrightarrow> P x"
  by simp

subsection \<open>Outcomes of code that also returns errors\<close>

definition andTry :: "('e + 'a) outcome \<Rightarrow> ('a \<Rightarrow> ('e + 'b) outcome) \<Rightarrow> ('e + 'b) outcome" where
  "andTry r f = andThen r (\<lambda>x. case x of Inl e \<Rightarrow> Inr (Inl e) | Inr y \<Rightarrow> f y)"

fun foldTry :: "('x \<Rightarrow> 's \<Rightarrow> ('e + 's) outcome) \<Rightarrow> 'x list \<Rightarrow> 's \<Rightarrow> ('e + 's) outcome" where
  "foldTry f [] s = Inr (Inr s)"
| "foldTry f (x # xs) s = andTry (f x s) (foldTry f xs)"

text \<open>\<open>yields r P\<close>: no failure, and a value that is not an error satisfies \<open>P\<close>.\<close>

definition yields :: "('e + 'a) outcome \<Rightarrow> ('a \<Rightarrow> bool) \<Rightarrow> bool" where
  "yields r P = returns r (\<lambda>x. case x of Inl _ \<Rightarrow> True | Inr y \<Rightarrow> P y)"

lemma yields_simps [simp]: "\<not> yields (Inl f) P" "yields (Inr (Inl e)) P" "yields (Inr (Inr y)) P = P y"
  by (simp_all add: yields_def)

lemma yields_mono: "yields r P \<Longrightarrow> (\<And>x. P x \<Longrightarrow> Q x) \<Longrightarrow> yields r Q"
  by (cases r) (auto simp: yields_def split: sum.splits)

lemma yields_andTry: "yields r P \<Longrightarrow> (\<And>x. P x \<Longrightarrow> yields (f x) Q) \<Longrightarrow> yields (andTry r f) Q"
  by (cases r) (auto simp: yields_def andTry_def split: sum.splits)

lemma yields_andThen: "returns r P \<Longrightarrow> (\<And>x. P x \<Longrightarrow> yields (f x) Q) \<Longrightarrow> yields (andThen r f) Q"
  by (cases r) auto

lemma yields_foldTry:
  assumes "\<And>x s. x \<in> set xs \<Longrightarrow> P s \<Longrightarrow> yields (f x s) P" and "P s"
  shows "yields (foldTry f xs s) P"
  using assms
proof (induction xs arbitrary: s)
  case (Cons x xs)
  then show ?case by (auto intro!: yields_andTry [of _ P])
qed simp

subsection \<open>First position satisfying a predicate\<close>

fun find_idx :: "('a \<Rightarrow> bool) \<Rightarrow> 'a list \<Rightarrow> nat option" where
  "find_idx P [] = None"
| "find_idx P (x # xs) = (if P x then Some 0 else map_option Suc (find_idx P xs))"

lemma find_idx_None: "find_idx P xs = None \<longleftrightarrow> (\<forall>x \<in> set xs. \<not> P x)"
  by (induction xs) auto

lemma find_idx_Some_iff:
  "find_idx P xs = Some i \<longleftrightarrow> i < length xs \<and> P (xs ! i) \<and> (\<forall>j < i. \<not> P (xs ! j))"
proof (induction xs arbitrary: i)
  case (Cons x xs)
  show ?case
  proof (cases i)
    case 0
    then show ?thesis by auto
  next
    case (Suc k)
    then show ?thesis using Cons by (auto simp: less_Suc_eq_0_disj)
  qed
qed simp

lemma find_idx_takeWhile:
  "find_idx P xs = Some i \<Longrightarrow> takeWhile (\<lambda>x. \<not> P x) xs = take i xs"
  "find_idx P xs = Some i \<Longrightarrow> dropWhile (\<lambda>x. \<not> P x) xs = drop i xs"
  by (induction xs arbitrary: i) (auto split: if_splits)

lemma find_idx_less [dest]: "find_idx P xs = Some i \<Longrightarrow> i < length xs"
  by (simp add: find_idx_Some_iff)

lemma drop_dropWhile_length: "length (dropWhile P xs) \<le> length xs"
  by (rule length_dropWhile_le)

end
