(* ===== verification/Strings.thy ===== *)
theory Strings
  imports Prelude
begin

text \<open>
  The string routines the parsers of liburb are built from: the members of \<open>std::string\<close>
  they call (positions are indices, \<open>npos\<close> is \<open>None\<close>) and the part of stout's
  \<open>strings.hpp\<close> used by the URL, role, value and attribute code. The loops run over indices
  as in the source; each is proved equal to a definition by structural recursion on the
  text (\<open>fields\<close>, \<open>pieces\<close>, \<open>strip\<close>) from which the lemmas on the results follow.
\<close>

subsection \<open>Members of \<open>std::string\<close>\<close>

definition find_first_of :: "string \<Rightarrow> string \<Rightarrow> nat \<Rightarrow> nat option" where
  "find_first_of chars s off = map_option ((+) off) (find_idx (\<lambda>c. c \<in> set chars) (drop off s))"

definition find_first_not_of :: "string \<Rightarrow> string \<Rightarrow> nat \<Rightarrow> nat option" where
  "find_first_not_of chars s off = map_option ((+) off) (find_idx (\<lambda>c. c \<notin> set chars) (drop off s))"

definition find_last_of :: "string \<Rightarrow> string \<Rightarrow> nat option" where
  "find_last_of chars s = map_option (\<lambda>i. length s - 1 - i) (find_idx (\<lambda>c. c \<in> set chars) (rev s))"

definition find_last_not_of :: "string \<Rightarrow> string \<Rightarrow> nat option" where
  "find_last_not_of chars s = map_option (\<lambda>i. length s - 1 - i) (find_idx (\<lambda>c. c \<notin> set chars) (rev s))"

fun find_sub :: "string \<Rightarrow> string \<Rightarrow> nat option" where
  "find_sub sub [] = (if sub = [] then Some 0 else None)"
| "find_sub sub (c # s) = (if prefix sub (c # s) then Some 0 else map_option Suc (find_sub sub s))"

definition find_sub_from :: "string \<Rightarrow> string \<Rightarrow> nat \<Rightarrow> nat option" where
  "find_sub_from sub s off = (if off \<le> length s then map_option ((+) off) (find_sub sub (drop off s)) else None)"

definition substr :: "string \<Rightarrow> nat \<Rightarrow> nat \<Rightarrow> string" where
  "substr s pos len = take len (drop pos s)"

definition substr_from :: "string \<Rightarrow> nat \<Rightarrow> string" where
  "substr_from s pos = drop pos s"

subsection \<open>\<open>strings::trim\<close> in its default mode \<open>ANY\<close>\<close>

definition WHITESPACE :: string where
  "WHITESPACE = [CHR '' '', CHR 0x09, CHR 0x0A, CHR 0x0D]"

definition trim_chars :: "string \<Rightarrow> string \<Rightarrow> string" where
  "trim_chars from chars =
     (case find_first_not_of chars from 0 of
        None \<Rightarrow> []
      | Some start \<Rightarrow>
          (case find_last_not_of chars from of
             None \<Rightarrow> substr_from from start
           | Some e \<Rightarrow> substr from start (e + 1 - start)))"

definition trim :: "string \<Rightarrow> string" where
  "trim from = trim_chars from WHITESPACE"

subsection \<open>\<open>strings::replace\<close>\<close>

lemma find_sub_Some_prefix: "find_sub sub s = Some i \<Longrightarrow> i \<le> length s \<and> prefix sub (drop i s)"
proof (induction s arbitrary: i)
  case Nil
  then show ?case by (auto split: if_splits)
next
  case (Cons c s)
  show ?case
  proof (cases "prefix sub (c # s)")
    case False
    with Cons.prems obtain j where "find_sub sub s = Some j" and "i = Suc j" by auto
    with Cons.IH show ?thesis by simp
  qed (use Cons.prems in auto)
qed

lemma find_sub_from_Some:
  assumes "find_sub_from sub s off = Some i"
  shows "off \<le> i" "i + length sub \<le> length s" "prefix sub (drop i s)"
proof -
  from assms obtain j where o: "off \<le> length s" and j: "find_sub sub (drop off s) = Some j"
    and i: "i = off + j"
    by (auto simp: find_sub_from_def split: if_splits)
  from find_sub_Some_prefix [OF j] i o
  have *: "prefix sub (drop i s)" "i \<le> length s" by (auto simp: add.commute)
  from prefix_length_le [OF *(1)] *(2) have "i + length sub \<le> length s" by simp
  with * i show "off \<le> i" "i + length sub \<le> length s" "prefix sub (drop i s)" by simp_all
qed

function replace_loop :: "string \<Rightarrow> string \<Rightarrow> string \<Rightarrow> nat \<Rightarrow> string" where
  "replace_loop from to result index =
     (if from = [] then result
      else case find_sub_from from result index of
             None \<Rightarrow> result
           | Some i \<Rightarrow> replace_loop from to (take i result @ to @ drop (i + length from) result)
                         (i + length to))"
  by pat_completeness auto
termination
proof (relation "measure (\<lambda>(from, to, result, index). length result - index)", goal_cases)
  case (2 pat to result index i)
  with find_sub_from_Some [OF 2(2)] show ?case by (cases pat) auto
qed simp

declare replace_loop.simps [simp del]

definition replace :: "string \<Rightarrow> string \<Rightarrow> string \<Rightarrow> string" where
  "replace s from to = (if from = [] then s else replace_loop from to s 0)"

subsection \<open>\<open>strings::tokenize\<close> and \<open>strings::split\<close>\<close>

lemma find_first_of_Some:
  "find_first_of chars s off = Some i \<Longrightarrow> off \<le> i \<and> i < length s \<and> s ! i \<in> set chars"
  by (auto simp: find_first_of_def find_idx_Some_iff)

lemma find_first_not_of_Some:
  "find_first_not_of chars s off = Some i \<Longrightarrow> off \<le> i \<and> i < length s \<and> s ! i \<notin> set chars"
  by (auto simp: find_first_not_of_def find_idx_Some_iff)

definition reached :: "nat option \<Rightarrow> string list \<Rightarrow> bool" where
  "reached maxTokens tokens = (case maxTokens of None \<Rightarrow> False | Some m \<Rightarrow> length tokens = m - 1)"

function tokenize_loop :: "string \<Rightarrow> string \<Rightarrow> nat option \<Rightarrow> string list \<Rightarrow> nat \<Rightarrow> string list" where
  "tokenize_loop s delims maxTokens tokens offset =
     (case find_first_not_of delims s offset of
        None \<Rightarrow> tokens
      | Some nonDelim \<Rightarrow>
          (case find_first_of delims s nonDelim of
             None \<Rightarrow> tokens @ [substr_from s nonDelim]
           | Some delim \<Rightarrow>
               if reached maxTokens tokens then tokens @ [substr_from s nonDelim]
               else tokenize_loop s delims maxTokens
                      (tokens @ [substr s nonDelim (delim - nonDelim)]) delim))"
  by pat_completeness auto
termination
proof (relation "measure (\<lambda>(s, d, m, t, off). length s - off)", goal_cases)
  case (2 s delims maxTokens tokens offset nonDelim delim)
  from find_first_not_of_Some [OF 2(1)] find_first_of_Some [OF 2(2)]
  have "offset < delim" "delim < length s"
    by (auto simp: le_less)
  then show ?case by simp
qed simp

declare tokenize_loop.simps [simp del]

definition tokenize :: "string \<Rightarrow> string \<Rightarrow> nat option \<Rightarrow> string list" where
  "tokenize s delims maxTokens =
     (if maxTokens = Some 0 then [] else tokenize_loop s delims maxTokens [] 0)"

function split_loop :: "string \<Rightarrow> string \<Rightarrow> nat option \<Rightarrow> string list \<Rightarrow> nat \<Rightarrow> string list" where
  "split_loop s delims maxTokens tokens offset =
     (case find_first_of delims s offset of
        None \<Rightarrow> tokens @ [substr_from s offset]
      | Some next \<Rightarrow>
          if reached maxTokens tokens then tokens @ [substr_from s offset]
          else split_loop s delims maxTokens (tokens @ [substr s offset (next - offset)]) (next + 1))"
  by pat_completeness auto
termination
proof (relation "measure (\<lambda>(s, d, m, t, off). length s - off)", goal_cases)
  case (2 s delims maxTokens tokens offset nxt)
  from find_first_of_Some [OF 2(1)] show ?case by auto
qed simp

declare split_loop.simps [simp del]

definition split :: "string \<Rightarrow> string \<Rightarrow> nat option \<Rightarrow> string list" where
  "split s delims maxTokens = (if maxTokens = Some 0 then [] else split_loop s delims maxTokens [] 0)"

subsection \<open>Predicates on strings\<close>

fun bracket_loop :: "char \<Rightarrow> char \<Rightarrow> int \<Rightarrow> string \<Rightarrow> bool" where
  "bracket_loop openBracket closeBracket count [] = (count = 0)"
| "bracket_loop openBracket closeBracket count (c # s) =
     (let count' = (if c = openBracket then count + 1
                    else if c = closeBracket then count - 1 else count)
      in if count' < 0 then False else bracket_loop openBracket closeBracket count' s)"

definition checkBracketsMatching :: "string \<Rightarrow> char \<Rightarrow> char \<Rightarrow> bool" where
  "checkBracketsMatching s openBracket closeBracket = bracket_loop openBracket closeBracket 0 s"

definition startsWith :: "string \<Rightarrow> string \<Rightarrow> bool" where
  "startsWith s pre = (length pre \<le> length s \<and> take (length pre) s = pre)"

definition startsWith_char :: "string \<Rightarrow> char \<Rightarrow> bool" where
  "startsWith_char s c = (s \<noteq> [] \<and> hd s = c)"

definition endsWith_char :: "string \<Rightarrow> char \<Rightarrow> bool" where
  "endsWith_char s c = (s \<noteq> [] \<and> last s = c)"

definition contains_sub :: "string \<Rightarrow> string \<Rightarrow> bool" where
  "contains_sub s sub = (find_sub sub s \<noteq> None)"

section \<open>The loops and their reference definitions\<close>

text \<open>
  \<open>fields\<close> is the list of maximal delimiter-free pieces of a text, \<open>pieces\<close> the list of all
  pieces between delimiters, empty ones included, \<open>strip\<close> removes characters at both ends.
\<close>

function fields :: "(char \<Rightarrow> bool) \<Rightarrow> string \<Rightarrow> string list" where
  "fields isDelim s =
     (case dropWhile isDelim s of
        [] \<Rightarrow> []
      | c # s' \<Rightarrow> (c # takeWhile (\<lambda>x. \<not> isDelim x) s')
                  # fields isDelim (dropWhile (\<lambda>x. \<not> isDelim x) s'))"
  by pat_completeness auto
termination
proof (relation "measure (length \<circ> snd)", goal_cases)
  case (2 isDelim s c s')
  have "length (dropWhile (\<lambda>x. \<not> isDelim x) s') \<le> length s'"
    by (rule length_dropWhile_le)
  also have "length s' < length (dropWhile isDelim s)" using 2 by simp
  also have "\<dots> \<le> length s" by (rule length_dropWhile_le)
  finally show ?case by simp
qed simp

declare fields.simps [simp del]

fun pieces :: "(char \<Rightarrow> bool) \<Rightarrow> string \<Rightarrow> string list" where
  "pieces isDelim [] = [[]]"
| "pieces isDelim (c # s) =
     (if isDelim c then [] # pieces isDelim s
      else (c # hd (pieces isDelim s)) # tl (pieces isDelim s))"

definition strip :: "(char \<Rightarrow> bool) \<Rightarrow> string \<Rightarrow> string" where
  "strip P s = rev (dropWhile P (rev (dropWhile P s)))"

subsection \<open>\<open>tokenize\<close>\<close>

lemma find_first_not_of_drop:
  "find_first_not_of d s off = None \<longleftrightarrow> dropWhile (\<lambda>c. c \<in> set d) (drop off s) = []"
  "find_first_not_of d s off = Some i \<Longrightarrow> dropWhile (\<lambda>c. c \<in> set d) (drop off s) = drop i s"
proof -
  show "find_first_not_of d s off = None \<longleftrightarrow> dropWhile (\<lambda>c. c \<in> set d) (drop off s) = []"
    by (auto simp: find_first_not_of_def find_idx_None dropWhile_eq_Nil_conv)
  assume "find_first_not_of d s off = Some i"
  then obtain j where "find_idx (\<lambda>c. c \<notin> set d) (drop off s) = Some j" "i = off + j"
    by (auto simp: find_first_not_of_def)
  from find_idx_takeWhile(2) [OF this(1)] this(2)
  show "dropWhile (\<lambda>c. c \<in> set d) (drop off s) = drop i s"
    by (simp add: add.commute)
qed

lemma find_first_of_drop:
  "find_first_of d s off = None \<longleftrightarrow> takeWhile (\<lambda>c. c \<notin> set d) (drop off s) = drop off s"
  "find_first_of d s off = Some i \<Longrightarrow>
     takeWhile (\<lambda>c. c \<notin> set d) (drop off s) = substr s off (i - off) \<and>
     dropWhile (\<lambda>c. c \<notin> set d) (drop off s) = drop i s"
proof -
  show "find_first_of d s off = None \<longleftrightarrow> takeWhile (\<lambda>c. c \<notin> set d) (drop off s) = drop off s"
    by (auto simp: find_first_of_def find_idx_None takeWhile_eq_all_conv)
  assume "find_first_of d s off = Some i"
  then obtain j where "find_idx (\<lambda>c. c \<in> set d) (drop off s) = Some j" "i = off + j"
    by (auto simp: find_first_of_def)
  from find_idx_takeWhile [OF this(1)] this(2)
  show "takeWhile (\<lambda>c. c \<notin> set d) (drop off s) = substr s off (i - off) \<and>
     dropWhile (\<lambda>c. c \<notin> set d) (drop off s) = drop i s"
    by (simp add: substr_def add.commute)
qed

lemma fields_step:
  assumes "dropWhile P s = t" and "t \<noteq> []"
  shows "fields P s = takeWhile (\<lambda>x. \<not> P x) t # fields P (dropWhile (\<lambda>x. \<not> P x) t)"
proof -
  from assms obtain c t' where t: "t = c # t'" by (cases t) auto
  have "\<not> P c" using hd_dropWhile [of P s] assms t by auto
  then show ?thesis using assms t by (subst fields.simps) simp
qed

lemma fields_Nil: "dropWhile P s = [] \<Longrightarrow> fields P s = []"
  by (simp only: fields.simps [of P s] list.case)

lemma tokenize_loop_fields:
  "tokenize_loop s d None ts off = ts @ fields (\<lambda>c. c \<in> set d) (drop off s)"
proof (induction s d "None :: nat option" ts off rule: tokenize_loop.induct)
  case (1 s d ts off)
  show ?case
  proof (cases "find_first_not_of d s off")
    case None
    then show ?thesis
      using fields_Nil [OF find_first_not_of_drop(1) [THEN iffD1, OF None]]
      by (subst tokenize_loop.simps) simp
  next
    case (Some nd)
    note drop_nd = find_first_not_of_drop(2) [OF Some]
    from find_first_not_of_Some [OF Some] have ne: "drop nd s \<noteq> []" by simp
    note step = fields_step [OF drop_nd ne]
    show ?thesis
    proof (cases "find_first_of d s nd")
      case None
      with find_first_of_drop(1) [of d s nd]
      have "takeWhile (\<lambda>c. c \<notin> set d) (drop nd s) = drop nd s" by simp
      moreover from this have "dropWhile (\<lambda>c. c \<notin> set d) (drop nd s) = []"
        by (metis dropWhile_eq_Nil_conv takeWhile_eq_all_conv)
      ultimately have "fields (\<lambda>c. c \<in> set d) (drop off s) = [drop nd s]"
        using step by (simp only: fields_Nil dropWhile.simps)
      then show ?thesis
        using Some None by (subst tokenize_loop.simps) (simp add: substr_from_def)
    next
      case (Some dl)
      from find_first_of_drop(2) [OF this] step 1 [OF \<open>find_first_not_of d s off = Some nd\<close> Some]
      show ?thesis
        using \<open>find_first_not_of d s off = Some nd\<close> Some
        by (subst tokenize_loop.simps) (simp add: reached_def)
    qed
  qed
qed

theorem tokenize_fields: "tokenize s d None = fields (\<lambda>c. c \<in> set d) s"
  by (simp add: tokenize_def tokenize_loop_fields)

lemma pieces_not_Nil [simp]: "pieces P s \<noteq> []"
  by (cases s) auto

lemma pieces_append_delim: "P d \<Longrightarrow> pieces P (s @ d # t) = pieces P s @ pieces P t"
  by (induction s) auto

lemma pieces_delim_free: "\<forall>c \<in> set s. \<not> P c \<Longrightarrow> pieces P s = [s]"
  by (induction s) auto

lemma pieces_dropWhile:
  "filter (\<lambda>t. t \<noteq> []) (pieces P (dropWhile P s)) = filter (\<lambda>t. t \<noteq> []) (pieces P s)"
  by (induction s) auto

lemma fields_pieces: "fields P s = filter (\<lambda>t. t \<noteq> []) (pieces P s)"
proof (induction P s rule: fields.induct)
  case (1 P s)
  show ?case
  proof (cases "dropWhile P s")
    case Nil
    then show ?thesis using pieces_dropWhile [of P s] by (simp only: fields_Nil) simp
  next
    case (Cons c u)
    let ?w = "takeWhile (\<lambda>x. \<not> P x) (c # u)" and ?r = "dropWhile (\<lambda>x. \<not> P x) (c # u)"
    have nc: "\<not> P c" using hd_dropWhile [of P s] Cons by auto
    have IH: "fields P ?r = filter (\<lambda>t. t \<noteq> []) (pieces P ?r)" using 1 [OF Cons] nc by simp
    have w: "?w \<noteq> []" "pieces P ?w = [?w]"
      using nc by (simp, intro pieces_delim_free) (auto dest: set_takeWhileD)
    have "filter (\<lambda>t. t \<noteq> []) (pieces P (?w @ ?r)) = ?w # filter (\<lambda>t. t \<noteq> []) (pieces P ?r)"
    proof (cases ?r)
      case Nil
      then show ?thesis using w by simp
    next
      case (Cons d r)
      then have "P d" using hd_dropWhile [of "\<lambda>x. \<not> P x" "c # u"] by auto
      with Cons show ?thesis using w by (simp add: pieces_append_delim del: takeWhile.simps dropWhile.simps)
    qed
    moreover have "fields P s = ?w # fields P ?r"
      using fields_step [OF Cons] by simp
    ultimately show ?thesis
      using IH pieces_dropWhile [of P s] Cons by (simp only: takeWhile_dropWhile_id)
  qed
qed

lemma fields_delim_free: "s \<noteq> [] \<Longrightarrow> \<forall>c \<in> set s. \<not> P c \<Longrightarrow> fields P s = [s]"
  by (simp add: fields_pieces pieces_delim_free)

lemma fields_append_delim: "P d \<Longrightarrow> fields P (s @ d # t) = fields P s @ fields P t"
  by (simp add: fields_pieces pieces_append_delim)

lemma fields_empty [simp]: "fields P [] = []"
  by (simp add: fields_pieces)

lemma fields_delim_Cons: "P d \<Longrightarrow> fields P (d # t) = fields P t"
  using fields_append_delim [of P d "[]" t] by simp

lemma fields_delim_snoc: "P d \<Longrightarrow> fields P (s @ [d]) = fields P s"
  using fields_append_delim [of P d s "[]"] by simp

lemma concat_pieces: "concat (pieces P s) = filter (\<lambda>c. \<not> P c) s"
proof (induction s)
  case (Cons c s)
  then show ?case by (cases "pieces P s") auto
qed simp

lemma pieces_elem: "t \<in> set (pieces P s) \<Longrightarrow> c \<in> set t \<Longrightarrow> \<not> P c"
proof (induction s arbitrary: t)
  case IH: (Cons d s)
  show ?case
  proof (cases "pieces P s")
    case (Cons u us)
    with IH(1) [of u] IH(1) [of t] IH(2,3) show ?thesis by (auto split: if_splits)
  qed simp
qed simp

lemma concat_filter_not_Nil: "concat (filter (\<lambda>t. t \<noteq> []) ts) = concat ts"
  by (induction ts) auto

lemma concat_fields: "concat (fields P s) = filter (\<lambda>c. \<not> P c) s"
  by (simp add: fields_pieces concat_filter_not_Nil concat_pieces)

lemma fields_elem: "t \<in> set (fields P s) \<Longrightarrow> t \<noteq> [] \<and> (\<forall>c \<in> set t. \<not> P c)"
  by (auto simp: fields_pieces dest: pieces_elem)

subsection \<open>\<open>trim\<close>\<close>

lemma find_idx_take: "find_idx P xs = Some i \<Longrightarrow> i < n \<Longrightarrow> find_idx P (take n xs) = Some i"
  by (auto simp: find_idx_Some_iff)

theorem trim_chars_strip: "trim_chars s chars = strip (\<lambda>c. c \<in> set chars) s"
proof (cases "find_first_not_of chars s 0")
  case None
  moreover from this have "dropWhile (\<lambda>c. c \<in> set chars) s = []"
    by (simp add: find_first_not_of_drop(1) del: dropWhile_eq_Nil_conv)
  ultimately show ?thesis
    by (simp add: trim_chars_def strip_def del: dropWhile_eq_Nil_conv)
next
  case (Some start)
  let ?n = "length s - start" and ?P = "\<lambda>c. c \<notin> set chars"
  from find_first_not_of_Some [OF Some] have st: "start < length s" "?P (s ! start)" by simp_all
  then have "s ! start \<in> set (rev s)" by simp
  with st(2) obtain i where i: "find_idx ?P (rev s) = Some i"
    using find_idx_None [of ?P "rev s"] by (cases "find_idx ?P (rev s)") auto
  have "\<not> ?n - 1 < i"
  proof
    assume "?n - 1 < i"
    moreover have "rev s ! (?n - 1) = s ! start" using st by (simp add: rev_nth)
    ultimately show False using i st by (auto simp: find_idx_Some_iff)
  qed
  then have lt: "i < ?n" using st by simp
  have last: "find_last_not_of chars s = Some (length s - 1 - i)"
    using i by (simp add: find_last_not_of_def)
  have "rev (dropWhile (\<lambda>c. c \<in> set chars) (rev (drop start s)))
      = rev (drop i (take ?n (rev s)))"
    using find_idx_takeWhile(2) [OF find_idx_take [OF i lt]] by (simp add: rev_drop)
  also have "\<dots> = take (?n - i) (drop start s)"
    using lt by (simp add: rev_drop rev_take take_drop)
  finally show ?thesis
    using Some last lt find_first_not_of_drop(2) [OF Some]
    by (simp add: trim_chars_def strip_def substr_def Suc_diff_Suc algebra_simps)
qed

lemma strip_idem: "strip P (strip P s) = strip P s"
proof -
  have d: "dropWhile P (dropWhile P u) = dropWhile P u" for u
    by (cases "dropWhile P u") (use hd_dropWhile [of P u] in auto)
  have "dropWhile P (strip P s) = strip P s"
  proof (cases "strip P s")
    case (Cons c u)
    then have "hd (strip P s) = hd (dropWhile P s)"
      unfolding strip_def
      by (metis append_Cons append_is_Nil_conv hd_append2 list.distinct(1) rev_append
          rev_rev_ident takeWhile_dropWhile_id)
    moreover have "dropWhile P s \<noteq> []"
      using Cons by (auto simp: strip_def simp del: dropWhile_eq_Nil_conv)
    ultimately show ?thesis using Cons hd_dropWhile [of P s] by auto
  qed simp
  then show ?thesis by (simp add: strip_def d)
qed

subsection \<open>\<open>replace\<close> of one character by nothing\<close>

lemma find_sub_single: "find_sub [c] s = find_idx (\<lambda>x. x = c) s"
  by (induction s) auto

lemma replace_loop_single:
  "i \<le> length s \<Longrightarrow> replace_loop [c] [] s i = take i s @ filter (\<lambda>x. x \<noteq> c) (drop i s)"
proof (induction "[c]" "[] :: string" s i rule: replace_loop.induct)
  case (1 s i)
  show ?case
  proof (cases "find_idx (\<lambda>x. x = c) (drop i s)")
    case None
    then have "filter (\<lambda>x. x \<noteq> c) (drop i s) = drop i s"
      by (auto simp: filter_id_conv find_idx_None)
    with None show ?thesis using 1
      by (subst replace_loop.simps) (simp add: find_sub_from_def find_sub_single)
  next
    case (Some j)
    let ?k = "i + j"
    have f: "find_sub_from [c] s i = Some ?k"
      using Some 1 by (simp add: find_sub_from_def find_sub_single)
    have k: "?k < length s" "s ! ?k = c" using Some by (auto simp: find_idx_Some_iff)
    have pre: "filter (\<lambda>x. x \<noteq> c) (take j (drop i s)) = take j (drop i s)"
      using find_idx_takeWhile(1) [OF Some] by (metis filter_id_conv set_takeWhileD)
    have "filter (\<lambda>x. x \<noteq> c) (drop i s)
        = filter (\<lambda>x. x \<noteq> c) (take j (drop i s) @ c # drop (Suc ?k) s)"
      using k by (metis Cons_nth_drop_Suc add.commute append_take_drop_id drop_drop)
    also have "\<dots> = take j (drop i s) @ filter (\<lambda>x. x \<noteq> c) (drop (Suc ?k) s)"
      by (simp only: filter_append pre) simp
    finally have flt: "filter (\<lambda>x. x \<noteq> c) (drop i s)
        = take j (drop i s) @ filter (\<lambda>x. x \<noteq> c) (drop (Suc ?k) s)" .
    have "replace_loop [c] [] s i = replace_loop [c] [] (take ?k s @ drop (Suc ?k) s) ?k"
      using f by (subst replace_loop.simps) simp
    also have "\<dots> = take ?k s @ filter (\<lambda>x. x \<noteq> c) (drop (Suc ?k) s)"
      using "1.hyps" [OF _ f] k by simp
    also have "\<dots> = take i s @ filter (\<lambda>x. x \<noteq> c) (drop i s)"
      unfolding flt by (simp add: take_add)
    finally show ?thesis .
  qed
qed

theorem replace_char_filter: "replace s [c] [] = filter (\<lambda>x. x \<noteq> c) s"
  by (simp add: replace_def replace_loop_single)

subsection \<open>Brackets\<close>

definition bracket_balance :: "char \<Rightarrow> char \<Rightarrow> string \<Rightarrow> int" where
  "bracket_balance op cl s = int (count_list s op) - int (count_list s cl)"

lemma bracket_loop_balance:
  assumes "op \<noteq> cl" and "0 \<le> n"
  shows "bracket_loop op cl n s \<longleftrightarrow>
    (\<forall>k \<le> length s. 0 \<le> n + bracket_balance op cl (take k s)) \<and> n + bracket_balance op cl s = 0"
  using assms(2)
proof (induction s arbitrary: n)
  case Nil
  then show ?case by (simp add: bracket_balance_def)
next
  case (Cons c s)
  define d where "d = (if c = op then 1 else if c = cl then -1 else 0 :: int)"
  have bal: "bracket_balance op cl (c # u) = d + bracket_balance op cl u" for u
    using assms(1) by (simp add: bracket_balance_def d_def)
  have all: "(\<forall>k \<le> length (c # s). 0 \<le> n + bracket_balance op cl (take k (c # s))) \<longleftrightarrow>
      (\<forall>k \<le> length s. 0 \<le> (n + d) + bracket_balance op cl (take k s))" (is "?L \<longleftrightarrow> ?R")
  proof
    assume L: ?L
    show ?R
    proof (intro allI impI)
      fix k assume "k \<le> length s"
      with L have "0 \<le> n + bracket_balance op cl (take (Suc k) (c # s))" by (metis Suc_le_mono length_Cons)
      then show "0 \<le> (n + d) + bracket_balance op cl (take k s)" by (simp add: bal add.assoc)
    qed
  next
    assume R: ?R
    show ?L
    proof (intro allI impI)
      fix k assume k: "k \<le> length (c # s)"
      show "0 \<le> n + bracket_balance op cl (take k (c # s))"
      proof (cases k)
        case 0
        then show ?thesis using Cons.prems by (simp add: bracket_balance_def)
      next
        case (Suc m)
        with k R have "0 \<le> (n + d) + bracket_balance op cl (take m s)" by simp
        with Suc show ?thesis by (simp add: bal add.assoc)
      qed
    qed
  qed
  have neg: "n + d < 0 \<Longrightarrow> \<not> ?R"
    by (auto intro!: exI [of _ 0] simp: bracket_balance_def)
  have "bracket_loop op cl n (c # s) \<longleftrightarrow> (0 \<le> n + d \<and> bracket_loop op cl (n + d) s)"
    by (auto simp: Let_def d_def)
  also have "\<dots> \<longleftrightarrow> ?R \<and> n + d + bracket_balance op cl s = 0"
    using Cons.IH [of "n + d"] neg by (cases "0 \<le> n + d") auto
  finally show ?case by (simp only: all bal add.assoc)
qed

theorem checkBracketsMatching_balanced:
  assumes "op \<noteq> cl"
  shows "checkBracketsMatching s op cl \<longleftrightarrow>
    (\<forall>k \<le> length s. count_list (take k s) cl \<le> count_list (take k s) op) \<and>
    count_list s op = count_list s cl"
  using bracket_loop_balance [OF assms, of 0 s]
  by (auto simp: checkBracketsMatching_def bracket_balance_def)

end
