(* ===== verification/Roles.thy ===== *)
theory Roles
  imports Strings
begin

text \<open>
  Role names (\<open>liburb/source/roles.cpp\<close>): the hierarchy relation \<open>isStrictSubroleOf\<close>, the
  validation of one role and of a list, and \<open>parse\<close> of a comma separated list. The messages of
  the source are the constructors of \<open>role_error\<close>, with the text they quote. A role is a path;
  the lemmas relate the checks on the text to the list of its components.
\<close>

datatype role_error =
    LeadingSlash string
  | TrailingSlash string
  | AdjacentSlashes string
  | EmptyRole
  | DotComponent string
  | DotDotComponent string
  | StarComponent string
  | DashComponent string
  | WhitespaceComponent string

definition isStrictSubroleOf :: "string \<Rightarrow> string \<Rightarrow> bool" where
  "isStrictSubroleOf left right =
     (length left > length right \<and> left ! length right = CHR ''/'' \<and> startsWith left right)"

definition INVALID_CHARACTERS :: string where
  "INVALID_CHARACTERS = [CHR 0x09, CHR 0x0A, CHR 0x0B, CHR 0x0C, CHR 0x0D, CHR 0x20, CHR 0x7F]"

text \<open>
  The source also checks that no component is empty; a token never is, so the check holds.
\<close>

fun validate_components :: "string \<Rightarrow> string list \<Rightarrow> role_error option" where
  "validate_components role [] = None"
| "validate_components role (component # components) =
     (if component = ''.'' then Some (DotComponent role)
      else if component = ''..'' then Some (DotDotComponent role)
      else if component = ''*'' then Some (StarComponent role)
      else if startsWith_char component (CHR ''-'') then Some (DashComponent component)
      else if find_first_of INVALID_CHARACTERS component 0 \<noteq> None
        then Some (WhitespaceComponent component)
      else validate_components role components)"

definition validate_role :: "string \<Rightarrow> role_error option" where
  "validate_role role =
     (if role = ''*'' then None
      else if startsWith_char role (CHR ''/'') then Some (LeadingSlash role)
      else if endsWith_char role (CHR ''/'') then Some (TrailingSlash role)
      else if contains_sub role ''//'' then Some (AdjacentSlashes role)
      else let components = tokenize role ''/'' None
           in if components = [] then Some EmptyRole
              else validate_components role components)"

fun validate_roles :: "string list \<Rightarrow> role_error option" where
  "validate_roles [] = None"
| "validate_roles (role # roles) =
     (case validate_role role of Some e \<Rightarrow> Some e | None \<Rightarrow> validate_roles roles)"

definition parse_roles :: "string \<Rightarrow> role_error + string list" where
  "parse_roles text =
     (let roles = tokenize text '','' None
      in case validate_roles roles of Some e \<Rightarrow> Inl e | None \<Rightarrow> Inr roles)"

text \<open>
  The specification: a role other than the catch-all \<open>*\<close> is a non-empty sequence of components,
  and a component is any non-empty text without a slash that is not one of the reserved names,
  does not start with a dash and holds no whitespace or backspace.
\<close>

definition components :: "string \<Rightarrow> string list" where
  "components role = pieces (\<lambda>c. c = CHR ''/'') role"

definition valid_component :: "string \<Rightarrow> bool" where
  "valid_component c \<longleftrightarrow>
     c \<noteq> [] \<and> c \<noteq> ''.'' \<and> c \<noteq> ''..'' \<and> c \<noteq> ''*'' \<and> hd c \<noteq> CHR ''-'' \<and>
     set c \<inter> set INVALID_CHARACTERS = {}"

fun join_path :: "string list \<Rightarrow> string" where
  "join_path [] = []"
| "join_path [c] = c"
| "join_path (c # cs) = c @ CHR ''/'' # join_path cs"

subsection \<open>Components\<close>

lemma join_path_append:
  "cs \<noteq> [] \<Longrightarrow> ds \<noteq> [] \<Longrightarrow> join_path (cs @ ds) = join_path cs @ CHR ''/'' # join_path ds"
  by (induction cs rule: join_path.induct) (auto simp: neq_Nil_conv)

lemma join_path_components: "join_path (components role) = role"
proof (induction role)
  case Nil
  then show ?case by (simp add: components_def)
next
  case (Cons c role)
  have "join_path ((x # p) # ps) = x # join_path (p # ps)" for x p ps
    by (cases ps) auto
  with Cons show ?case
    unfolding components_def by (cases "pieces (\<lambda>c. c = CHR ''/'') role") auto
qed

lemma components_append_slash:
  "components (a @ CHR ''/'' # b) = components a @ components b"
  by (simp add: components_def pieces_append_delim)

lemma components_not_Nil [simp]: "components role \<noteq> []"
  by (simp add: components_def)

lemma components_Cons:
  "components (c # role) =
     (if c = CHR ''/'' then [] # components role
      else (c # hd (components role)) # tl (components role))"
  by (simp add: components_def)

lemma hd_components_Nil: "hd (components role) = [] \<longleftrightarrow> role = [] \<or> startsWith_char role (CHR ''/'')"
  by (cases role) (auto simp: components_def startsWith_char_def)

lemma member_hd_tl: "xs \<noteq> [] \<Longrightarrow> x \<in> set xs \<longleftrightarrow> hd xs = x \<or> x \<in> set (tl xs)"
  by (cases xs) auto

lemma tl_components_Nil:
  "[] \<in> set (tl (components role)) \<longleftrightarrow>
     endsWith_char role (CHR ''/'') \<or> contains_sub role ''//''"
proof (induction role)
  case Nil
  then show ?case by (simp add: components_def endsWith_char_def contains_sub_def)
next
  case (Cons c role)
  have sub: "contains_sub (c # role) ''//'' \<longleftrightarrow>
      c = CHR ''/'' \<and> startsWith_char role (CHR ''/'') \<or> contains_sub role ''//''"
    by (cases role) (auto simp: contains_sub_def startsWith_char_def)
  have e: "endsWith_char (c # role) (CHR ''/'') \<longleftrightarrow>
      (if role = [] then c = CHR ''/'' else endsWith_char role (CHR ''/''))"
    by (simp add: endsWith_char_def)
  have "endsWith_char [] (CHR ''/'') = False" and "contains_sub [] ''//'' = False"
    by (simp_all add: endsWith_char_def contains_sub_def)
  moreover have "tl (components []) = []" by (simp add: components_def)
  ultimately show ?case
    unfolding e sub
    by (cases "role = []") (auto simp: components_Cons member_hd_tl hd_components_Nil Cons.IH)
qed

lemma empty_component_iff:
  "[] \<in> set (components role) \<longleftrightarrow>
     role = [] \<or> startsWith_char role (CHR ''/'') \<or> endsWith_char role (CHR ''/'') \<or> contains_sub role ''//''"
  by (simp add: member_hd_tl hd_components_Nil tl_components_Nil)

lemma tokenize_components:
  "tokenize role ''/'' None = filter (\<lambda>c. c \<noteq> []) (components role)"
  by (simp add: tokenize_fields fields_pieces components_def)

lemma components_slash_free: "c \<in> set (components role) \<Longrightarrow> CHR ''/'' \<notin> set c"
  using pieces_elem [of c "\<lambda>c. c = CHR ''/''" role "CHR ''/''"] by (auto simp: components_def)

lemma validate_components_None:
  "validate_components role cs = None \<and> [] \<notin> set cs \<longleftrightarrow> (\<forall>c \<in> set cs. valid_component c)"
proof (induction cs)
  case (Cons c cs)
  have "find_first_of INVALID_CHARACTERS c 0 = None \<longleftrightarrow> set c \<inter> set INVALID_CHARACTERS = {}"
    by (auto simp: find_first_of_def find_idx_None)
  moreover have "c \<noteq> [] \<Longrightarrow> startsWith_char c (CHR ''-'') \<longleftrightarrow> hd c = CHR ''-''"
    by (simp add: startsWith_char_def)
  ultimately have "c \<noteq> [] \<Longrightarrow> validate_components role (c # cs) = None \<longleftrightarrow>
      valid_component c \<and> validate_components role cs = None"
    by (simp add: valid_component_def)
  moreover have "\<not> valid_component []" by (simp add: valid_component_def)
  ultimately show ?case
    using Cons by (cases "c = []") (auto simp del: validate_components.simps)
qed simp

lemma validate_roles_None: "validate_roles roles = None \<longleftrightarrow> (\<forall>r \<in> set roles. validate_role r = None)"
  by (induction roles) (auto split: option.splits)

subsection \<open>Properties\<close>

text \<open>
  C38. \<open>roles::validate\<close> accepts exactly the catch-all role and the roles all of whose
  components (the texts between slashes) are valid: non-empty, not \<open>.\<close>, \<open>..\<close> or \<open>*\<close>, not starting
  with a dash, and free of whitespace and backspace. A slash is thus allowed inside a role, where the
  comment on the function in the header lists it among the invalid characters.
\<close>

theorem validate_role_spec:
  "validate_role role = None \<longleftrightarrow> role = ''*'' \<or> list_all valid_component (components role)"
proof (cases "[] \<in> set (components role)")
  case True
  then have *: "(\<forall>c \<in> set (components role). valid_component c) \<longleftrightarrow> False"
    by (auto simp: valid_component_def)
  have "validate_role role = None \<longleftrightarrow> role = ''*''"
    using True unfolding empty_component_iff
    by (auto simp: validate_role_def Let_def tokenize_components components_def)
  then show ?thesis by (simp only: list_all_iff *) simp
next
  case False
  then have "tokenize role ''/'' None = components role"
    by (auto simp: tokenize_components filter_id_conv)
  moreover have "\<not> (startsWith_char role (CHR ''/'') \<or> endsWith_char role (CHR ''/'') \<or> contains_sub role ''//'')"
    using False by (simp add: empty_component_iff)
  ultimately have "validate_role role = None \<longleftrightarrow>
      role = ''*'' \<or> validate_components role (components role) = None"
    by (simp add: validate_role_def Let_def)
  also have "\<dots> \<longleftrightarrow> role = ''*'' \<or> (\<forall>c \<in> set (components role). valid_component c)"
    by (simp only: False not_False_eq_True simp_thms
        flip: validate_components_None [of role "components role"])
  finally show ?thesis by (simp only: list_all_iff)
qed

lemma isStrictSubroleOf_iff: "isStrictSubroleOf a b \<longleftrightarrow> (\<exists>t. a = b @ CHR ''/'' # t)"
proof
  assume "isStrictSubroleOf a b"
  then have "length b < length a" and b: "take (length b) a = b" and c: "a ! length b = CHR ''/''"
    by (auto simp: isStrictSubroleOf_def startsWith_def)
  then have "a = take (length b) a @ a ! length b # drop (Suc (length b)) a"
    by (intro id_take_nth_drop)
  then have "a = b @ CHR ''/'' # drop (Suc (length b)) a" unfolding b c .
  then show "\<exists>t. a = b @ CHR ''/'' # t" ..
qed (auto simp: isStrictSubroleOf_def startsWith_def)

text \<open>
  C39. \<open>isStrictSubroleOf\<close> decides the role hierarchy: one role is a strict subrole of another
  exactly when the components of the other are a proper initial part of its own components; in
  particular the relation is irreflexive and transitive.
\<close>

theorem isStrictSubroleOf_hierarchy:
  "isStrictSubroleOf a b \<longleftrightarrow> strict_prefix (components b) (components a)"
proof
  assume "isStrictSubroleOf a b"
  then obtain t where "a = b @ CHR ''/'' # t" by (auto simp: isStrictSubroleOf_iff)
  then show "strict_prefix (components b) (components a)"
    by (simp add: components_append_slash strict_prefix_def)
next
  assume "strict_prefix (components b) (components a)"
  then obtain cs where cs: "components a = components b @ cs" "cs \<noteq> []"
    by (auto simp: strict_prefix_def prefix_def)
  have "a = join_path (components a)" by (simp add: join_path_components)
  also have "\<dots> = b @ CHR ''/'' # join_path cs"
    using cs by (simp add: join_path_append join_path_components)
  finally show "isStrictSubroleOf a b" by (auto simp: isStrictSubroleOf_iff)
qed

theorem slash_role_accepted: "validate_role ''foo/bar'' = None"
  by code_simp

end
