(* ===== verification/Fixed_Point.thy ===== *)
theory Fixed_Point
  imports Prelude Complex_Main "HOL-Library.Log_Nat"
begin

text \<open>
  Scalar resource values (\<open>liburb/source/values.cpp\<close>, the operators on \<open>Value::Scalar\<close>). A scalar is a
  C++ \<open>double\<close>; the operators convert to a fixed point number of thousandths, compute there, and
  convert back.

  A double is modelled by the rational it denotes. Every floating point operation of the source
  is the exact operation followed by \<open>fround\<close>, the IEEE rounding to the nearest number with a
  53 bit significand, ties to even. The range of the exponent is not modelled: no
  infinities, no NaN and no subnormals occur, and the bounds in the theorems keep every value
  far from overflow. \<open>long long\<close> is \<open>int\<close>; the same bounds keep every value within 64 bits.
\<close>

subsection \<open>Rounding\<close>

definition ilog2 :: "rat \<Rightarrow> int" where
  "ilog2 x =
     (case quotient_of x of (p, q) \<Rightarrow>
        let k = bitlen p - bitlen q
        in if 2 powi k \<le> x then k else k - 1)"

definition round_even :: "rat \<Rightarrow> int" where
  "round_even y =
     (let f = \<lfloor>y\<rfloor>; d = y - of_int f
      in if d < 1 / 2 then f
         else if d > 1 / 2 then f + 1
         else if even f then f else f + 1)"

definition fround :: "rat \<Rightarrow> rat" where
  "fround x =
     (if x = 0 then 0
      else let e = ilog2 \<bar>x\<bar> - 52 in of_int (round_even (x / 2 powi e)) * 2 powi e)"

definition llround :: "rat \<Rightarrow> int" where
  "llround x = (if x \<ge> 0 then \<lfloor>x + 1 / 2\<rfloor> else \<lceil>x - 1 / 2\<rceil>)"

text \<open>The integer division of C++ truncates towards zero.\<close>

definition quot :: "int \<Rightarrow> int \<Rightarrow> int" where
  "quot a b = sgn a * sgn b * (\<bar>a\<bar> div \<bar>b\<bar>)"

definition rem :: "int \<Rightarrow> int \<Rightarrow> int" where
  "rem a b = a - b * quot a b"

subsection \<open>The operators on \<open>Value::Scalar\<close>\<close>

definition convertToFixed :: "rat \<Rightarrow> int" where
  "convertToFixed floatValue = llround (fround (floatValue * 1000))"

definition convertToFloating :: "int \<Rightarrow> rat" where
  "convertToFloating fixedValue =
     (let quotient = fround (of_int (quot fixedValue 1000));
          remainder = fround (fround (of_int (rem fixedValue 1000)) / 1000)
      in fround (quotient + remainder))"

definition scalar_eq :: "rat \<Rightarrow> rat \<Rightarrow> bool" where
  "scalar_eq left right = (convertToFixed left = convertToFixed right)"

definition scalar_le :: "rat \<Rightarrow> rat \<Rightarrow> bool" where
  "scalar_le left right = (convertToFixed left \<le> convertToFixed right)"

definition scalar_add :: "rat \<Rightarrow> rat \<Rightarrow> rat" where
  "scalar_add left right = convertToFloating (convertToFixed left + convertToFixed right)"

definition scalar_sub :: "rat \<Rightarrow> rat \<Rightarrow> rat" where
  "scalar_sub left right = convertToFloating (convertToFixed left - convertToFixed right)"

text \<open>The value written by the stream operator.\<close>

definition scalar_printed :: "rat \<Rightarrow> rat" where
  "scalar_printed x = convertToFloating (convertToFixed x)"

text \<open>The partial sums, in thousandths, of a sequence of additions.\<close>

fun partial_sums :: "int \<Rightarrow> rat list \<Rightarrow> int list" where
  "partial_sums acc [] = []"
| "partial_sums acc (x # xs) = (acc + convertToFixed x) # partial_sums (acc + convertToFixed x) xs"

subsection \<open>Bounds on the rounding error\<close>

lemma bitlen_powi:
  assumes "0 < (p :: int)"
  shows "(2 :: rat) powi (bitlen p - 1) \<le> of_int p" and "(of_int p :: rat) < 2 powi (bitlen p)"
proof -
  have "1 \<le> bitlen p" using assms by (simp add: bitlen_def floorlog_def)
  moreover have "(of_int (2 ^ nat (bitlen p - 1)) :: rat) \<le> of_int p"
    and "(of_int p :: rat) < of_int (2 ^ nat (bitlen p))"
    using bitlen_bounds [OF assms] by (simp_all only: of_int_le_iff of_int_less_iff)
  ultimately show "(2 :: rat) powi (bitlen p - 1) \<le> of_int p" "(of_int p :: rat) < 2 powi (bitlen p)"
    by (simp_all add: power_int_def)
qed

lemma ilog2_bounds:
  assumes "0 < x"
  shows "2 powi (ilog2 x) \<le> x" and "x < 2 powi (ilog2 x + 1)"
proof -
  obtain p q where pq: "quotient_of x = (p, q)" by (cases "quotient_of x")
  have q: "0 < q" using quotient_of_denom_pos [OF pq] .
  have x: "x = of_int p / of_int q" using quotient_of_div [OF pq] .
  then have p: "0 < p" using assms q by (simp add: zero_less_divide_iff)
  define k where "k = bitlen p - bitlen q"
  have "2 powi (k - 1) = (2 :: rat) powi (bitlen p - 1) / 2 powi (bitlen q)"
    and "2 powi (k + 1) = (2 :: rat) powi (bitlen p) / 2 powi (bitlen q - 1)"
    by (simp_all add: k_def algebra_simps flip: power_int_diff)
  then have "2 powi (k - 1) \<le> x" and "x < 2 powi (k + 1)"
    using bitlen_powi [OF p] bitlen_powi [OF q] p q unfolding x
    by (auto intro!: frac_le frac_less simp: less_imp_le)
  then show "2 powi (ilog2 x) \<le> x" and "x < 2 powi (ilog2 x + 1)"
    by (auto simp: ilog2_def pq k_def Let_def)
qed

lemma round_even_error: "\<bar>of_int (round_even y) - y\<bar> \<le> 1 / 2"
proof -
  have "of_int \<lfloor>y\<rfloor> \<le> y" "y < of_int \<lfloor>y\<rfloor> + 1" by linarith+
  then show ?thesis by (auto simp: round_even_def Let_def)
qed

lemma round_even_of_int [simp]: "round_even (of_int z) = z"
  by (simp add: round_even_def)

lemma fround_error: "\<bar>fround x - x\<bar> \<le> \<bar>x\<bar> / 2 ^ 53"
proof (cases "x = 0")
  case False
  define e where "e = ilog2 \<bar>x\<bar> - 52"
  have pos: "(0 :: rat) < 2 powi e" by simp
  have "fround x - x = (of_int (round_even (x / 2 powi e)) - x / 2 powi e) * 2 powi e"
    using False pos by (simp add: fround_def e_def Let_def algebra_simps)
  then have "\<bar>fround x - x\<bar> \<le> 1 / 2 * 2 powi e"
    using round_even_error [of "x / 2 powi e"] pos by (simp add: abs_mult mult_right_mono)
  also have "\<dots> = 2 powi (ilog2 \<bar>x\<bar>) / 2 ^ 53"
    unfolding e_def by (simp add: power_int_diff)
  also have "\<dots> \<le> \<bar>x\<bar> / 2 ^ 53"
    using ilog2_bounds(1) [of "\<bar>x\<bar>"] False by (simp add: divide_right_mono)
  finally show ?thesis .
qed (simp add: fround_def)

lemma fround_error_le: "\<bar>x\<bar> \<le> b \<Longrightarrow> \<bar>fround x - x\<bar> \<le> b / 2 ^ 53"
  by (rule order_trans [OF fround_error]) (simp add: divide_right_mono)

lemma fround_of_int:
  assumes "\<bar>z\<bar> < 2 ^ 53"
  shows "fround (of_int z) = of_int z"
proof (cases "z = 0")
  case False
  define e where "e = ilog2 \<bar>of_int z\<bar> - 52"
  have "(2 :: rat) powi (ilog2 \<bar>of_int z\<bar>) \<le> \<bar>of_int z\<bar>"
    using False by (intro ilog2_bounds) simp
  also have "\<dots> < 2 powi 53" using assms by (simp flip: of_int_abs)
  finally have "\<not> 53 \<le> ilog2 \<bar>of_int z\<bar>"
    using power_int_increasing [of 53 "ilog2 \<bar>of_int z\<bar>" "2 :: rat"] by force
  then have "of_int z / 2 powi e = (of_int (z * 2 ^ nat (- e)) :: rat)"
    by (simp add: e_def power_int_def field_simps)
  then have "round_even (of_int z / 2 powi e) = z * 2 ^ nat (- e)" by (simp only: round_even_of_int)
  moreover have "(2 :: rat) powi e = 1 / 2 ^ nat (- e)"
    using \<open>\<not> 53 \<le> _\<close> by (simp add: e_def power_int_def field_simps)
  ultimately show ?thesis using False by (simp add: fround_def e_def [symmetric] Let_def)
qed (simp add: fround_def)

lemma llround_unique:
  assumes "\<bar>x - of_int n\<bar> < 1 / 2"
  shows "llround x = n"
proof -
  have "of_int n - 1 / 2 < x" "x < of_int n + 1 / 2" using assms by (auto simp: abs_if split: if_splits)
  then show ?thesis by (simp add: llround_def floor_eq_iff ceiling_eq_iff)
qed

subsection \<open>The conversions\<close>

lemma quot_rem:
  shows "n = 1000 * quot n 1000 + rem n 1000" and "\<bar>rem n 1000\<bar> < 1000" and "\<bar>quot n 1000\<bar> \<le> \<bar>n\<bar>"
  by (auto simp: rem_def quot_def sgn_if abs_if split: if_splits)

lemma convertToFloating_error:
  assumes "\<bar>n\<bar> \<le> 2 ^ 50"
  shows "\<bar>convertToFloating n - of_int n / 1000\<bar> \<le> (\<bar>of_int n\<bar> / 1000 + 3) / 2 ^ 53"
proof -
  define q r where "q = quot n 1000" and "r = rem n 1000"
  have n: "n = 1000 * q + r" and r: "\<bar>r\<bar> < 1000" and q: "\<bar>q\<bar> \<le> \<bar>n\<bar>"
    unfolding q_def r_def by (fact quot_rem)+
  define y :: rat where "y = fround (of_int r / 1000)"
  have "fround (of_int q) = of_int q" and "fround (of_int r) = of_int r"
    using assms q r by (auto intro!: fround_of_int)
  then have c: "convertToFloating n = fround (of_int q + y)"
    by (simp add: convertToFloating_def y_def q_def r_def)
  have "\<bar>of_int r / 1000 :: rat\<bar> \<le> 1" using r by (simp flip: of_int_abs)
  then have y: "\<bar>y - of_int r / 1000\<bar> \<le> 1 / 2 ^ 53"
    unfolding y_def by (rule fround_error_le)
  have x: "of_int n / 1000 = of_int q + of_int r / (1000 :: rat)" unfolding n by simp
  have "\<bar>of_int n :: rat\<bar> / 1000 = \<bar>of_int n / 1000\<bar>" by simp
  moreover have "(1 :: rat) / 2 ^ 53 \<le> 1" by simp
  ultimately have "\<bar>of_int q + y\<bar> \<le> \<bar>of_int n\<bar> / 1000 + 1" using y x by linarith
  then have "\<bar>convertToFloating n - (of_int q + y)\<bar> \<le> (\<bar>of_int n\<bar> / 1000 + 1) / 2 ^ 53"
    unfolding c by (rule fround_error_le)
  then have "\<bar>convertToFloating n - (of_int q + of_int r / 1000)\<bar> \<le>
      (\<bar>of_int n\<bar> / 1000 + 1) / 2 ^ 53 + 1 / 2 ^ 53"
    using y by linarith
  then show ?thesis unfolding x by (simp add: field_simps)
qed

lemma fixed_close:
  assumes "\<bar>n\<bar> \<le> 2 ^ 50" and "\<bar>x - of_int n / 1000\<bar> \<le> (\<bar>of_int n\<bar> / 1000 + 3) / 2 ^ 53"
  shows "convertToFixed x = n"
proof -
  have n: "\<bar>of_int n :: rat\<bar> \<le> 2 ^ 50" using assms(1) by (simp flip: of_int_abs of_int_power)
  have "\<bar>x * 1000 - of_int n\<bar> = 1000 * \<bar>x - of_int n / 1000\<bar>" by (simp add: abs_if field_simps)
  also have "\<dots> \<le> 1000 * ((2 ^ 50 / 1000 + 3) / 2 ^ 53)"
    using assms(2) n by simp
  also have "\<dots> \<le> 1 / 8 + 1 / 2 ^ 40" by simp
  finally have d: "\<bar>x * 1000 - of_int n\<bar> \<le> 1 / 8 + 1 / 2 ^ 40" .
  moreover have "(1 :: rat) / 8 + 1 / 2 ^ 40 \<le> 1" by simp
  ultimately have "\<bar>x * 1000\<bar> \<le> 2 ^ 50 + 1" using n by linarith
  then have "\<bar>fround (x * 1000) - x * 1000\<bar> \<le> (2 ^ 50 + 1) / 2 ^ 53" by (rule fround_error_le)
  with d have "\<bar>fround (x * 1000) - of_int n\<bar> < 1 / 2" by (simp add: abs_if split: if_splits)
  then show ?thesis by (simp add: convertToFixed_def llround_unique)
qed

lemma fixed_floating: "\<bar>n\<bar> \<le> 2 ^ 50 \<Longrightarrow> convertToFixed (convertToFloating n) = n"
  by (intro fixed_close convertToFloating_error)

subsection \<open>Signs\<close>

lemma round_even_nonneg: "0 \<le> y \<Longrightarrow> 0 \<le> round_even y"
  by (simp add: round_even_def Let_def)

lemma fround_nonneg: "0 \<le> x \<Longrightarrow> 0 \<le> fround x"
  by (simp add: fround_def Let_def round_even_nonneg)

lemma convertToFixed_nonneg: "0 \<le> x \<Longrightarrow> 0 \<le> convertToFixed x"
  using fround_nonneg [of "x * 1000"] by (simp add: convertToFixed_def llround_def)

lemma convertToFloating_nonneg:
  assumes "0 \<le> n"
  shows "0 \<le> convertToFloating n"
proof -
  have "0 \<le> quot n 1000" using assms by (simp add: quot_def sgn_if)
  moreover have "0 \<le> rem n 1000" using assms by (auto simp: rem_def quot_def sgn_if)
  ultimately show ?thesis by (simp add: convertToFloating_def Let_def fround_nonneg)
qed

lemma convertToFloating_neg:
  assumes "n < 0" and "- (2 ^ 50) \<le> n"
  shows "convertToFloating n < 0"
proof (rule ccontr)
  assume "\<not> convertToFloating n < 0"
  then have "0 \<le> convertToFixed (convertToFloating n)" by (simp add: convertToFixed_nonneg)
  with assms show False by (simp add: fixed_floating)
qed

subsection \<open>Properties\<close>

text \<open>
  Thousandths survive the trip through \<open>double\<close>: converting a fixed point number of at most
  \<open>2 ^ 50\<close> in absolute value to floating point and back returns it, although the conversion rounds
  three times and the way back twice.
\<close>

theorem fixed_point_roundtrip:
  "\<bar>n\<bar> \<le> 2 ^ 50 \<Longrightarrow> convertToFixed (convertToFloating n) = n"
  by (rule fixed_floating)

theorem fixed_point_roundtrip_witness:
  "\<bar>- 123456789 :: int\<bar> \<le> 2 ^ 50 \<and> convertToFixed (convertToFloating (- 123456789)) = - 123456789"
  using fixed_point_roundtrip [of "- 123456789"] by simp

text \<open>
  C31. Scalar arithmetic is exact on thousandths and has no drift: the sum of a list of scalars,
  added one after the other with the operator, is the exact sum of their thousandths, as long as
  every partial sum stays within \<open>2 ^ 50\<close>.
\<close>

theorem scalar_sum_exact:
  assumes "list_all (\<lambda>s. \<bar>s\<bar> \<le> 2 ^ 50) (partial_sums (convertToFixed x) xs)"
  shows "convertToFixed (foldl scalar_add x xs) = convertToFixed x + sum_list (map convertToFixed xs)"
  using assms
proof (induction xs arbitrary: x)
  case (Cons y ys)
  then have "convertToFixed (scalar_add x y) = convertToFixed x + convertToFixed y"
    by (simp add: scalar_add_def fixed_floating)
  with Cons show ?case by simp
qed simp

theorem scalar_sum_exact_witness:
  "convertToFixed (foldl scalar_add (1 / 10) [2 / 10, 3 / 10]) = 600"
proof -
  have "convertToFixed (1 / 10) = 100" "convertToFixed (2 / 10) = 200" "convertToFixed (3 / 10) = 300"
    by code_simp+
  then show ?thesis
    using scalar_sum_exact [of "1 / 10" "[2 / 10, 3 / 10]"] by simp
qed

text \<open>
  C32. Subtraction undoes addition up to the equality of scalars, and the order and equality of
  scalars are those of the thousandths they print.
\<close>

theorem scalar_add_sub:
  assumes "\<bar>convertToFixed x\<bar> \<le> 2 ^ 49" and "\<bar>convertToFixed y\<bar> \<le> 2 ^ 49"
  shows "scalar_eq (scalar_sub (scalar_add x y) y) x \<and> scalar_eq (scalar_printed x) x \<and>
    scalar_add x y = scalar_add y x \<and>
    (scalar_le x (scalar_add x y) \<longleftrightarrow> 0 \<le> convertToFixed y)"
  using assms
  by (simp add: scalar_eq_def scalar_le_def scalar_sub_def scalar_add_def scalar_printed_def
      fixed_floating add.commute)

theorem scalar_add_sub_witness: "scalar_eq (scalar_sub (scalar_add (1 / 4) (3 / 2)) (3 / 2)) (1 / 4)"
proof -
  have "\<bar>convertToFixed (1 / 4)\<bar> \<le> 2 ^ 49" "\<bar>convertToFixed (3 / 2)\<bar> \<le> 2 ^ 49" by code_simp+
  then show ?thesis using scalar_add_sub by blast
qed

end
