(* ===== verification/Ranges.thy ===== *)
theory Ranges
  imports Prelude "HOL-Library.Word" "HOL-Library.Product_Lexorder"
begin

text \<open>
  Range resource values (\<open>liburb/source/values.cpp\<close>, the operators on \<open>Value::Ranges\<close>), for example
  the ports of an offer. A range is a pair of inclusive 64 bit bounds, and \<open>end + 1\<close> wraps.

  \<open>coalesce_loop\<close> is the single pass that merges the sorted vector in place; it is proved equal to
  the recursive \<open>merge\<close>, from which the meaning of the operators as set operations follows.
  Subtraction goes through stout's \<open>IntervalSet\<close>, a wrapper of \<open>boost::icl::interval_set\<close>: the boost
  class is the parameter \<open>icl\<close>, and its documented behaviour the locale \<open>interval_set\<close>.
\<close>

type_synonym uint64 = "64 word"

record Range =
  range_begin :: uint64
  range_end :: uint64

type_synonym Ranges = "Range list"

definition mk_range :: "uint64 \<Rightarrow> uint64 \<Rightarrow> Range" where
  "mk_range b e = \<lparr>range_begin = b, range_end = e\<rparr>"

subsection \<open>\<open>coalesce\<close>\<close>

definition coalesce_step :: "nat \<Rightarrow> Range list \<times> nat \<times> Range \<Rightarrow> Range list \<times> nat \<times> Range" where
  "coalesce_step i st =
     (case st of (ranges, count, current) \<Rightarrow>
        let range = ranges ! i
        in if range_begin range = range_begin current \<and> range_end range = range_end current then st
           else if range_begin range = range_begin current \<and> range_end range > range_end current
             then (ranges, count, current\<lparr>range_end := range_end range\<rparr>)
           else if range_begin range > range_begin current
             then if range_begin range \<le> range_end current + 1
                  then (ranges, count, current\<lparr>range_end := max (range_end current) (range_end range)\<rparr>)
                  else (ranges[count - 1 := current], count + 1, range)
           else st)"

definition coalesce_loop :: "Range list \<Rightarrow> Range list \<times> nat \<times> Range" where
  "coalesce_loop ranges = fold coalesce_step [0..<length ranges] (ranges, 1, hd ranges)"

definition copy_range :: "Range list \<Rightarrow> nat \<Rightarrow> Ranges \<Rightarrow> Ranges outcome" where
  "copy_range ranges i result =
     (let result = (if i \<ge> length result then result @ [mk_range 0 0] else result)
      in require (i < length result) (Inr (result[i := ranges ! i])))"

definition coalesce_internal :: "Ranges \<Rightarrow> Range list \<Rightarrow> Ranges outcome" where
  "coalesce_internal result ranges =
     (if ranges = [] then Inr []
      else case coalesce_loop (sort_key (\<lambda>r. (range_begin r, range_end r)) ranges) of
             (ranges, count, current) \<Rightarrow>
               let ranges = ranges[count - 1 := current]
               in require (count \<le> length ranges)
                    (let result = (if count < length result then take count result else result)
                     in andThen (foldOutcome (copy_range ranges) [0..<count] result)
                          (\<lambda>result. require (length result = count) (Inr result))))"

definition coalesce :: "Ranges \<Rightarrow> Ranges list \<Rightarrow> Ranges outcome" where
  "coalesce result addedRanges = coalesce_internal result (result @ concat addedRanges)"

definition coalesce_self :: "Ranges \<Rightarrow> Ranges outcome" where
  "coalesce_self result = coalesce result [[]]"

definition coalesce_range :: "Ranges \<Rightarrow> Range \<Rightarrow> Ranges outcome" where
  "coalesce_range result addedRange = coalesce result [[addedRange]]"

subsection \<open>The interval set of boost\<close>

text \<open>
  \<open>icl_add lower upper s\<close> inserts the right-open interval, \<open>icl_minus\<close> removes a set from another,
  and \<open>icl_iterate\<close> lists the intervals (inclusive lower and exclusive upper bound) in order.
\<close>

record 'i icl =
  icl_empty :: 'i
  icl_add :: "uint64 \<Rightarrow> uint64 \<Rightarrow> 'i \<Rightarrow> 'i"
  icl_minus :: "'i \<Rightarrow> 'i \<Rightarrow> 'i"
  icl_iterate :: "'i \<Rightarrow> (uint64 \<times> uint64) list"

definition rangesToIntervalSet :: "'i icl \<Rightarrow> Ranges \<Rightarrow> 'i" where
  "rangesToIntervalSet icl ranges =
     fold (\<lambda>r. icl_add icl (range_begin r) (range_end r + 1)) ranges (icl_empty icl)"

definition intervalSetToRanges :: "'i icl \<Rightarrow> 'i \<Rightarrow> Ranges" where
  "intervalSetToRanges icl s = map (\<lambda>(lower, upper). mk_range lower (upper - 1)) (icl_iterate icl s)"

subsection \<open>The operators\<close>

definition ranges_eq :: "Ranges \<Rightarrow> Ranges \<Rightarrow> bool outcome" where
  "ranges_eq left0 right0 =
     andThen (coalesce [] [left0]) (\<lambda>left. andThen (coalesce [] [right0]) (\<lambda>right. Inr
       (length left = length right \<and>
        list_all (\<lambda>l. list_ex (\<lambda>r. range_begin l = range_begin r \<and> range_end l = range_end r) right) left)))"

definition ranges_le :: "Ranges \<Rightarrow> Ranges \<Rightarrow> bool outcome" where
  "ranges_le left0 right0 =
     andThen (coalesce [] [left0]) (\<lambda>left. andThen (coalesce [] [right0]) (\<lambda>right. Inr
       (list_all (\<lambda>l. list_ex (\<lambda>r. range_begin l \<ge> range_begin r \<and> range_end l \<le> range_end r) right) left)))"

definition ranges_add :: "Ranges \<Rightarrow> Ranges \<Rightarrow> Ranges outcome" where
  "ranges_add left right = coalesce [] [left, right]"

definition ranges_add_to :: "Ranges \<Rightarrow> Ranges \<Rightarrow> Ranges outcome" where
  "ranges_add_to left right = coalesce left [right]"

definition ranges_sub_from :: "'i icl \<Rightarrow> Ranges \<Rightarrow> Ranges \<Rightarrow> Ranges" where
  "ranges_sub_from icl left right =
     intervalSetToRanges icl
       (icl_minus icl (rangesToIntervalSet icl left) (rangesToIntervalSet icl right))"

definition ranges_sub :: "'i icl \<Rightarrow> Ranges \<Rightarrow> Ranges \<Rightarrow> Ranges outcome" where
  "ranges_sub icl left right =
     andThen (coalesce [] [left]) (\<lambda>result. Inr (ranges_sub_from icl result right))"

subsection \<open>Specification\<close>

definition range_set :: "Range \<Rightarrow> uint64 set" where
  "range_set r = {range_begin r .. range_end r}"

definition ranges_set :: "Ranges \<Rightarrow> uint64 set" where
  "ranges_set rs = (\<Union>r \<in> set rs. range_set r)"

definition valid_range :: "Range \<Rightarrow> bool" where
  "valid_range r \<longleftrightarrow> range_begin r \<le> range_end r \<and> range_end r \<noteq> - 1"

fun separated :: "Ranges \<Rightarrow> bool" where
  "separated (a # b # rs) \<longleftrightarrow> range_end a + 1 < range_begin b \<and> separated (b # rs)"
| "separated rs \<longleftrightarrow> True"

definition canonical :: "Ranges \<Rightarrow> bool" where
  "canonical rs \<longleftrightarrow> list_all valid_range rs \<and> separated rs"

fun merge :: "Range \<Rightarrow> Range list \<Rightarrow> Ranges" where
  "merge current [] = [current]"
| "merge current (r # rs) =
     (if range_begin current < range_begin r \<and> \<not> range_begin r \<le> range_end current + 1
      then current # merge r rs
      else merge (if range_begin current \<le> range_begin r
                  then current\<lparr>range_end := max (range_end current) (range_end r)\<rparr>
                  else current) rs)"

definition merged :: "Range list \<Rightarrow> Ranges" where
  "merged rs = (case sort_key (\<lambda>r. (range_begin r, range_end r)) rs of [] \<Rightarrow> [] | r # rs \<Rightarrow> merge r rs)"

subsection \<open>An interval set on lists\<close>

text \<open>
  A concrete interval set, by which the assumptions on boost are shown to be satisfiable and the
  operators can be evaluated: canonical lists of ranges, kept so by merging.
\<close>

definition range_minus :: "Range \<Rightarrow> Range \<Rightarrow> Range list" where
  "range_minus b a =
     (if range_begin a < range_begin b
      then [mk_range (range_begin a) (min (range_end a) (range_begin b - 1))] else []) @
     (if range_end b < range_end a
      then [mk_range (max (range_begin a) (range_end b + 1)) (range_end a)] else [])"

definition list_icl :: "Ranges icl" where
  "list_icl =
     \<lparr>icl_empty = [],
      icl_add = (\<lambda>l u s. merged (mk_range l (u - 1) # s)),
      icl_minus = (\<lambda>s t. merged (fold (\<lambda>b as. concat (map (range_minus b) as)) t s)),
      icl_iterate = map (\<lambda>r. (range_begin r, range_end r + 1))\<rparr>"

subsection \<open>The in-place pass computes \<open>merge\<close>\<close>

lemma Range_eqI: "range_begin a = range_begin b \<Longrightarrow> range_end a = range_end b \<Longrightarrow> a = (b :: Range)"
  by simp

lemma coalesce_step_merge:
  assumes st: "coalesce_step i (ranges, count, current) = (ranges', count', current')"
    and i: "i < length ranges" and c: "1 \<le> count" "count \<le> Suc i" "count = Suc i \<Longrightarrow> i = 0 \<and> ranges ! 0 = current"
  shows "take (count' - 1) ranges' @ merge current' (drop (Suc i) ranges) =
      take (count - 1) ranges @ merge current (drop i ranges)"
    and "length ranges' = length ranges" and "drop (Suc i) ranges' = drop (Suc i) ranges"
    and "1 \<le> count'" and "count' \<le> Suc i"
proof -
  have d: "drop i ranges = ranges ! i # drop (Suc i) ranges" using i by (simp add: Cons_nth_drop_Suc)
  have t: "take count (ranges[count - 1 := current]) = take (count - 1) ranges @ [current]"
    using c i by (cases count) (simp_all add: take_Suc_conv_app_nth)
  from st c t i show "take (count' - 1) ranges' @ merge current' (drop (Suc i) ranges) =
      take (count - 1) ranges @ merge current (drop i ranges)"
    unfolding d by (auto simp: coalesce_step_def Let_def split: if_splits)
  from st c i show "length ranges' = length ranges" "drop (Suc i) ranges' = drop (Suc i) ranges" "1 \<le> count'"
    by (auto simp: coalesce_step_def Let_def split: if_splits)
  from st c(2,3) show "count' \<le> Suc i"
    by (cases "count = Suc i") (auto simp: coalesce_step_def Let_def split: if_splits)
qed

definition loop_inv :: "Range list \<Rightarrow> nat \<Rightarrow> Range list \<times> nat \<times> Range \<Rightarrow> bool" where
  "loop_inv xs i st \<longleftrightarrow>
     (case st of (ranges, count, current) \<Rightarrow>
        length ranges = length xs \<and> drop i ranges = drop i xs \<and> 1 \<le> count \<and> count \<le> max 1 i \<and>
        take (count - 1) ranges @ merge current (drop i xs) = merge (hd xs) xs \<and>
        (i = 0 \<longrightarrow> current = hd xs))"

lemma coalesce_step_inv:
  assumes "loop_inv xs i st" and "i < length xs"
  shows "loop_inv xs (Suc i) (coalesce_step i st)"
proof -
  obtain ranges count current where st: "st = (ranges, count, current)" by (cases st)
  obtain ranges' count' current' where st': "coalesce_step i st = (ranges', count', current')"
    by (cases "coalesce_step i st")
  have d: "drop i ranges = drop i xs" using assms by (simp add: loop_inv_def st)
  then have "drop (Suc i) ranges = drop (Suc i) xs" by (metis drop_Suc tl_drop)
  note d = d this
  have "xs \<noteq> []" using assms(2) by auto
  then have "count = Suc i \<Longrightarrow> i = 0 \<and> ranges ! 0 = current"
    using assms d(1) by (cases i) (auto simp: loop_inv_def st hd_conv_nth)
  moreover have "count \<le> Suc i" using assms by (auto simp: loop_inv_def st max_def split: if_splits)
  moreover note coalesce_step_merge [OF st' [unfolded st]]
  ultimately show ?thesis using assms d unfolding st' by (simp add: loop_inv_def st)
qed

lemma merge_self: "merge r (r # rs) = merge r rs"
  by simp

lemma coalesce_loop_inv: "xs \<noteq> [] \<Longrightarrow> loop_inv xs (length xs) (coalesce_loop xs)"
proof -
  assume "xs \<noteq> []"
  then have "loop_inv xs 0 (xs, 1, hd xs)" by (simp add: loop_inv_def)
  moreover have "loop_inv xs k (fold coalesce_step [0..<k] s)" if "k \<le> length xs" "loop_inv xs 0 s" for k s
    using that by (induction k) (auto intro: coalesce_step_inv)
  ultimately show ?thesis by (simp add: coalesce_loop_def)
qed

lemma copy_loop:
  assumes "length result \<le> n" and "n \<le> length ranges" and "k \<le> n"
  shows "\<exists>r. foldOutcome (copy_range ranges) [0..<k] result = Inr r \<and>
      length r = max k (length result) \<and> take k r = take k ranges"
  using \<open>k \<le> n\<close>
proof (induction k)
  case (Suc k)
  then obtain r where r: "foldOutcome (copy_range ranges) [0..<k] result = Inr r"
      "length r = max k (length result)" "take k r = take k ranges" by auto
  define r' where "r' = (if k \<ge> length r then r @ [mk_range 0 0] else r)"
  have "length r' = max (Suc k) (length result)" "take k r' = take k ranges" "k < length r'"
    using r Suc by (auto simp: r'_def)
  moreover have "copy_range ranges k r = Inr (r'[k := ranges ! k])"
    using \<open>k < length r'\<close> by (simp add: copy_range_def r'_def Let_def)
  ultimately show ?case
    using r Suc assms(2) by (simp add: foldOutcome_append take_Suc_conv_app_nth)
qed simp

lemma merge_not_Nil [simp]: "merge r rs \<noteq> []"
  by (induction r rs rule: merge.induct) auto

theorem coalesce_internal_merged: "coalesce_internal result ranges = Inr (merged ranges)"
proof (cases "ranges = []")
  case True
  then show ?thesis by (simp add: coalesce_internal_def merged_def)
next
  case False
  define xs where "xs = sort_key (\<lambda>r. (range_begin r, range_end r)) ranges"
  have "length xs = length ranges" by (simp add: xs_def)
  then have xs: "xs \<noteq> []" using False by auto
  obtain rs count current where st: "coalesce_loop xs = (rs, count, current)"
    by (cases "coalesce_loop xs")
  from coalesce_loop_inv [OF xs] have inv: "length rs = length xs" "1 \<le> count" "count \<le> length xs"
      "take (count - 1) rs @ [current] = merge (hd xs) xs"
    using xs by (auto simp: loop_inv_def st max_def Suc_le_eq split: if_splits)
  define rs' where "rs' = rs[count - 1 := current]"
  have "take count rs' = merge (hd xs) xs"
    using inv by (cases count) (auto simp: rs'_def take_Suc_conv_app_nth)
  also have "\<dots> = merged ranges"
    unfolding merged_def xs_def [symmetric] using xs by (cases xs) simp_all
  finally have t: "take count rs' = merged ranges" .
  define res where "res = (if count < length result then take count result else result)"
  have "length res \<le> count" "count \<le> length rs'" using inv by (auto simp: res_def rs'_def)
  from copy_loop [OF this order_refl] obtain r where r: "foldOutcome (copy_range rs') [0..<count] res = Inr r"
      "length r = max count (length res)" "take count r = take count rs'" by blast
  then have "length r = count" using \<open>length res \<le> count\<close> by simp
  moreover have "coalesce_internal result ranges =
      require (count \<le> length rs') (andThen (foldOutcome (copy_range rs') [0..<count] res)
        (\<lambda>r. require (length r = count) (Inr r)))"
    using False unfolding coalesce_internal_def xs_def [symmetric] st rs'_def res_def by simp
  ultimately show ?thesis using r \<open>count \<le> length rs'\<close> t by simp
qed

lemma coalesce_merged: "coalesce result added = Inr (merged (result @ concat added))"
  by (simp add: coalesce_def coalesce_internal_merged)

subsection \<open>Meaning of the merged list\<close>

lemma unat_succ: "x \<noteq> - 1 \<Longrightarrow> unat (x + 1 :: uint64) = Suc (unat x)"
  by (metis add.commute add_eq_0_iff unatSuc)

lemmas word_nat = word_le_nat_alt word_less_nat_alt

lemma range_set_extend:
  assumes "range_begin c \<le> range_begin r"
    and "\<not> (range_begin c < range_begin r \<and> \<not> range_begin r \<le> range_end c + 1)"
  shows "range_set (c\<lparr>range_end := max (range_end c) (range_end r)\<rparr>) = range_set c \<union> range_set r"
proof (cases "range_begin c = range_begin r")
  case True
  then show ?thesis by (auto simp: range_set_def max_def)
next
  case False
  with assms have lt: "range_begin c < range_begin r" and le: "range_begin r \<le> range_end c + 1" by auto
  then have "range_end c \<noteq> - 1" by auto
  with lt le show ?thesis
    by (auto simp: range_set_def max_def word_nat unat_succ)
qed

lemma ranges_set_simps [simp]:
  "ranges_set [] = {}"
  "ranges_set (r # rs) = range_set r \<union> ranges_set rs"
  "ranges_set (rs @ qs) = ranges_set rs \<union> ranges_set qs"
  by (auto simp: ranges_set_def)

lemma ranges_set_merge:
  assumes "sorted (map range_begin (c # rs))"
  shows "ranges_set (merge c rs) = range_set c \<union> ranges_set rs"
  using assms
proof (induction c rs rule: merge.induct)
  case (2 c r rs)
  have le: "range_begin c \<le> range_begin r" using 2(3) by simp
  show ?case
  proof (cases "range_begin c < range_begin r \<and> \<not> range_begin r \<le> range_end c + 1")
    case True
    with 2(1) [OF True] 2(3) show ?thesis by simp
  next
    case False
    with le 2(2) [OF False] 2(3) range_set_extend [OF le False] show ?thesis by auto
  qed
qed simp

lemma sorted_begin:
  "sorted (map range_begin (sort_key (\<lambda>r. (range_begin r, range_end r)) rs))"
proof -
  have "sorted (map (\<lambda>r. (range_begin r, range_end r)) (sort_key (\<lambda>r. (range_begin r, range_end r)) rs))"
    by simp
  then show ?thesis
    unfolding sorted_map by (rule sorted_wrt_mono_rel [rotated]) (auto simp: less_eq_prod_simp)
qed

lemma ranges_set_sort: "ranges_set (sort_key f rs) = ranges_set rs"
  by (simp add: ranges_set_def)

lemma ranges_set_merged: "ranges_set (merged rs) = ranges_set rs"
proof (cases "sort_key (\<lambda>r. (range_begin r, range_end r)) rs")
  case Nil
  then show ?thesis using ranges_set_sort [of "\<lambda>r. (range_begin r, range_end r)" rs] by (simp add: merged_def)
next
  case (Cons q qs)
  then show ?thesis
    using ranges_set_sort [of "\<lambda>r. (range_begin r, range_end r)" rs] sorted_begin [of rs]
    by (simp add: merged_def ranges_set_merge)
qed

lemma canonical_Cons:
  "canonical (r # rs) \<longleftrightarrow>
     valid_range r \<and> canonical rs \<and> (rs = [] \<or> range_end r + 1 < range_begin (hd rs))"
  by (cases rs) (auto simp: canonical_def)

lemma canonical_merge:
  assumes "list_all valid_range (c # rs)" and "sorted (map range_begin (c # rs))"
  shows "canonical (merge c rs) \<and> range_begin (hd (merge c rs)) = range_begin c"
  using assms
proof (induction c rs rule: merge.induct)
  case (1 c)
  then show ?case by (simp add: canonical_def)
next
  case (2 c r rs)
  have le: "range_begin c \<le> range_begin r" using 2(4) by simp
  show ?case
  proof (cases "range_begin c < range_begin r \<and> \<not> range_begin r \<le> range_end c + 1")
    case True
    with 2(1) [OF True] 2(3,4) show ?thesis by (simp add: canonical_Cons not_le)
  next
    case False
    have "valid_range (c\<lparr>range_end := max (range_end c) (range_end r)\<rparr>)"
      using 2(3) by (auto simp: valid_range_def max_def)
    with 2(2) [OF False] 2(3,4) le show ?thesis
      unfolding merge.simps if_not_P [OF False] if_P [OF le] by simp
  qed
qed

lemma canonical_merged:
  assumes "list_all valid_range rs"
  shows "canonical (merged rs)"
proof (cases "sort_key (\<lambda>r. (range_begin r, range_end r)) rs")
  case Nil
  then show ?thesis by (simp add: merged_def canonical_def)
next
  case (Cons q qs)
  have "set (q # qs) = set rs" unfolding Cons [symmetric] by simp
  then have "list_all valid_range (q # qs)" using assms by (simp only: list_all_iff)
  with Cons canonical_merge [of q qs] sorted_begin [of rs] show ?thesis by (simp add: merged_def)
qed

lemma valid_succ: "valid_range r \<Longrightarrow> range_end r < range_end r + 1"
  by (simp add: valid_range_def word_nat unat_succ)

lemma valid_le: "valid_range r \<Longrightarrow> range_begin r \<le> range_end r"
  by (simp add: valid_range_def)

lemma canonical_above:
  assumes "canonical (a # rs)" and "x \<in> ranges_set rs"
  shows "range_end a + 1 < x"
  using assms
proof (induction rs arbitrary: a)
  case (Cons b rs)
  then have b: "valid_range b" "range_end a + 1 < range_begin b" "canonical (b # rs)"
    by (simp_all add: canonical_Cons)
  have "range_begin b \<le> x"
  proof (cases "x \<in> range_set b")
    case False
    with Cons.prems Cons.IH [OF b(3)] have "range_end b + 1 < x" by simp
    moreover have "range_begin b \<le> range_end b" using b(1) by (simp add: valid_range_def)
    ultimately show ?thesis using valid_succ [OF b(1)] by simp
  qed (simp add: range_set_def)
  with b(2) show ?case by simp
qed simp

lemma canonical_gap:
  assumes "canonical rs" and "r \<in> set rs"
  shows "range_end r + 1 \<notin> ranges_set rs"
  using assms
proof (induction rs)
  case (Cons a rs)
  then have a: "valid_range a" "canonical rs" by (simp_all add: canonical_Cons)
  show ?case
  proof (cases "r = a")
    case True
    then show ?thesis
      using canonical_above [OF Cons.prems(1)] valid_succ [OF a(1)] by (auto simp: range_set_def)
  next
    case False
    with Cons.prems(2) have r: "r \<in> set rs" by simp
    then have v: "valid_range r" using a(2) by (auto simp: canonical_def list_all_iff)
    then have "range_end r \<in> ranges_set rs"
      using r by (auto simp: ranges_set_def range_set_def valid_range_def)
    then have "range_end a + 1 < range_end r" by (rule canonical_above [OF Cons.prems(1)])
    then have "range_end a < range_end r + 1"
      using valid_succ [OF a(1)] valid_succ [OF v] by simp
    then show ?thesis using Cons.IH [OF a(2) r] by (auto simp: range_set_def)
  qed
qed simp

lemma canonical_hd_le:
  assumes "canonical (a # rs)" and "x \<in> ranges_set (a # rs)"
  shows "range_begin a \<le> x"
proof (cases "x \<in> range_set a")
  case False
  with assms have "range_end a + 1 < x" by (auto intro: canonical_above)
  moreover have v: "valid_range a" using assms(1) by (simp add: canonical_Cons)
  ultimately show ?thesis using valid_succ [OF v] valid_le [OF v] by order
qed (simp add: range_set_def)

lemma canonical_end_le:
  assumes "canonical (a # rs)" and "canonical (b # qs)" and "range_begin a = range_begin b"
    and "ranges_set (b # qs) \<subseteq> ranges_set (a # rs)"
  shows "range_end b \<le> range_end a"
proof (rule ccontr)
  assume "\<not> range_end b \<le> range_end a"
  then have lt: "range_end a < range_end b" by simp
  have v: "valid_range a" using assms(1) by (simp add: canonical_Cons)
  have "range_end a + 1 \<le> range_end b" using lt v by (simp add: word_nat unat_succ valid_range_def)
  moreover have "range_begin b \<le> range_end a + 1"
    using valid_le [OF v] valid_succ [OF v] assms(3) by order
  ultimately have "range_end a + 1 \<in> ranges_set (a # rs)" using assms(4) by (auto simp: range_set_def)
  with canonical_gap [OF assms(1), of a] show False by simp
qed

lemma canonical_tl_set:
  assumes "canonical (a # rs)"
  shows "ranges_set rs = {x \<in> ranges_set (a # rs). range_end a < x}"
proof -
  have "valid_range a" using assms by (simp add: canonical_Cons)
  then have "range_end a < x" if "x \<in> ranges_set rs" for x
    using valid_succ canonical_above [OF assms that] by (meson order.strict_trans)
  then show ?thesis by (auto simp: range_set_def)
qed

lemma valid_begin_in: "canonical (a # rs) \<Longrightarrow> range_begin a \<in> ranges_set (a # rs)"
  by (simp add: canonical_Cons valid_range_def range_set_def)

lemma canonical_unique:
  assumes "canonical rs" and "canonical qs" and "ranges_set rs = ranges_set qs"
  shows "rs = qs"
  using assms
proof (induction rs arbitrary: qs)
  case Nil
  then show ?case using valid_begin_in by (cases qs) fastforce+
next
  case (Cons a rs)
  then obtain b qs' where qs: "qs = b # qs'" using valid_begin_in [of a rs] by (cases qs) auto
  note can = Cons.prems(1) Cons.prems(2) [unfolded qs]
  note eq = Cons.prems(3) [unfolded qs]
  have b: "range_begin a = range_begin b"
    using canonical_hd_le [OF can(1), of "range_begin b"] canonical_hd_le [OF can(2), of "range_begin a"]
      valid_begin_in [OF can(1)] valid_begin_in [OF can(2)] eq by (metis order_antisym)
  then have e: "range_end a = range_end b"
    using canonical_end_le [OF can] canonical_end_le [OF can(2,1)] eq by (metis order_antisym order_refl)
  with b have "a = b" by simp
  moreover have "ranges_set rs = ranges_set qs'"
    unfolding canonical_tl_set [OF can(1)] canonical_tl_set [OF can(2)] eq e ..
  then have "rs = qs'" using can by (intro Cons.IH) (simp_all add: canonical_Cons)
  ultimately show ?case by (simp add: qs)
qed

lemma canonical_distinct: "canonical rs \<Longrightarrow> distinct rs"
proof (induction rs)
  case (Cons a rs)
  then have "valid_range a" "canonical rs" by (simp_all add: canonical_Cons)
  moreover have "a \<notin> set rs"
  proof
    assume "a \<in> set rs"
    then have "range_begin a \<in> ranges_set rs"
      using \<open>valid_range a\<close> by (auto simp: ranges_set_def range_set_def valid_range_def)
    from canonical_above [OF Cons.prems this] valid_succ [OF \<open>valid_range a\<close>] valid_le [OF \<open>valid_range a\<close>]
    show False by order
  qed
  ultimately show ?case using Cons.IH by simp
qed simp

lemma list_ex_range:
  fixes l :: Range
  shows "list_ex (\<lambda>r. range_begin l = range_begin r \<and> range_end l = range_end r) rs \<longleftrightarrow> l \<in> set rs"
proof -
  have "range_begin l = range_begin r \<and> range_end l = range_end r \<longleftrightarrow> l = r" for r :: Range
    by (metis Range_eqI)
  then show ?thesis by (simp add: list_ex_iff)
qed

lemma ranges_eq_canonical:
  assumes "canonical ls" and "canonical rs"
  shows "length ls = length rs \<and> set ls \<subseteq> set rs \<longleftrightarrow> ranges_set ls = ranges_set rs"
proof
  assume "length ls = length rs \<and> set ls \<subseteq> set rs"
  then have "set ls = set rs"
    using canonical_distinct [OF assms(1)] canonical_distinct [OF assms(2)]
    by (metis card_subset_eq distinct_card finite_set)
  then show "ranges_set ls = ranges_set rs" by (simp add: ranges_set_def)
qed (use canonical_unique [OF assms] in simp)

lemma ranges_le_canonical:
  assumes "canonical ls" and "canonical rs"
  shows "list_all (\<lambda>l. list_ex (\<lambda>r. range_begin l \<ge> range_begin r \<and> range_end l \<le> range_end r) rs) ls
      \<longleftrightarrow> ranges_set ls \<subseteq> ranges_set rs" (is "?A \<longleftrightarrow> ?B")
proof
  assume ?A
  show ?B
  proof
    fix x
    assume "x \<in> ranges_set ls"
    then obtain l where "l \<in> set ls" and x: "range_begin l \<le> x" "x \<le> range_end l"
      by (auto simp: ranges_set_def range_set_def)
    with \<open>?A\<close> obtain r where "r \<in> set rs" "range_begin r \<le> range_begin l" "range_end l \<le> range_end r"
      by (auto simp: list_all_iff list_ex_iff)
    with x have "x \<in> range_set r" unfolding range_set_def by (auto intro: order_trans)
    with \<open>r \<in> set rs\<close> show "x \<in> ranges_set rs" by (auto simp: ranges_set_def)
  qed
next
  assume B: ?B
  have "\<exists>r \<in> set rs. range_begin l \<ge> range_begin r \<and> range_end l \<le> range_end r" if l: "l \<in> set ls" for l
  proof -
    have "valid_range l" using l assms(1) by (simp add: canonical_def list_all_iff)
    then have "range_begin l \<in> ranges_set ls"
      using l by (auto simp: ranges_set_def range_set_def valid_range_def)
    with B have "range_begin l \<in> ranges_set rs" by blast
    then obtain r where r: "r \<in> set rs" "range_begin r \<le> range_begin l" "range_begin l \<le> range_end r"
      by (auto simp: ranges_set_def range_set_def)
    have v: "valid_range r" using r(1) assms(2) by (simp add: canonical_def list_all_iff)
    have "\<not> range_end r < range_end l"
    proof
      assume "range_end r < range_end l"
      then have "range_end r + 1 \<le> range_end l" using v by (simp add: valid_range_def word_nat unat_succ)
      moreover have "range_begin l \<le> range_end r + 1" using r(3) valid_succ [OF v] by order
      ultimately have "range_end r + 1 \<in> ranges_set rs"
        using B l unfolding ranges_set_def range_set_def by (meson UN_I atLeastAtMost_iff subsetD)
      then show False using canonical_gap [OF assms(2) r(1)] by simp
    qed
    with r show ?thesis by auto
  qed
  then show ?A by (simp add: list_all_iff list_ex_iff)
qed

lemma pred_succ: "x \<noteq> 0 \<Longrightarrow> unat (x :: uint64) = Suc (unat (x - 1))"
  using unat_succ [of "x - 1"] by (auto simp: eq_diff_eq)

lemma mk_range_simps [simp]: "range_begin (mk_range b e) = b" "range_end (mk_range b e) = e"
  by (simp_all add: mk_range_def)

lemma valid_range_open:
  assumes "l < u"
  shows "valid_range (mk_range l (u - 1))" and "range_set (mk_range l (u - 1)) = {l..<u}"
proof -
  have "u \<noteq> 0" using assms by auto
  with pred_succ [OF this] assms show "valid_range (mk_range l (u - 1))" "range_set (mk_range l (u - 1)) = {l..<u}"
    by (auto simp: valid_range_def range_set_def word_nat dest: arg_cong [where f = "\<lambda>x. x + 1"])
qed

subsection \<open>Subtraction through an interval set\<close>

locale interval_set =
  fixes icl :: "'i icl" and elements :: "'i \<Rightarrow> uint64 set" and icl_inv :: "'i \<Rightarrow> bool"
  assumes empty: "icl_inv (icl_empty icl)" "elements (icl_empty icl) = {}"
    and add: "\<And>s. icl_inv s \<Longrightarrow> l < u \<Longrightarrow> icl_inv (icl_add icl l u s)"
      "\<And>s. icl_inv s \<Longrightarrow> l < u \<Longrightarrow> elements (icl_add icl l u s) = elements s \<union> {l..<u}"
    and minus: "\<And>s t. icl_inv s \<Longrightarrow> icl_inv t \<Longrightarrow> icl_inv (icl_minus icl s t)"
      "\<And>s t. icl_inv s \<Longrightarrow> icl_inv t \<Longrightarrow> elements (icl_minus icl s t) = elements s - elements t"
    and iterate: "\<And>s. icl_inv s \<Longrightarrow> list_all (\<lambda>(l, u). l < u) (icl_iterate icl s)"
      "\<And>s. icl_inv s \<Longrightarrow> sorted_wrt (\<lambda>a b. snd a < fst b) (icl_iterate icl s)"
      "\<And>s. icl_inv s \<Longrightarrow> elements s = (\<Union>(l, u) \<in> set (icl_iterate icl s). {l..<u})"
begin

lemma rangesToIntervalSet_elements:
  assumes "list_all valid_range rs"
  shows "icl_inv (rangesToIntervalSet icl rs) \<and> elements (rangesToIntervalSet icl rs) = ranges_set rs"
proof -
  have "icl_inv (fold (\<lambda>r. icl_add icl (range_begin r) (range_end r + 1)) rs s) \<and>
      elements (fold (\<lambda>r. icl_add icl (range_begin r) (range_end r + 1)) rs s) = elements s \<union> ranges_set rs"
    if "icl_inv s" for s
    using assms that
  proof (induction rs arbitrary: s)
    case (Cons r rs)
    then have v: "valid_range r" by simp
    have lt: "range_begin r < range_end r + 1" using valid_le [OF v] valid_succ [OF v] by order
    have "{range_begin r..<range_end r + 1} = range_set r"
      using v by (auto simp: range_set_def valid_range_def word_nat unat_succ)
    with Cons lt add [OF Cons.prems(2) lt] show ?case by auto
  qed simp
  from this [OF empty(1)] show ?thesis by (simp add: rangesToIntervalSet_def empty)
qed

lemma intervalSetToRanges_canonical:
  assumes "icl_inv s"
  shows "canonical (intervalSetToRanges icl s)" and "ranges_set (intervalSetToRanges icl s) = elements s"
proof -
  have step: "u - 1 + 1 = (u :: uint64)" for u by simp
  have "canonical (map (\<lambda>(l, u). mk_range l (u - 1)) xs)"
    if "list_all (\<lambda>(l, u). l < u) xs" "sorted_wrt (\<lambda>a b. snd a < fst b) xs" for xs
    using that
  proof (induction xs)
    case (Cons x xs)
    then show ?case
      by (cases xs; cases x) (auto simp: canonical_Cons valid_range_open step)
  qed (simp add: canonical_def)
  with iterate(1,2) [OF assms] show "canonical (intervalSetToRanges icl s)"
    by (simp add: intervalSetToRanges_def)
  have "(\<Union>(l, u) \<in> set (icl_iterate icl s). {l..<u}) =
      (\<Union>(l, u) \<in> set (icl_iterate icl s). range_set (mk_range l (u - 1)))"
    using iterate(1) [OF assms] by (intro SUP_cong) (auto simp: list_all_iff valid_range_open)
  then show "ranges_set (intervalSetToRanges icl s) = elements s"
    unfolding iterate(3) [OF assms] intervalSetToRanges_def ranges_set_def by (simp add: case_prod_unfold)
qed

lemma ranges_sub_from_spec:
  assumes "list_all valid_range ls" and "list_all valid_range rs"
  shows "canonical (ranges_sub_from icl ls rs) \<and>
    ranges_set (ranges_sub_from icl ls rs) = ranges_set ls - ranges_set rs"
  using rangesToIntervalSet_elements [OF assms(1)] rangesToIntervalSet_elements [OF assms(2)]
  by (simp add: ranges_sub_from_def intervalSetToRanges_canonical minus)

end

lemma range_minus_spec:
  assumes "valid_range a" and "valid_range b"
  shows "list_all valid_range (range_minus b a) \<and> ranges_set (range_minus b a) = range_set a - range_set b"
proof -
  have e: "unat (range_end b + 1) = Suc (unat (range_end b))"
    using assms(2) by (simp add: valid_range_def unat_succ)
  have p: "range_begin a < range_begin b \<Longrightarrow> unat (range_begin b) = Suc (unat (range_begin b - 1))"
    by (rule pred_succ) auto
  have m: "u - 1 = - 1 \<longleftrightarrow> u = (0 :: uint64)" for u by (auto simp: diff_eq_eq)
  show ?thesis
    using assms e p
    by (auto simp: range_minus_def valid_range_def range_set_def word_nat min_def max_def m split: if_splits)
qed

lemma ranges_minus_spec:
  assumes "list_all valid_range as" and "list_all valid_range bs"
  shows "list_all valid_range (fold (\<lambda>b as. concat (map (range_minus b) as)) bs as) \<and>
    ranges_set (fold (\<lambda>b as. concat (map (range_minus b) as)) bs as) = ranges_set as - ranges_set bs"
  using assms
proof (induction bs arbitrary: as)
  case (Cons b bs)
  let ?as = "concat (map (range_minus b) as)"
  have "list_all valid_range ?as \<and> ranges_set ?as = ranges_set as - range_set b"
    using Cons.prems
  proof (induction as)
    case (Cons a as)
    then show ?case using range_minus_spec [of a b] by (auto simp: list_all_append)
  qed simp
  with Cons show ?case by auto
qed simp

interpretation lis: interval_set list_icl ranges_set canonical
proof
  show "canonical (icl_empty list_icl)" "ranges_set (icl_empty list_icl) = {}"
    by (simp_all add: list_icl_def canonical_def)
next
  fix s and l u :: uint64
  assume "canonical s" and lu: "l < u"
  then have "list_all valid_range (mk_range l (u - 1) # s)"
    by (simp add: valid_range_open canonical_def)
  then show "canonical (icl_add list_icl l u s)" "ranges_set (icl_add list_icl l u s) = ranges_set s \<union> {l..<u}"
    using valid_range_open [OF lu] by (auto simp: list_icl_def canonical_merged ranges_set_merged)
next
  fix s t
  assume "canonical s" and "canonical t"
  then have "list_all valid_range s" "list_all valid_range t" by (simp_all add: canonical_def)
  from ranges_minus_spec [OF this]
  show "canonical (icl_minus list_icl s t)" "ranges_set (icl_minus list_icl s t) = ranges_set s - ranges_set t"
    by (simp_all add: list_icl_def canonical_merged ranges_set_merged)
next
  fix s
  assume s: "canonical s"
  have lt: "range_begin r < range_end r + 1 \<and> {range_begin r..<range_end r + 1} = range_set r" if "r \<in> set s" for r
  proof -
    have v: "valid_range r" using s that by (simp add: canonical_def list_all_iff)
    then have "range_begin r < range_end r + 1" using valid_le [OF v] valid_succ [OF v] by order
    with valid_range_open(2) [OF this] show ?thesis by (simp add: mk_range_def range_set_def)
  qed
  then show "list_all (\<lambda>(l, u). l < u) (icl_iterate list_icl s)"
    by (simp add: list_icl_def list_all_iff)
  show "ranges_set s = (\<Union>(l, u) \<in> set (icl_iterate list_icl s). {l..<u})"
    using lt by (simp add: list_icl_def ranges_set_def)
  show "sorted_wrt (\<lambda>a b. snd a < fst b) (icl_iterate list_icl s)"
    using s
  proof (induction s)
    case (Cons r s)
    have "range_begin q \<in> ranges_set s" if "q \<in> set s" for q
      using that Cons.prems by (auto simp: canonical_def list_all_iff ranges_set_def range_set_def valid_range_def)
    with Cons canonical_above [OF Cons.prems] show ?case by (auto simp: list_icl_def canonical_Cons)
  qed (simp add: list_icl_def)
qed

lemma ranges_eq_sets:
  assumes "list_all valid_range left" and "list_all valid_range right"
  shows "ranges_eq left right = Inr (ranges_set left = ranges_set right)"
  using ranges_eq_canonical [OF canonical_merged [OF assms(1)] canonical_merged [OF assms(2)]]
  by (simp add: ranges_eq_def coalesce_merged list_ex_range ranges_set_merged list_all_iff subset_eq)

lemma ranges_le_sets:
  assumes "list_all valid_range left" and "list_all valid_range right"
  shows "ranges_le left right = Inr (ranges_set left \<subseteq> ranges_set right)"
  unfolding ranges_le_def coalesce_merged
  using ranges_le_canonical [OF canonical_merged [OF assms(1)] canonical_merged [OF assms(2)]]
  by (simp add: ranges_set_merged)

lemma ranges_add_to_merged: "ranges_add_to left right = Inr (merged (left @ right))"
  by (simp add: ranges_add_to_def coalesce_merged)

lemma valid_merged: "list_all valid_range rs \<Longrightarrow> list_all valid_range (merged rs)"
  using canonical_merged [of rs] by (simp add: canonical_def)

lemma ranges_set_empty: "list_all valid_range rs \<Longrightarrow> ranges_set rs = {} \<longleftrightarrow> rs = []"
  by (cases rs) (auto simp: range_set_def valid_range_def)

subsection \<open>Properties\<close>

text \<open>
  C19. \<open>coalesce\<close> never fails one of its checks, keeps exactly the numbers covered by its inputs, and
  on valid ranges below \<open>2 ^ 64 - 1\<close> leaves them sorted, disjoint and with a gap between
  neighbours, which is the shortest list of ranges for that set.
\<close>

theorem coalesce_correct:
  "\<exists>rs. coalesce result added = Inr rs \<and> ranges_set rs = ranges_set (result @ concat added) \<and>
     (list_all valid_range (result @ concat added) \<longrightarrow> canonical rs)"
  by (auto simp: coalesce_merged ranges_set_merged simp del: list_all_append intro!: canonical_merged)

theorem coalesce_correct_witness:
  "coalesce [mk_range 8 9] [[mk_range 1 3], [mk_range 4 5, mk_range 2 2]] = Inr [mk_range 1 5, mk_range 8 9] \<and>
   canonical [mk_range 1 5, mk_range 8 9]"
proof -
  have *: "coalesce [mk_range 8 9] [[mk_range 1 3], [mk_range 4 5, mk_range 2 2]] = Inr [mk_range 1 5, mk_range 8 9]"
    by code_simp
  have "list_all valid_range ([mk_range 8 9] @ concat [[mk_range 1 3], [mk_range 4 5, mk_range 2 2]])"
    by code_simp
  then show ?thesis
    using coalesce_correct [of "[mk_range 8 9]" "[[mk_range 1 3], [mk_range 4 5, mk_range 2 2]]"] * by simp
qed

text \<open>
  C21. On valid ranges the comparison operators decide equality and inclusion of the sets of numbers,
  whatever the order and the overlaps in which the two sides list them.
\<close>

theorem ranges_compare:
  assumes "list_all valid_range left" and "list_all valid_range right"
  shows "ranges_eq left right = Inr (ranges_set left = ranges_set right) \<and>
    ranges_le left right = Inr (ranges_set left \<subseteq> ranges_set right)"
  using ranges_eq_sets [OF assms] ranges_le_sets [OF assms] by simp

theorem ranges_compare_witness:
  "ranges_eq [mk_range 3 4, mk_range 1 2] [mk_range 1 4] = Inr True \<and>
   ranges_set [mk_range 3 4, mk_range 1 2] = ranges_set [mk_range 1 4]"
proof -
  have e: "ranges_eq [mk_range 3 4, mk_range 1 2] [mk_range 1 4] = Inr True" by code_simp
  have "list_all valid_range [mk_range 3 4, mk_range 1 2]" "list_all valid_range [mk_range 1 4]"
    by code_simp+
  from ranges_compare [OF this] e show ?thesis by simp
qed

text \<open>
  C20. On valid ranges \<open>+\<close>, \<open>+=\<close>, \<open>-\<close> and \<open>-=\<close> are union and difference of the sets of numbers, and
  every result is again a sorted list of valid, separated ranges. For the subtraction this holds for
  every interval set with the documented behaviour of the one of boost.
\<close>

theorem ranges_arith:
  assumes "interval_set icl elements icl_inv"
    and "list_all valid_range left" and "list_all valid_range right"
  shows "returns (ranges_add left right)
      (\<lambda>r. canonical r \<and> ranges_set r = ranges_set left \<union> ranges_set right) \<and>
    ranges_add_to left right = ranges_add left right \<and>
    returns (ranges_sub icl left right)
      (\<lambda>r. canonical r \<and> ranges_set r = ranges_set left - ranges_set right) \<and>
    ranges_sub icl left right = Inr (ranges_sub_from icl left right)"
proof -
  have "canonical (merged left)" using assms(2) by (rule canonical_merged)
  then have m: "list_all valid_range (merged left)" by (simp add: canonical_def)
  note sub = interval_set.ranges_sub_from_spec [OF assms(1)]
  have "ranges_sub_from icl (merged left) right = ranges_sub_from icl left right"
    using sub [OF assms(2,3)] sub [OF m assms(3)] by (intro canonical_unique) (simp_all add: ranges_set_merged)
  then show ?thesis
    using assms sub [OF assms(2,3)]
    by (simp add: ranges_add_def ranges_add_to_def ranges_sub_def coalesce_merged canonical_merged ranges_set_merged)
qed

theorem ranges_arith_witness:
  "ranges_sub list_icl [mk_range 1 9] [mk_range 3 4] = Inr [mk_range 1 2, mk_range 5 9] \<and>
   canonical [mk_range 1 2, mk_range 5 9]"
proof -
  have e: "ranges_sub list_icl [mk_range 1 9] [mk_range 3 4] = Inr [mk_range 1 2, mk_range 5 9]"
    by code_simp
  have "list_all valid_range [mk_range 1 9]" "list_all valid_range [mk_range 3 4]" by code_simp+
  from ranges_arith [OF lis.interval_set_axioms this] show ?thesis unfolding e returns_simps by blast
qed

text \<open>
  The wrap-around of \<open>current.end + 1\<close>: a range that ends at \<open>2 ^ 64 - 1\<close> is never merged with a
  range that starts later, so the result keeps overlapping ranges.
\<close>

theorem coalesce_wraps:
  assumes "b < c"
  shows "coalesce [] [[mk_range b (- 1), mk_range c e]] = Inr [mk_range b (- 1), mk_range c e]"
proof -
  have "c \<noteq> 0" using assms by auto
  then have "merged [mk_range b (- 1), mk_range c e] = [mk_range b (- 1), mk_range c e]"
    using assms by (auto simp: merged_def)
  then show ?thesis by (simp add: coalesce_merged)
qed

theorem coalesce_wraps_witness:
  "coalesce [] [[mk_range 0 (- 1), mk_range 5 6]] = Inr [mk_range 0 (- 1), mk_range 5 6]"
  by (rule coalesce_wraps) simp

end
