(* ===== verification/Sets.thy ===== *)
theory Sets
  imports Strings
begin

text \<open>
  \<open>Value::Set\<close> (\<open>liburb/source/values.cpp\<close>): sets of items kept as repeated fields. The operators
  walk the fields by index; a protocol buffer does not forbid repeated items, which
  \<open>Resources::validate\<close> rejects.
\<close>

type_synonym item_set = "string list"

subsection \<open>Comparison\<close>

definition set_eq :: "item_set \<Rightarrow> item_set \<Rightarrow> bool" where
  "set_eq left right =
     (length left = length right \<and>
      list_all (\<lambda>i. list_ex (\<lambda>j. left ! i = right ! i) [0..<length right]) [0..<length left])"

definition set_le :: "item_set \<Rightarrow> item_set \<Rightarrow> bool" where
  "set_le left right =
     (length left \<le> length right \<and>
      list_all (\<lambda>i. list_ex (\<lambda>j. left ! i = right ! j) [0..<length right]) [0..<length left])"

subsection \<open>Arithmetic\<close>

definition add_item :: "string \<Rightarrow> item_set \<Rightarrow> item_set" where
  "add_item x result = (if list_ex (\<lambda>y. x = y) result then result else result @ [x])"

definition set_add :: "item_set \<Rightarrow> item_set \<Rightarrow> item_set" where
  "set_add left right = fold add_item right left"

definition set_add_to :: "item_set \<Rightarrow> item_set \<Rightarrow> item_set" where
  "set_add_to left right = fold add_item right left"

definition set_sub :: "item_set \<Rightarrow> item_set \<Rightarrow> item_set" where
  "set_sub left right = filter (\<lambda>x. \<not> list_ex (\<lambda>y. x = y) right) left"

definition delete_item :: "string \<Rightarrow> item_set \<Rightarrow> item_set" where
  "delete_item x left =
     (case find_idx (\<lambda>y. x = y) left of
        None \<Rightarrow> left
      | Some j \<Rightarrow> take j left @ drop (j + 1) left)"

definition set_sub_from :: "item_set \<Rightarrow> item_set \<Rightarrow> item_set" where
  "set_sub_from left right = fold delete_item right left"

subsection \<open>Facts\<close>

lemma list_ex_mem [simp]: "list_ex (\<lambda>y. x = y) ys \<longleftrightarrow> x \<in> set ys"
  by (auto simp: list_ex_iff)

lemma set_eq_list: "set_eq left right \<longleftrightarrow> left = right"
proof
  assume *: "set_eq left right"
  then have l: "length left = length right" by (simp add: set_eq_def)
  moreover have "left ! i = right ! i" if "i < length left" for i
    using * that by (auto simp: set_eq_def list_all_iff list_ex_iff)
  ultimately show "left = right" by (simp add: list_eq_iff_nth_eq)
qed (auto simp: set_eq_def list_all_iff list_ex_iff)

lemma set_le_iff: "set_le left right \<longleftrightarrow> length left \<le> length right \<and> set left \<subseteq> set right"
proof -
  have "list_ex (\<lambda>j. x = right ! j) [0..<length right] \<longleftrightarrow> x \<in> set right" for x
    by (auto simp: list_ex_iff in_set_conv_nth)
  then have "list_all (\<lambda>i. list_ex (\<lambda>j. left ! i = right ! j) [0..<length right]) [0..<length left] \<longleftrightarrow>
      (\<forall>i < length left. left ! i \<in> set right)"
    by (auto simp: list_all_iff)
  also have "\<dots> \<longleftrightarrow> set left \<subseteq> set right" by (simp add: subset_eq all_set_conv_all_nth)
  finally show ?thesis by (simp add: set_le_def)
qed

lemma set_le_subset:
  assumes "distinct left"
  shows "set_le left right \<longleftrightarrow> set left \<subseteq> set right"
proof -
  have "length left \<le> length right" if "set left \<subseteq> set right"
    using card_mono [OF finite_set that] distinct_card [OF assms] card_length [of right] by simp
  then show ?thesis by (auto simp: set_le_iff)
qed

lemma set_add_to_distinct:
  "set (set_add_to left right) = set left \<union> set right"
  "distinct left \<Longrightarrow> distinct (set_add_to left right)"
  by (induction right arbitrary: left) (auto simp: set_add_to_def add_item_def)

lemma delete_item_remove1: "delete_item x left = remove1 x left"
proof (induction left)
  case (Cons y left)
  then show ?case by (auto simp: delete_item_def split: option.splits)
qed (simp add: delete_item_def)

lemma set_sub_from_filter:
  "distinct left \<Longrightarrow> set_sub_from left right = filter (\<lambda>x. x \<notin> set right) left"
proof (induction right arbitrary: left)
  case (Cons x right)
  then have "set_sub_from left (x # right) = filter (\<lambda>y. y \<notin> set right) (remove1 x left)"
    by (simp add: set_sub_from_def delete_item_remove1)
  also have "remove1 x left = filter (\<lambda>y. y \<noteq> x) left"
    using Cons.prems by (simp add: distinct_remove1_removeAll removeAll_filter_not_eq eq_commute [of x])
  finally show ?case by (simp add: conj_commute)
qed (simp add: set_sub_from_def)

lemma fold_add_item:
  "distinct right \<Longrightarrow> fold add_item right left = left @ filter (\<lambda>x. x \<notin> set left) right"
proof (induction right arbitrary: left)
  case (Cons x right)
  then have "filter (\<lambda>y. y \<notin> set (left @ [x])) right = filter (\<lambda>y. y \<notin> set left) right"
    by (intro filter_cong) auto
  with Cons show ?case by (simp add: add_item_def)
qed simp

lemma set_add_filter: "distinct right \<Longrightarrow> set_add left right = left @ filter (\<lambda>x. x \<notin> set left) right"
  by (simp add: set_add_def fold_add_item)

lemma set_add_to_filter: "distinct right \<Longrightarrow> set_add_to left right = left @ filter (\<lambda>x. x \<notin> set left) right"
  by (simp add: set_add_to_def fold_add_item)

lemma set_sub_from_distinct:
  assumes "distinct left"
  shows "distinct (set_sub_from left right)" and "set (set_sub_from left right) = set left - set right"
  using assms by (auto simp: set_sub_from_filter)

subsection \<open>Properties\<close>

text \<open>
  C34. On sets without repeated items the operators are those of sets: \<open><=\<close> is inclusion, \<open>+\<close> and \<open>+=\<close>
  are union, \<open>-\<close> and \<open>-=\<close> are difference, and every result is again without repetitions, with the
  items of the left side first and in their order.
\<close>

theorem item_set_arith:
  assumes "distinct left" and "distinct right"
  shows "(set_le left right \<longleftrightarrow> set left \<subseteq> set right) \<and>
    set_add left right = left @ filter (\<lambda>x. x \<notin> set left) right \<and>
    set_add_to left right = set_add left right \<and> distinct (set_add left right) \<and>
    set_sub left right = filter (\<lambda>x. x \<notin> set right) left \<and> set_sub_from left right = set_sub left right"
  using assms
  by (simp add: set_le_subset set_add_filter set_add_to_filter set_sub_def set_sub_from_filter) blast

theorem item_set_arith_witness:
  "set_add [''a'', ''b''] [''b'', ''c''] = [''a'', ''b'', ''c''] \<and> set_sub_from [''a'', ''b''] [''b'', ''c''] = [''a''] \<and>
   \<not> set_le [''a'', ''b''] [''b'', ''c'']"
  using item_set_arith [of "[''a'', ''b'']" "[''b'', ''c'']"] by simp

text \<open>
  Equality of sets compares the items position by position, although the comment in its loop asks
  for an equal item anywhere in the right side: it holds only of equal sequences, and
  two sets with the same items in another order are different.
\<close>

theorem item_set_eq_positional:
  "set_eq left right = (left = right) \<and> \<not> set_eq [''a'', ''b''] [''b'', ''a''] \<and>
   set_le [''a'', ''b''] [''b'', ''a''] \<and> set_le [''b'', ''a''] [''a'', ''b'']"
  by (simp add: set_eq_list set_le_iff)

end
