(* ===== verification/Numbers.thy ===== *)
theory Numbers
  imports Strings
begin

text \<open>
  Decimal numbers of the C++ standard library: \<open>std::stoi\<close>, by which the broker reads a port, and the
  printing of an unsigned number, by which it names its endpoint and ranges print their bounds.
\<close>

subsection \<open>\<open>std::stoi\<close> and printing of numbers\<close>

definition digit :: "char \<Rightarrow> nat option" where
  "digit c = (if of_char c \<in> {48..57 :: nat} then Some (of_char c - 48) else None)"

fun read_nat :: "nat \<Rightarrow> string \<Rightarrow> nat" where
  "read_nat acc [] = acc"
| "read_nat acc (c # s) = (case digit c of Some d \<Rightarrow> read_nat (10 * acc + d) s | None \<Rightarrow> acc)"

definition ISSPACE :: string where
  "ISSPACE = [CHR '' '', CHR 0x09, CHR 0x0A, CHR 0x0B, CHR 0x0C, CHR 0x0D]"

definition stoi :: "string \<Rightarrow> int option" where
  "stoi s =
     (let t = dropWhile (\<lambda>c. c \<in> set ISSPACE) s;
          neg = startsWith_char t (CHR ''-'');
          t = (if neg \<or> startsWith_char t (CHR ''+'') then tl t else t)
      in if t = [] \<or> digit (hd t) = None then None
         else let v = (if neg then - int (read_nat 0 t) else int (read_nat 0 t))
              in if - (2 ^ 31) \<le> v \<and> v < 2 ^ 31 then Some v else None)"

fun show_nat :: "nat \<Rightarrow> string" where
  "show_nat n = (if n < 10 then [char_of (48 + n)] else show_nat (n div 10) @ [char_of (48 + n mod 10)])"

declare show_nat.simps [simp del]

subsection \<open>Reading back a printed number\<close>

lemma digit_char [simp]: "d < 10 \<Longrightarrow> digit (char_of (48 + d)) = Some d"
  by (simp add: digit_def)

lemma read_nat_append_digit:
  "\<forall>c \<in> set s. digit c \<noteq> None \<Longrightarrow> read_nat acc (s @ t) = read_nat (read_nat acc s) t"
proof (induction s arbitrary: acc)
  case (Cons c s)
  then show ?case by (cases "digit c") auto
qed simp

lemma show_nat_digits: "c \<in> set (show_nat n) \<Longrightarrow> digit c \<noteq> None"
proof (induction n arbitrary: c rule: show_nat.induct)
  case (1 n)
  have d: "digit (char_of (48 + n mod 10)) = Some (n mod 10)" by simp
  show ?case
  proof (cases "n < 10")
    case True
    with 1 show ?thesis by (simp add: show_nat.simps [of n])
  next
    case False
    with 1 d show ?thesis by (auto simp: show_nat.simps [of n])
  qed
qed

lemma show_nat_not_Nil [simp]: "show_nat n \<noteq> []"
  by (simp add: show_nat.simps [of n])

lemma read_show_nat: "read_nat 0 (show_nat n) = n"
proof (induction n rule: show_nat.induct)
  case (1 n)
  show ?case
  proof (cases "n < 10")
    case True
    then show ?thesis by (simp add: show_nat.simps [of n])
  next
    case False
    have "read_nat 0 (show_nat n) = read_nat (read_nat 0 (show_nat (n div 10))) [char_of (48 + n mod 10)]"
      using False show_nat_digits [of _ "n div 10"]
      by (simp add: show_nat.simps [of n] read_nat_append_digit)
    then show ?thesis using 1 False by simp
  qed
qed

end
