(* ===== verification/Values.thy ===== *)
theory Values
  imports Sets Ranges Fixed_Point Numbers
begin

text \<open>
  The text form of values (\<open>liburb/source/values.cpp\<close>): the printers of ranges and sets and
  \<open>internal::values::parse\<close>, which \<open>Resources\<close> and \<open>Attributes\<close> use for the command line.

  \<open>boost::lexical_cast\<close> and the extraction of a hexadecimal \<open>double\<close> from a stream are not part
  of the sources. \<open>numifier\<close> gathers them as a parameter.
\<close>

datatype Value_Type = SCALAR | RANGES | SET | TEXT

datatype Value =
    VScalar rat
  | VRanges Ranges
  | VSet item_set
  | VText string

fun value_type :: "Value \<Rightarrow> Value_Type" where
  "value_type (VScalar _) = SCALAR"
| "value_type (VRanges _) = RANGES"
| "value_type (VSet _) = SET"
| "value_type (VText _) = TEXT"

record numifier =
  cast_uint64 :: "string \<Rightarrow> uint64 option"
  cast_double :: "string \<Rightarrow> rat option"
  hex_double :: "string \<Rightarrow> rat option"

subsection \<open>\<open>numify\<close>\<close>

text \<open>
  \<open>ss << std::hex << s; ss >> result\<close> for an unsigned 64 bit number, with the test that the whole
  text was read.
\<close>

definition hex_digit :: "char \<Rightarrow> nat option" where
  "hex_digit c =
     (let n = of_char c
      in if n \<in> {48..57 :: nat} then Some (n - 48)
         else if n \<in> {65..70} then Some (n - 55)
         else if n \<in> {97..102} then Some (n - 87) else None)"

fun read_hex :: "nat \<Rightarrow> string \<Rightarrow> nat option" where
  "read_hex acc [] = Some acc"
| "read_hex acc (c # s) = (case hex_digit c of None \<Rightarrow> None | Some d \<Rightarrow> read_hex (16 * acc + d) s)"

definition hex_uint64 :: "string \<Rightarrow> uint64 option" where
  "hex_uint64 s =
     (let t = (if startsWith s ''0x'' \<or> startsWith s ''0X'' then drop 2 s else s)
      in if t = [] then None
         else case read_hex 0 t of
                None \<Rightarrow> None
              | Some n \<Rightarrow> if n < 2 ^ 64 then Some (of_nat n) else None)"

definition numify :: "(string \<Rightarrow> 'a option) \<Rightarrow> (string \<Rightarrow> 'a option) \<Rightarrow> ('a \<Rightarrow> 'a) \<Rightarrow> string \<Rightarrow> 'a option" where
  "numify cast hex neg s =
     (case cast s of
        Some v \<Rightarrow> Some v
      | None \<Rightarrow>
          if startsWith s ''0x'' \<or> startsWith s ''0X'' \<or> startsWith s ''-0x'' \<or> startsWith s ''-0X''
          then if \<not> contains_sub s ''.'' \<and> \<not> contains_sub s ''p''
               then if startsWith s ''-'' then map_option neg (hex (substr_from s 1)) else hex s
               else None
          else None)"

definition numify_uint64 :: "numifier \<Rightarrow> string \<Rightarrow> uint64 option" where
  "numify_uint64 nm = numify (cast_uint64 nm) hex_uint64 uminus"

definition numify_double :: "numifier \<Rightarrow> string \<Rightarrow> rat option" where
  "numify_double nm = numify (cast_double nm) (hex_double nm) uminus"

subsection \<open>Parsing\<close>

datatype value_error =
    EmptyText | MismatchedBrackets | OddRanges | NotANumber string | UnexpectedBrace | UnexpectedBracket

text \<open>The loop over the tokens of a list of ranges, two at a time.\<close>

fun parse_ranges :: "numifier \<Rightarrow> Ranges \<Rightarrow> string list \<Rightarrow> value_error + Ranges" where
  "parse_ranges nm ranges (b # e # tokens) =
     (case (numify_uint64 nm b, numify_uint64 nm e) of
        (Some begin, Some end) \<Rightarrow> parse_ranges nm (ranges @ [mk_range begin end]) tokens
      | _ \<Rightarrow> Inl (NotANumber b))"
| "parse_ranges nm ranges _ = Inr ranges"

definition values_parse :: "numifier \<Rightarrow> string \<Rightarrow> (value_error + Value) outcome" where
  "values_parse nm text =
     (let temp = replace text '' '' []
      in if length temp = 0 then Inr (Inl EmptyText)
         else if \<not> checkBracketsMatching temp (CHR ''{'') (CHR ''}'') \<or>
                 \<not> checkBracketsMatching temp (CHR ''['') (CHR '']'') \<or>
                 \<not> checkBracketsMatching temp (CHR ''('') (CHR '')'')
         then Inr (Inl MismatchedBrackets)
         else case find_sub ''['' temp of
                Some index \<Rightarrow>
                  if index = 0
                  then let tokens = tokenize temp (''[]-,'' @ [CHR 0x0A]) None
                       in if length tokens mod 2 \<noteq> 0 then Inr (Inl OddRanges)
                          else case parse_ranges nm [] tokens of
                                 Inl e \<Rightarrow> Inr (Inl e)
                               | Inr ranges \<Rightarrow> andThen (coalesce_self ranges) (\<lambda>r. Inr (Inr (VRanges r)))
                  else Inr (Inl UnexpectedBracket)
              | None \<Rightarrow>
                  (case find_sub ''{'' temp of
                     Some index \<Rightarrow>
                       if index = 0 then Inr (Inr (VSet (tokenize temp (''{},'' @ [CHR 0x0A]) None)))
                       else Inr (Inl UnexpectedBrace)
                   | None \<Rightarrow>
                       (case numify_double nm temp of
                          Some v \<Rightarrow> Inr (Inr (VScalar v))
                        | None \<Rightarrow> Inr (Inr (VText temp)))))"

subsection \<open>Printing\<close>

fun join :: "string \<Rightarrow> string list \<Rightarrow> string" where
  "join sep [] = []"
| "join sep [x] = x"
| "join sep (x # y # xs) = x @ sep @ join sep (y # xs)"

definition print_range :: "Range \<Rightarrow> string" where
  "print_range r = show_nat (unat (range_begin r)) @ ''-'' @ show_nat (unat (range_end r))"

definition print_ranges :: "Ranges \<Rightarrow> string" where
  "print_ranges rs = ''['' @ join '', '' (map print_range rs) @ '']''"

definition print_set :: "item_set \<Rightarrow> string" where
  "print_set xs = ''{'' @ join '', '' xs @ ''}''"

subsection \<open>Reading back what was printed\<close>

lemma filter_join:
  "\<forall>x \<in> set xs. c \<notin> set x \<Longrightarrow> filter (\<lambda>y. y \<noteq> c) (join sep xs) = join (filter (\<lambda>y. y \<noteq> c) sep) xs"
proof (induction sep xs rule: join.induct)
  case (2 sep x)
  then show ?case by (auto simp: filter_id_conv)
next
  case (3 sep x y xs)
  then show ?case by (auto simp: filter_id_conv)
qed simp

lemma set_join: "set (join sep xs) \<subseteq> set sep \<union> \<Union> (set ` set xs)"
  by (induction sep xs rule: join.induct) auto

lemma fields_join:
  assumes "P d"
  shows "Strings.fields P (join [d] xs) = concat (map (Strings.fields P) xs)"
proof (induction "[d]" xs rule: join.induct)
  case (3 x y xs)
  have "join [d] (x # y # xs) = x @ d # join [d] (y # xs)" by simp
  then show ?case using fields_append_delim [of P d, OF assms] 3 by (simp del: join.simps)
qed simp_all

lemma bracket_loop_skip:
  assumes "op \<notin> set s" and "cl \<notin> set s" and "0 \<le> n"
  shows "bracket_loop op cl n (s @ t) \<longleftrightarrow> bracket_loop op cl n t"
  using assms by (induction s) auto

lemma brackets_absent: "op \<notin> set s \<Longrightarrow> cl \<notin> set s \<Longrightarrow> checkBracketsMatching s op cl"
  using bracket_loop_skip [of op s cl 0 "[]"] by (simp add: checkBracketsMatching_def)

lemma brackets_around:
  assumes "op \<notin> set s" and "cl \<notin> set s" and "op \<noteq> cl"
  shows "checkBracketsMatching (op # s @ [cl]) op cl"
  using bracket_loop_skip [OF assms(1,2), of 1 "[cl]"] assms(3) by (auto simp: checkBracketsMatching_def)

lemma find_sub_absent: "c \<notin> set s \<Longrightarrow> find_sub [c] s = None"
  by (auto simp: find_sub_single find_idx_None)

lemma show_nat_charset: "digit c = None \<Longrightarrow> c \<notin> set (show_nat n)"
  using show_nat_digits by fastforce

lemma print_range_charset: "digit c = None \<Longrightarrow> c \<noteq> CHR ''-'' \<Longrightarrow> c \<notin> set (print_range r)"
  by (simp add: print_range_def show_nat_charset)

lemma fields_print_range:
  assumes "P (CHR ''-'')" and "\<And>c. P c \<Longrightarrow> digit c = None"
  shows "Strings.fields P (print_range r) = [show_nat (unat (range_begin r)), show_nat (unat (range_end r))]"
proof -
  have "Strings.fields P (show_nat n) = [show_nat n]" for n
    using assms(2) show_nat_digits by (intro fields_delim_free) (simp, blast)
  then show ?thesis
    using fields_append_delim [of P "CHR ''-''", OF assms(1)] by (simp add: print_range_def)
qed

text \<open>\<open>boost::lexical_cast\<close> reads the decimal numerals of 64 bit numbers.\<close>

definition casts_numerals :: "numifier \<Rightarrow> bool" where
  "casts_numerals nm \<longleftrightarrow> (\<forall>n < 2 ^ 64. cast_uint64 nm (show_nat n) = Some (of_nat n))"

lemma parse_ranges_printed:
  assumes "casts_numerals nm"
  shows "parse_ranges nm acc
    (concat (map (\<lambda>r. [show_nat (unat (range_begin r)), show_nat (unat (range_end r))]) rs)) = Inr (acc @ rs)"
proof (induction rs arbitrary: acc)
  case (Cons r rs)
  have "numify_uint64 nm (show_nat (unat x)) = Some x" for x :: uint64
  proof -
    have "unat x < 2 ^ 64" using unsigned_less [of x, where 'a = nat] by simp
    with assms have "cast_uint64 nm (show_nat (unat x)) = Some x" by (simp add: casts_numerals_def)
    then show ?thesis by (simp add: numify_uint64_def numify_def)
  qed
  with Cons show ?case by (simp add: mk_range_def)
qed simp

text \<open>An item that stays one token: not empty and free of spaces, line feeds, commas and brackets.\<close>

definition item_ok :: "string \<Rightarrow> bool" where
  "item_ok x \<longleftrightarrow> x \<noteq> [] \<and> list_all (\<lambda>c. c \<notin> set ('' {}[](),'' @ [CHR 0x0A])) x"

lemma merged_canonical: "canonical rs \<Longrightarrow> merged rs = rs"
proof -
  assume c: "canonical rs"
  then have "canonical (merged rs)" by (intro canonical_merged) (simp add: canonical_def)
  then show ?thesis using c by (rule canonical_unique) (rule ranges_set_merged)
qed

lemma values_parse_ranges:
  assumes "casts_numerals nm"
  shows "values_parse nm (print_ranges rs) = Inr (Inr (VRanges (merged rs)))"
proof -
  let ?s = "join '','' (map print_range rs)" and ?d = "\<lambda>c. c \<in> set (''[]-,'' @ [CHR 0x0A])"
  have absent: "c \<notin> set ?s" if "digit c = None" "c \<noteq> CHR ''-''" "c \<noteq> CHR '',''" for c
    using set_join [of "'',''" "map print_range rs"] print_range_charset that by fastforce
  have "filter (\<lambda>x. x \<noteq> CHR '' '') (join '', '' (map print_range rs)) = ?s"
    by (subst filter_join) (auto simp: print_range_charset digit_def)
  then have temp: "replace (print_ranges rs) '' '' [] = CHR ''['' # ?s @ [CHR '']'']"
    by (simp add: replace_char_filter print_ranges_def)
  have b: "checkBracketsMatching (CHR ''['' # ?s @ [CHR '']'']) (CHR ''['') (CHR '']'')"
    "checkBracketsMatching (CHR ''['' # ?s @ [CHR '']'']) (CHR ''{'') (CHR ''}'')"
    "checkBracketsMatching (CHR ''['' # ?s @ [CHR '']'']) (CHR ''('') (CHR '')'')"
    by (intro brackets_around brackets_absent; simp add: absent digit_def)+
  have "Strings.fields ?d (CHR ''['' # ?s @ [CHR '']'']) = Strings.fields ?d ?s"
    using fields_delim_Cons [of ?d "CHR ''[''"] fields_delim_snoc [of ?d "CHR '']''"] by simp
  also have "\<dots> = concat (map (\<lambda>r. [show_nat (unat (range_begin r)), show_nat (unat (range_end r))]) rs)"
    by (subst fields_join) (auto simp: o_def digit_def intro!: arg_cong [of _ _ concat] map_cong fields_print_range)
  finally have "tokenize (CHR ''['' # ?s @ [CHR '']'']) (''[]-,'' @ [CHR 0x0A]) None =
      concat (map (\<lambda>r. [show_nat (unat (range_begin r)), show_nat (unat (range_end r))]) rs)"
    by (simp add: tokenize_fields)
  moreover have "length (concat (map (\<lambda>r. [show_nat (unat (range_begin r)), show_nat (unat (range_end r))]) rs)) mod 2 = 0"
    by (induction rs) simp_all
  ultimately show ?thesis
    using b parse_ranges_printed [OF assms, of "[]" rs] coalesce_merged [of rs "[[]]"]
    by (simp add: values_parse_def temp Let_def coalesce_self_def)
qed

lemma values_parse_set:
  assumes "list_all item_ok xs"
  shows "values_parse nm (print_set xs) = Inr (Inr (VSet xs))"
proof -
  let ?s = "join '','' xs" and ?d = "\<lambda>c. c \<in> set (''{},'' @ [CHR 0x0A])"
  have absent: "c \<notin> set ?s" if "c \<in> set ('' {}[]()'' @ [CHR 0x0A])" for c
  proof
    assume "c \<in> set ?s"
    moreover have "c \<noteq> CHR '',''" using that by auto
    ultimately obtain x where "x \<in> set xs" "c \<in> set x"
      using set_join [of "'',''" xs] by auto
    moreover from this have "item_ok x" using assms by (simp add: list_all_iff)
    ultimately show False using that unfolding item_ok_def list_all_iff by auto
  qed
  have "filter (\<lambda>x. x \<noteq> CHR '' '') (join '', '' xs) = ?s"
    using assms by (subst filter_join) (auto simp: item_ok_def list_all_iff)
  then have temp: "replace (print_set xs) '' '' [] = CHR ''{'' # ?s @ [CHR ''}'']"
    by (simp add: replace_char_filter print_set_def)
  have b: "checkBracketsMatching (CHR ''{'' # ?s @ [CHR ''}'']) (CHR ''['') (CHR '']'')"
    "checkBracketsMatching (CHR ''{'' # ?s @ [CHR ''}'']) (CHR ''{'') (CHR ''}'')"
    "checkBracketsMatching (CHR ''{'' # ?s @ [CHR ''}'']) (CHR ''('') (CHR '')'')"
    by (intro brackets_around brackets_absent; simp add: absent)+
  have "Strings.fields ?d (CHR ''{'' # ?s @ [CHR ''}'']) = Strings.fields ?d ?s"
    using fields_delim_Cons [of ?d "CHR ''{''"] fields_delim_snoc [of ?d "CHR ''}''"] by simp
  also have "\<dots> = concat (map (\<lambda>x. [x]) xs)"
  proof (subst fields_join)
    show "concat (map (Strings.fields ?d) xs) = concat (map (\<lambda>x. [x]) xs)"
      using assms by (intro arg_cong [of _ _ concat] map_cong refl fields_delim_free) (auto simp: item_ok_def list_all_iff)
  qed simp
  finally have "tokenize (CHR ''{'' # ?s @ [CHR ''}'']) (''{},'' @ [CHR 0x0A]) None = xs"
    by (simp add: tokenize_fields)
  moreover have "find_sub ''['' (CHR ''{'' # ?s @ [CHR ''}'']) = None"
    by (intro find_sub_absent) (simp add: absent)
  ultimately show ?thesis using b by (simp add: values_parse_def temp Let_def)
qed

lemma values_parse_returns: "\<exists>x. values_parse nm s = Inr x"
proof -
  have "coalesce_self rs = Inr (merged rs)" for rs using coalesce_merged [of rs "[[]]"] by (simp add: coalesce_self_def)
  then show ?thesis unfolding values_parse_def Let_def by (auto split: option.split sum.split)
qed

end
