(* ===== verification/Maps.thy ===== *)
theory Maps
  imports Prelude "HOL-Library.List_Lexorder" "HOL-Library.Char_ord"
begin

text \<open>
  The two associative containers of the sources behind one interface.

  \<^item> \<open>key_map\<close> is the contract its clients rely on: what a lookup returns after an assignment, an
    erasure or a sequence of assignments, and that every operation keeps the representation
    invariant.
  \<^item> \<open>std::map\<close> (the active tasks of the scheduler process) is a list of entries sorted by key;
    the order is the one its iterators visit, and that of \<open>std::string\<close> is lexicographic.
  \<^item> stout's \<open>LinkedHashMap\<close> (\<open>3rdparty/stout/linkedhashmap.hpp\<close>; tasks and updates of the
    executor process) keeps the entries in a linked list in order of insertion and an index from
    keys to list nodes. Nodes are addresses here, so that erasing a node leaves the other
    addresses in the index valid, as the iterators of \<open>std::list\<close> are.
\<close>

locale key_map =
  fixes get :: "'m \<Rightarrow> 'k \<Rightarrow> 'v option"
    and put :: "'k \<Rightarrow> 'v \<Rightarrow> 'm \<Rightarrow> 'm"
    and del :: "'k \<Rightarrow> 'm \<Rightarrow> 'm"
    and inv :: "'m \<Rightarrow> bool"
  assumes inv_put: "inv m \<Longrightarrow> inv (put k v m)"
    and inv_del: "inv m \<Longrightarrow> inv (del k m)"
    and get_put: "inv m \<Longrightarrow> get (put k v m) k' = (if k' = k then Some v else get m k')"
    and get_del: "inv m \<Longrightarrow> get (del k m) k' = (if k' = k then None else get m k')"
begin

lemma inv_puts: "inv m \<Longrightarrow> inv (fold (\<lambda>k. put k v) ks m)"
  by (induction ks arbitrary: m) (auto intro: inv_put)

lemma get_puts:
  "inv m \<Longrightarrow> get (fold (\<lambda>k. put k v) ks m) k' = (if k' \<in> set ks then Some v else get m k')"
  by (induction ks arbitrary: m) (auto simp: get_put inv_put)

lemma get_dels: "inv m \<Longrightarrow> get (fold del ks m) k' = (if k' \<in> set ks then None else get m k')"
  by (induction ks arbitrary: m) (auto simp: get_del inv_del)

end

subsection \<open>\<open>std::map\<close>\<close>

type_synonym ('k, 'v) std_map = "('k \<times> 'v) list"

abbreviation map_find :: "('k :: linorder, 'v) std_map \<Rightarrow> 'k \<Rightarrow> 'v option" where
  "map_find \<equiv> map_of"

fun map_assign :: "'k :: linorder \<Rightarrow> 'v \<Rightarrow> ('k, 'v) std_map \<Rightarrow> ('k, 'v) std_map" where
  "map_assign k v [] = [(k, v)]"
| "map_assign k v ((k', v') # m) =
     (if k = k' then (k, v) # m
      else if k < k' then (k, v) # (k', v') # m
      else (k', v') # map_assign k v m)"

fun map_erase :: "'k :: linorder \<Rightarrow> ('k, 'v) std_map \<Rightarrow> ('k, 'v) std_map" where
  "map_erase k [] = []"
| "map_erase k ((k', v') # m) = (if k = k' then m else (k', v') # map_erase k m)"

definition map_sorted :: "('k :: linorder, 'v) std_map \<Rightarrow> bool" where
  "map_sorted m \<longleftrightarrow> sorted_wrt (<) (map fst m)"

subsection \<open>\<open>LinkedHashMap\<close>\<close>

record ('k, 'v) linked_map =
  lhm_list :: "(nat \<times> 'k \<times> 'v) list"
  lhm_index :: "('k \<times> nat) list"
  lhm_fresh :: nat

definition lhm_empty :: "('k, 'v) linked_map" where
  "lhm_empty = \<lparr>lhm_list = [], lhm_index = [], lhm_fresh = 0\<rparr>"

definition lhm_contains :: "('k, 'v) linked_map \<Rightarrow> 'k \<Rightarrow> bool" where
  "lhm_contains m k = (map_of (lhm_index m) k \<noteq> None)"

text \<open>The assignment \<open>m[k] = v\<close>: operator \<open>[]\<close> appends an entry for a missing key.\<close>

definition lhm_set_node :: "nat \<Rightarrow> 'v \<Rightarrow> (nat \<times> 'k \<times> 'v) list \<Rightarrow> (nat \<times> 'k \<times> 'v) list" where
  "lhm_set_node a v es = map (\<lambda>(b, k, w). (b, k, if b = a then v else w)) es"

definition lhm_put :: "'k \<Rightarrow> 'v \<Rightarrow> ('k, 'v) linked_map \<Rightarrow> ('k, 'v) linked_map" where
  "lhm_put k v m =
     (case map_of (lhm_index m) k of
        None \<Rightarrow> m\<lparr>lhm_list := lhm_list m @ [(lhm_fresh m, k, v)], lhm_index := (k, lhm_fresh m) # lhm_index m,
                  lhm_fresh := Suc (lhm_fresh m)\<rparr>
      | Some a \<Rightarrow> m\<lparr>lhm_list := lhm_set_node a v (lhm_list m)\<rparr>)"

definition lhm_get :: "('k, 'v) linked_map \<Rightarrow> 'k \<Rightarrow> 'v option" where
  "lhm_get m k =
     (case map_of (lhm_index m) k of
        None \<Rightarrow> None
      | Some a \<Rightarrow> map_option snd (map_of (lhm_list m) a))"

definition lhm_erase :: "'k \<Rightarrow> ('k, 'v) linked_map \<Rightarrow> ('k, 'v) linked_map" where
  "lhm_erase k m =
     (case map_of (lhm_index m) k of
        None \<Rightarrow> m
      | Some a \<Rightarrow> m\<lparr>lhm_list := filter (\<lambda>e. fst e \<noteq> a) (lhm_list m),
                    lhm_index := filter (\<lambda>e. fst e \<noteq> k) (lhm_index m)\<rparr>)"

definition lhm_keys :: "('k, 'v) linked_map \<Rightarrow> 'k list" where
  "lhm_keys m = map (fst \<circ> snd) (lhm_list m)"

definition lhm_values :: "('k, 'v) linked_map \<Rightarrow> 'v list" where
  "lhm_values m = map (snd \<circ> snd) (lhm_list m)"

definition lhm_size :: "('k, 'v) linked_map \<Rightarrow> nat" where
  "lhm_size m = length (lhm_index m)"

definition lhm_clear :: "('k, 'v) linked_map \<Rightarrow> ('k, 'v) linked_map" where
  "lhm_clear m = m\<lparr>lhm_list := [], lhm_index := []\<rparr>"

text \<open>
  The index and the list describe the same entries: addresses and keys occur once in the list, the
  index sends each key of the list to its node and nothing else, and \<open>lhm_fresh\<close> is above all
  addresses.
\<close>

definition lhm_inv :: "('k, 'v) linked_map \<Rightarrow> bool" where
  "lhm_inv m \<longleftrightarrow>
     distinct (map fst (lhm_list m)) \<and> distinct (lhm_keys m) \<and> distinct (map fst (lhm_index m)) \<and>
     set (lhm_index m) = (\<lambda>(a, k, v). (k, a)) ` set (lhm_list m) \<and> (\<forall>e \<in> set (lhm_list m). fst e < lhm_fresh m)"

text \<open>The abstract value of a linked map: its entries in order of insertion.\<close>

definition lhm_alist :: "('k, 'v) linked_map \<Rightarrow> ('k \<times> 'v) list" where
  "lhm_alist m = map snd (lhm_list m)"

fun alist_put :: "'k \<Rightarrow> 'v \<Rightarrow> ('k \<times> 'v) list \<Rightarrow> ('k \<times> 'v) list" where
  "alist_put k v [] = [(k, v)]"
| "alist_put k v ((k', v') # m) = (if k = k' then (k, v) # m else (k', v') # alist_put k v m)"

subsection \<open>\<open>std::map\<close> meets the contract\<close>

lemma map_assign_keys: "fst ` set (map_assign k v m) = insert k (fst ` set m)"
  by (induction k v m rule: map_assign.induct) (simp_all add: insert_commute)

lemma map_erase_keys: "fst ` set (map_erase k m) \<subseteq> fst ` set m"
  by (induction k m rule: map_erase.induct) (simp_all add: subset_insertI subset_insertI2)

lemma map_sorted_simps [simp]:
  "map_sorted []"
  "map_sorted ((k, v) # m) \<longleftrightarrow> (\<forall>x \<in> fst ` set m. k < x) \<and> map_sorted m"
  by (auto simp: map_sorted_def)

lemma map_sorted_assign: "map_sorted m \<Longrightarrow> map_sorted (map_assign k v m)"
proof (induction m)
  case (Cons e m)
  obtain k' v' where e: "e = (k', v')" by (cases e)
  have "\<forall>x \<in> fst ` set m. k' < x" using Cons.prems e by simp
  then have "k < k' \<Longrightarrow> \<forall>x \<in> fst ` set m. k < x" and "k' < k \<Longrightarrow> \<forall>x \<in> fst ` set (map_assign k v m). k' < x"
    unfolding map_assign_keys by (blast intro: less_trans)+
  with Cons e show ?case by (auto simp: neq_iff)
qed simp

lemma map_sorted_erase: "map_sorted m \<Longrightarrow> map_sorted (map_erase k m)"
proof (induction m)
  case (Cons e m)
  obtain k' v' where e: "e = (k', v')" by (cases e)
  then have "\<forall>x \<in> fst ` set m. k' < x" using Cons.prems by simp
  then have "\<forall>x \<in> fst ` set (map_erase k m). k' < x" using map_erase_keys [of k m] by blast
  with Cons e show ?case by simp
qed simp

lemma map_find_assign: "map_find (map_assign k v m) k' = (if k' = k then Some v else map_find m k')"
  by (induction m) auto

lemma map_find_erase:
  assumes "map_sorted m"
  shows "map_find (map_erase k m) k' = (if k' = k then None else map_find m k')"
  using assms
proof (induction m)
  case (Cons e m)
  obtain k1 v1 where e: "e = (k1, v1)" by (cases e)
  have "map_find m k1 = None" using Cons.prems e by (auto simp: map_of_eq_None_iff)
  with Cons e show ?case by (cases "k = k1") auto
qed simp

interpretation smap: key_map map_find map_assign map_erase map_sorted
  by unfold_locales (simp_all add: map_sorted_assign map_sorted_erase map_find_assign map_find_erase)

subsection \<open>\<open>LinkedHashMap\<close> refines a list of entries in insertion order\<close>

lemma map_of_index:
  assumes "lhm_inv m"
  shows "map_of (lhm_index m) k = Some a \<longleftrightarrow> (\<exists>v. (a, k, v) \<in> set (lhm_list m))"
proof -
  have "map_of (lhm_index m) k = Some a \<longleftrightarrow> (k, a) \<in> set (lhm_index m)"
    using assms by (intro map_of_eq_Some_iff) (simp add: lhm_inv_def)
  also have "\<dots> \<longleftrightarrow> (k, a) \<in> (\<lambda>(a, k, v). (k, a)) ` set (lhm_list m)"
    using assms by (simp add: lhm_inv_def)
  also have "\<dots> \<longleftrightarrow> (\<exists>v. (a, k, v) \<in> set (lhm_list m))" by (auto intro: rev_image_eqI)
  finally show ?thesis .
qed

lemma map_of_index_None:
  assumes "lhm_inv m"
  shows "map_of (lhm_index m) k = None \<longleftrightarrow> k \<notin> set (lhm_keys m)"
proof -
  have "k \<in> set (lhm_keys m) \<longleftrightarrow> (\<exists>a v. (a, k, v) \<in> set (lhm_list m))"
    by (force simp: lhm_keys_def)
  also have "\<dots> \<longleftrightarrow> (\<exists>a. map_of (lhm_index m) k = Some a)" using map_of_index [OF assms] by blast
  finally show ?thesis by (cases "map_of (lhm_index m) k") auto
qed

lemma alist_put_new: "k \<notin> fst ` set xs \<Longrightarrow> alist_put k v xs = xs @ [(k, v)]"
  by (induction xs) auto

lemma alist_put_old:
  "(a, k, w) \<in> set es \<Longrightarrow> distinct (map fst es) \<Longrightarrow> distinct (map (fst \<circ> snd) es) \<Longrightarrow>
    map snd (lhm_set_node a v es) = alist_put k v (map snd es)"
proof (induction es)
  case (Cons e es)
  obtain b k' w' where e: "e = (b, k', w')" by (cases e)
  show ?case
  proof (cases "b = a")
    case True
    with Cons.prems e have "k' = k" "a \<notin> fst ` set es" by force+
    then have "lhm_set_node a v es = es" by (force simp: lhm_set_node_def intro: map_idI)
    with e True \<open>k' = k\<close> show ?thesis by (simp add: lhm_set_node_def)
  next
    case False
    with Cons.prems e have "(a, k, w) \<in> set es" "k' \<noteq> k" by force+
    with Cons e False show ?thesis by (simp add: lhm_set_node_def)
  qed
qed simp

lemma set_node_simps:
  "map fst (lhm_set_node a v es) = map fst es"
  "map (fst \<circ> snd) (lhm_set_node a v es) = map (fst \<circ> snd) es"
  "(\<lambda>(a, k, v). (k, a)) ` set (lhm_set_node a v es) = (\<lambda>(a, k, v). (k, a)) ` set es"
  by (auto simp: lhm_set_node_def image_image case_prod_beta)

lemma lhm_inv_put: "lhm_inv m \<Longrightarrow> lhm_inv (lhm_put k v m)"
proof (cases "map_of (lhm_index m) k")
  case None
  assume inv: "lhm_inv m"
  then have "k \<notin> set (lhm_keys m)" using None map_of_index_None [OF inv] by simp
  moreover have "k \<notin> fst ` set (lhm_index m)" using None by (simp add: map_of_eq_None_iff)
  moreover have "lhm_fresh m \<notin> fst ` set (lhm_list m)" using inv by (auto simp: lhm_inv_def)
  ultimately show ?thesis
    using inv unfolding lhm_put_def None option.case lhm_inv_def lhm_keys_def by (simp add: less_SucI)
next
  case (Some a)
  assume inv: "lhm_inv m"
  have "\<forall>e \<in> set (lhm_set_node a v (lhm_list m)). fst e < lhm_fresh m"
    using inv by (auto simp: lhm_inv_def lhm_set_node_def)
  with inv show ?thesis
    unfolding lhm_put_def Some option.case lhm_inv_def lhm_keys_def by (simp add: set_node_simps)
qed

lemma lhm_same_node:
  assumes "lhm_inv m" and "(a, k, v) \<in> set (lhm_list m)" and "(b, k', w) \<in> set (lhm_list m)"
  shows "b = a \<longleftrightarrow> k' = k"
proof -
  have "inj_on fst (set (lhm_list m))" "inj_on (fst \<circ> snd) (set (lhm_list m))"
    using assms(1) by (simp_all add: lhm_inv_def lhm_keys_def distinct_map)
  from inj_onD [OF this(1) _ assms(2,3)] inj_onD [OF this(2) _ assms(2,3)] show ?thesis by auto
qed

lemma lhm_erase_node:
  assumes inv: "lhm_inv m" and Some: "map_of (lhm_index m) k = Some a"
  shows "lhm_erase k m = m\<lparr>lhm_list := filter (\<lambda>e. fst (snd e) \<noteq> k) (lhm_list m),
           lhm_index := filter (\<lambda>e. fst e \<noteq> k) (lhm_index m)\<rparr>"
proof -
  obtain v where v: "(a, k, v) \<in> set (lhm_list m)" using Some map_of_index [OF inv] by auto
  have "filter (\<lambda>e. fst e \<noteq> a) (lhm_list m) = filter (\<lambda>e. fst (snd e) \<noteq> k) (lhm_list m)"
    using lhm_same_node [OF inv v] by (intro filter_cong) (auto, metis)
  then show ?thesis by (simp add: lhm_erase_def Some)
qed

lemma lhm_inv_erase: "lhm_inv m \<Longrightarrow> lhm_inv (lhm_erase k m)"
proof (cases "map_of (lhm_index m) k")
  case (Some a)
  assume inv: "lhm_inv m"
  have "{x \<in> (\<lambda>(a, k, v). (k, a)) ` A. fst x \<noteq> k} = (\<lambda>(a, k, v). (k, a)) ` {e \<in> A. fst (snd e) \<noteq> k}"
    for A :: "(nat \<times> 'a \<times> 'b) set"
    by force
  with inv show ?thesis
    unfolding lhm_erase_node [OF inv Some] lhm_inv_def lhm_keys_def
    by (simp add: distinct_map_filter)
qed (simp add: lhm_erase_def)

lemma lhm_inv_empty [simp]: "lhm_inv lhm_empty"
  by (simp add: lhm_inv_def lhm_empty_def lhm_keys_def)

lemma lhm_empty_simps [simp]: "lhm_keys lhm_empty = []" "lhm_get lhm_empty k = None" "lhm_values lhm_empty = []"
  by (simp_all add: lhm_empty_def lhm_keys_def lhm_get_def lhm_values_def)

lemma lhm_alist_put:
  assumes "lhm_inv m"
  shows "lhm_alist (lhm_put k v m) = alist_put k v (lhm_alist m)"
proof (cases "map_of (lhm_index m) k")
  case None
  then have "k \<notin> set (lhm_keys m)" using map_of_index_None [OF assms] by simp
  then have "k \<notin> fst ` set (map snd (lhm_list m))" by (simp add: lhm_keys_def image_image)
  with None show ?thesis by (simp add: lhm_put_def lhm_alist_def alist_put_new)
next
  case (Some a)
  then obtain w where "(a, k, w) \<in> set (lhm_list m)" using map_of_index [OF assms] by auto
  with Some assms show ?thesis
    by (simp add: lhm_put_def lhm_alist_def lhm_inv_def lhm_keys_def alist_put_old)
qed

lemma lhm_alist_erase:
  assumes "lhm_inv m"
  shows "lhm_alist (lhm_erase k m) = filter (\<lambda>e. fst e \<noteq> k) (lhm_alist m)"
proof (cases "map_of (lhm_index m) k")
  case None
  then have "k \<notin> set (lhm_keys m)" using map_of_index_None [OF assms] by simp
  then have "filter (\<lambda>e. fst e \<noteq> k) (lhm_alist m) = lhm_alist m"
    by (intro filter_True) (force simp: lhm_alist_def lhm_keys_def)
  with None show ?thesis by (simp add: lhm_erase_def)
next
  case (Some a)
  then show ?thesis by (simp add: lhm_erase_node [OF assms] lhm_alist_def filter_map o_def)
qed

lemma lhm_get_alist:
  assumes "lhm_inv m"
  shows "lhm_get m k = map_of (lhm_alist m) k"
proof (cases "map_of (lhm_index m) k")
  case None
  then have "k \<notin> set (lhm_keys m)" using map_of_index_None [OF assms] by simp
  then have "map_of (lhm_alist m) k = None"
    by (simp add: map_of_eq_None_iff lhm_alist_def lhm_keys_def image_image)
  with None show ?thesis by (simp add: lhm_get_def)
next
  case (Some a)
  then obtain v where v: "(a, k, v) \<in> set (lhm_list m)" using map_of_index [OF assms] by auto
  then have "map_of (lhm_list m) a = Some (k, v)"
    using assms by (simp add: lhm_inv_def)
  moreover have "(k, v) \<in> set (lhm_alist m)" using v by (force simp: lhm_alist_def)
  then have "map_of (lhm_alist m) k = Some v"
    using assms by (intro map_of_is_SomeI) (simp_all add: lhm_inv_def lhm_alist_def lhm_keys_def)
  ultimately show ?thesis using Some by (simp add: lhm_get_def)
qed

lemma map_of_alist_put: "map_of (alist_put k v xs) k' = (if k' = k then Some v else map_of xs k')"
  by (induction xs) auto

lemma map_of_filter_key: "map_of (filter (\<lambda>e. fst e \<noteq> k) xs) k' = (if k' = k then None else map_of xs k')"
  by (induction xs) auto

interpretation lmap: key_map lhm_get lhm_put lhm_erase lhm_inv
  by unfold_locales
    (simp_all add: lhm_inv_put lhm_inv_erase lhm_get_alist lhm_alist_put lhm_alist_erase
      map_of_alist_put map_of_filter_key)

lemma lhm_keys_alist: "lhm_keys m = map fst (lhm_alist m)"
  by (simp add: lhm_keys_def lhm_alist_def)

lemma lhm_values_alist: "lhm_values m = map snd (lhm_alist m)"
  by (simp add: lhm_values_def lhm_alist_def)

lemma alist_put_keys:
  "map fst (alist_put k v xs) = (if k \<in> fst ` set xs then map fst xs else map fst xs @ [k])"
  by (induction k v xs rule: alist_put.induct) simp_all

lemma lhm_contains_get: "lhm_inv m \<Longrightarrow> lhm_contains m k \<longleftrightarrow> lhm_get m k \<noteq> None"
proof -
  assume inv: "lhm_inv m"
  have "lhm_contains m k \<longleftrightarrow> k \<in> set (lhm_keys m)"
    using map_of_index_None [OF inv, of k] by (auto simp: lhm_contains_def)
  then show ?thesis by (auto simp: lhm_get_alist [OF inv] map_of_eq_None_iff lhm_keys_alist)
qed

subsection \<open>Properties\<close>

text \<open>
  C33. \<open>LinkedHashMap\<close> behaves as a list of entries in insertion order: assigning to a key that is
  there changes the value in place and keeps the order, assigning to a new key appends it,
  erasing removes exactly that key, and a lookup returns the value last assigned. The index from
  keys to list nodes stays consistent with the list under every operation.
\<close>

theorem linked_map_refines:
  assumes "lhm_inv m"
  shows "lhm_inv (lhm_put k v m) \<and> lhm_alist (lhm_put k v m) = alist_put k v (lhm_alist m) \<and>
    lhm_inv (lhm_erase k m) \<and> lhm_alist (lhm_erase k m) = filter (\<lambda>e. fst e \<noteq> k) (lhm_alist m) \<and>
    lhm_get m k = map_of (lhm_alist m) k \<and>
    lhm_get (lhm_put k v m) k' = (if k' = k then Some v else lhm_get m k') \<and>
    lhm_keys (lhm_put k v m) = (if lhm_contains m k then lhm_keys m else lhm_keys m @ [k]) \<and>
    lhm_size m = length (lhm_values m)"
proof -
  have "distinct (map fst (lhm_index m))" "distinct (lhm_keys m)"
    and s: "set (lhm_index m) = (\<lambda>(a, k, v). (k, a)) ` set (lhm_list m)"
    using assms by (simp_all add: lhm_inv_def)
  then have "lhm_size m = card (fst ` set (lhm_index m))" "length (lhm_keys m) = card (set (lhm_keys m))"
    by (metis distinct_card length_map lhm_size_def list.set_map) (metis \<open>distinct (lhm_keys m)\<close> distinct_card)
  moreover have "fst ` set (lhm_index m) = set (lhm_keys m)"
    unfolding s by (force simp: lhm_keys_def)
  ultimately have "lhm_size m = length (lhm_values m)" by (simp add: lhm_keys_def lhm_values_def)
  moreover have "lhm_contains m k \<longleftrightarrow> k \<in> fst ` set (lhm_alist m)"
    using lhm_contains_get [OF assms, of k] by (simp add: lhm_get_alist [OF assms] map_of_eq_None_iff)
  ultimately show ?thesis
    using assms lmap.get_put [OF assms, of k v k']
    by (simp add: lhm_inv_put lhm_inv_erase lhm_alist_put lhm_alist_erase lhm_get_alist
        lhm_keys_alist alist_put_keys)
qed

theorem linked_map_refines_witness:
  "lhm_keys (lhm_put ''a'' 3 (lhm_put ''b'' 2 (lhm_put ''a'' (1 :: nat) lhm_empty))) = [''a'', ''b'']"
proof -
  let ?m = "lhm_put ''b'' 2 (lhm_put ''a'' (1 :: nat) lhm_empty)"
  have "lhm_inv ?m" by (simp add: lhm_inv_put)
  from linked_map_refines [OF this, of "''a''" 3 "''a''"]
  have "lhm_keys (lhm_put ''a'' 3 ?m) = (if lhm_contains ?m ''a'' then lhm_keys ?m else lhm_keys ?m @ [''a''])"
    by blast
  also have "\<dots> = [''a'', ''b'']" by code_simp
  finally show ?thesis .
qed

end
