(* ===== verification/Messages.thy ===== *)
theory Messages
  imports Prelude
begin

text \<open>
  The data the drivers exchange: the protocol buffers of \<open>mesos.proto\<close> and \<open>messages.proto\<close> as far as
  the C++ code of liburb reads or writes them. Fields no code of the drivers looks at travel in
  an opaque text (\<open>other\<close>), and messages that are only passed on (filters, offers, requests, master
  information) are opaque texts.

  An identifier message has one string field: \<open>None\<close> when it was never set, and its accessor then
  returns the empty string. An optional field of another message is an option, and its accessor
  returns the default of its type when it is absent.
\<close>

subsection \<open>Identifiers\<close>

type_synonym ID = "string option"

definition id_value :: "ID \<Rightarrow> string" where
  "id_value i = (case i of None \<Rightarrow> [] | Some v \<Rightarrow> v)"

definition merge_id :: "ID \<Rightarrow> ID \<Rightarrow> ID" where
  "merge_id to from = (case from of None \<Rightarrow> to | Some v \<Rightarrow> Some v)"

text \<open>The accessor of an optional identifier field.\<close>

definition opt_id :: "ID option \<Rightarrow> ID" where
  "opt_id f = (case f of None \<Rightarrow> None | Some i \<Rightarrow> i)"

subsection \<open>Messages\<close>

datatype Status = DRIVER_NOT_STARTED | DRIVER_RUNNING | DRIVER_ABORTED | DRIVER_STOPPED

type_synonym Filters = string
type_synonym Offer = string
type_synonym Request = string
type_synonym MasterInfo = string
type_synonym SlaveInfo = string
type_synonym UPID = string

record FrameworkInfo =
  fi_id :: "ID option"
  fi_user :: string
  fi_name :: string
  fi_other :: string

record ExecutorInfo =
  ei_executor_id :: ID
  ei_framework_id :: "ID option"
  ei_other :: string

record TaskInfo =
  ti_task_id :: ID
  ti_slave_id :: ID
  ti_executor :: "ExecutorInfo option"
  ti_command :: "string option"
  ti_labels :: "string list option"
  ti_other :: string

datatype TaskState =
    TASK_STAGING | TASK_STARTING | TASK_RUNNING | TASK_KILLING | TASK_FINISHED | TASK_FAILED
  | TASK_KILLED | TASK_ERROR | TASK_LOST | TASK_DROPPED | TASK_UNREACHABLE | TASK_GONE
  | TASK_GONE_BY_OPERATOR | TASK_UNKNOWN

text \<open>The states \<open>mesos.proto\<close> marks as terminal, and the ones \<open>TASK_LOST\<close> stands for.\<close>

definition terminal :: "TaskState \<Rightarrow> bool" where
  "terminal s \<longleftrightarrow> s \<in> {TASK_FINISHED, TASK_FAILED, TASK_KILLED, TASK_ERROR, TASK_DROPPED, TASK_GONE}"

record TaskStatus =
  ts_task_id :: ID
  ts_state :: TaskState
  ts_message :: "string option"
  ts_slave_id :: "ID option"
  ts_executor_id :: "ID option"
  ts_timestamp :: "int option"
  ts_uuid :: "string option"
  ts_other :: string

record StatusUpdate =
  su_framework_id :: ID
  su_executor_id :: "ID option"
  su_slave_id :: "ID option"
  su_status :: TaskStatus
  su_timestamp :: int
  su_uuid :: "string option"

datatype Operation = LAUNCH "TaskInfo list" | OTHER_OPERATION string

definition empty_status :: TaskStatus where
  "empty_status =
     \<lparr>ts_task_id = None, ts_state = TASK_STAGING, ts_message = None, ts_slave_id = None,
      ts_executor_id = None, ts_timestamp = None, ts_uuid = None, ts_other = []\<rparr>"

definition empty_update :: StatusUpdate where
  "empty_update =
     \<lparr>su_framework_id = None, su_executor_id = None, su_slave_id = None, su_status = empty_status,
      su_timestamp = 0, su_uuid = None\<rparr>"

definition bytes_value :: "string option \<Rightarrow> string" where
  "bytes_value b = (case b of None \<Rightarrow> [] | Some v \<Rightarrow> v)"

text \<open>
  \<open>set_uuid((char *) uuid)\<close> takes the 16 raw bytes of a UUID for a C string: the field receives the
  bytes up to the first zero byte, and reads on into the memory behind the array when there is none.
  \<open>memory\<close> is the 16 bytes followed by what lies behind them.
\<close>

definition c_string :: "string \<Rightarrow> string" where
  "c_string memory = takeWhile (\<lambda>c. c \<noteq> CHR 0x00) memory"

subsection \<open>Facts\<close>

lemma id_value_merge [simp]:
  "id_value (merge_id to (Some v)) = v" "merge_id to None = to" "merge_id None i = i"
  by (auto simp: id_value_def merge_id_def split: option.splits)

lemma c_string_nul_free: "CHR 0x00 \<notin> set (c_string m)"
  by (auto simp: c_string_def dest: set_takeWhileD)

end
