(* ===== verification/Broker.thy ===== *)
theory Broker
  imports Url Maps Numbers
begin

text \<open>
  The redis message broker as the drivers see it (\<open>liburb/source/message_broker_redis.cpp\<close>): the
  connection state, the choice of server and port from the URL, and the channel of a driver.

  The redis client is not part of the sources. Its answer to an attempt to connect is a parameter:
  \<open>connect n (server, port, path, ha)\<close> is the endpoint number returned by the \<open>INCR\<close> of the \<open>n\<close>-th
  attempt, or \<open>None\<close> when the client throws.
\<close>

record broker =
  isRunning :: bool
  ha :: bool
  redisServer :: string
  redisPort :: int
  redisPath :: string
  endpointIdStr :: string
  attempts :: nat

type_synonym redis_connect = "nat \<Rightarrow> string \<times> int \<times> string \<times> bool \<Rightarrow> nat option"

datatype exn = Thrown | Completed

subsection \<open>Connecting\<close>

definition init_again :: "redis_connect \<Rightarrow> broker \<Rightarrow> broker \<times> exn" where
  "init_again connect b =
     (case connect (attempts b) (redisServer b, redisPort b, redisPath b, ha b) of
        None \<Rightarrow> (b\<lparr>attempts := Suc (attempts b)\<rparr>, Thrown)
      | Some _ \<Rightarrow> (b\<lparr>attempts := Suc (attempts b)\<rparr>, Completed))"

definition broker_connect :: "redis_connect \<Rightarrow> broker \<Rightarrow> broker \<times> exn" where
  "broker_connect connect b =
     (case connect (attempts b) (redisServer b, redisPort b, redisPath b, ha b) of
        None \<Rightarrow> (b\<lparr>attempts := Suc (attempts b)\<rparr>, Thrown)
      | Some endpointId \<Rightarrow>
          (b\<lparr>attempts := Suc (attempts b), endpointIdStr := ''urb.endpoint.'' @ show_nat endpointId,
             isRunning := True\<rparr>, Completed))"

definition setUrl :: "redis_connect \<Rightarrow> string \<Rightarrow> broker \<Rightarrow> broker \<times> exn" where
  "setUrl connect url b =
     (if isRunning b then init_again connect b
      else case parse_url url of
             Inl _ \<Rightarrow> (b, Completed)
           | Inr u \<Rightarrow>
               let b = b\<lparr>ha := url_ha u\<rparr>
               in if url_ha u
                  then broker_connect connect
                         (b\<lparr>redisServer := url_servers u, redisPort := 26379,
                            redisPath := substr_from (url_path u) 1\<rparr>)
                  else case find_last_of '':'' (url_servers u) of
                         None \<Rightarrow> broker_connect connect (b\<lparr>redisPort := 6379, redisServer := url_servers u\<rparr>)
                       | Some index \<Rightarrow>
                           let b = b\<lparr>redisServer := substr (url_servers u) 0 index\<rparr>
                           in case stoi (substr_from (url_servers u) (index + 1)) of
                                None \<Rightarrow> (b, Thrown)
                              | Some port \<Rightarrow> broker_connect connect (b\<lparr>redisPort := port\<rparr>))"

definition createChannel :: "string \<Rightarrow> broker \<Rightarrow> string" where
  "createChannel name b = endpointIdStr b @ ''.'' @ name"

definition broker_shutdown :: "broker \<Rightarrow> broker" where
  "broker_shutdown b = b\<lparr>isRunning := False\<rparr>"

definition broker_start :: broker where
  "broker_start =
     \<lparr>isRunning = False, ha = False, redisServer = [], redisPort = 0, redisPath = [],
      endpointIdStr = [], attempts = 0\<rparr>"

text \<open>A URL whose port, if it names one outside of HA, is a number.\<close>

definition usable :: "URL \<Rightarrow> bool" where
  "usable u \<longleftrightarrow> url_ha u \<or>
     (case find_last_of '':'' (url_servers u) of
        None \<Rightarrow> True
      | Some i \<Rightarrow> stoi (substr_from (url_servers u) (i + 1)) \<noteq> None)"

subsection \<open>Facts\<close>

lemma setUrl_running_mono: "isRunning b \<Longrightarrow> isRunning (fst (setUrl connect url b))"
  by (simp add: setUrl_def init_again_def split: option.splits)

lemma broker_connect_running:
  "broker_connect connect b = (b', Completed) \<Longrightarrow> isRunning b'"
  by (auto simp: broker_connect_def split: option.splits)

lemma setUrl_completed:
  assumes "setUrl connect url b = (b', Completed)" and "parse_url url = Inr u"
  shows "isRunning b'"
  using assms broker_connect_running
  by (auto simp: setUrl_def init_again_def Let_def split: if_splits option.splits)

lemma setUrl_bad_url:
  "parse_url url = Inl e \<Longrightarrow> \<not> isRunning b \<Longrightarrow> setUrl connect url b = (b, Completed)"
  by (simp add: setUrl_def)

lemma setUrl_attempt:
  assumes "parse_url url = Inr u" and "usable u" and "setUrl connect url b = (b', e)"
  shows "attempts b' = Suc (attempts b)"
    and "(\<And>a. connect (attempts b) a = None) \<Longrightarrow> e = Thrown"
    and "(\<And>a. connect (attempts b) a \<noteq> None) \<Longrightarrow> e = Completed \<and> isRunning b'"
proof -
  note defs = setUrl_def init_again_def broker_connect_def usable_def Let_def
  show "attempts b' = Suc (attempts b)" and "(\<And>a. connect (attempts b) a = None) \<Longrightarrow> e = Thrown"
    using assms by (auto simp: defs split: if_splits option.splits)
  assume some: "\<And>a. connect (attempts b) a \<noteq> None"
  define f where "f = (\<lambda>a. the (connect (attempts b) a))"
  have "connect (attempts b) a = Some (f a)" for a
    using some [of a] by (simp add: f_def)
  then show "e = Completed \<and> isRunning b'"
    using assms by (auto simp: defs split: if_splits option.splits)
qed

end
