(* ===== verification/Scheduler_Process.thy ===== *)
theory Scheduler_Process
  imports Messages Broker
begin

text \<open>
  The scheduler side of liburb: \<open>UrbSchedulerProcess\<close> and \<open>SchedulerNotifyCallback\<close>
  (\<open>liburb/source/scheduler_process.cpp\<close>, \<open>scheduler_process.hpp\<close>) and the driver call \<open>abort\<close> of
  \<open>sched.cpp\<close>, which a handler of the process makes.

  \<open>sys\<close> is one state for the driver, its process, the broker and the pending timers, with the output
  so far: messages handed to the master's queue, callbacks made to the framework, heartbeats.
  The fields of the process are meaningful once \<open>has_process\<close> holds. The channel pointer of the
  process is assigned with \<open>channelsCreated\<close>; before that a use of it is the failure \<open>WildChannel\<close>.

  A callback into the framework may call the driver again. Every handler therefore takes an argument
  \<open>sch\<close>, what the framework does to the state in a callback; the driver theory ties the knot.
  \<open>world\<close> gathers what the process takes from outside: the answers of redis, the memory a generated
  UUID occupies, the clock, and the environment variable with the submit options.
\<close>

record world =
  w_connect :: redis_connect
  w_uuid :: "nat \<Rightarrow> string"
  w_time :: "nat \<Rightarrow> int"
  w_job_submit_options :: "string option"

text \<open>Messages to the master, and the queue target each is sent under.\<close>

datatype mesos_msg =
    RegisterFrameworkMessage FrameworkInfo "string option"
  | ReregisterFrameworkMessage FrameworkInfo bool
  | StatusUpdateAcknowledgementMessage ID ID ID string
  | UnregisterFrameworkMessage ID
  | DeactivateFrameworkMessage ID
  | KillTaskMessage ID ID
  | ResourceRequestMessage ID "Request list"
  | LaunchTasksMessage ID "ID list" "TaskInfo list" Filters
  | ReviveOffersMessage ID
  | FrameworkToExecutorMessage ID ID ID string
  | ReconcileTasksMessage ID "TaskStatus list"

fun target :: "mesos_msg \<Rightarrow> string" where
  "target (RegisterFrameworkMessage _ _) = ''RegisterFrameworkMessage''"
| "target (ReregisterFrameworkMessage _ _) = ''ReregisterFrameworkMessage''"
| "target (StatusUpdateAcknowledgementMessage _ _ _ _) = ''StatusUpdateAcknowledgementMessage''"
| "target (UnregisterFrameworkMessage _) = ''UnregisterFrameworkMessage''"
| "target (DeactivateFrameworkMessage _) = ''DeactivateFrameworkMessage''"
| "target (KillTaskMessage _ _) = ''KillTaskMessage''"
| "target (ResourceRequestMessage _ _) = ''ResourceRequestMessage''"
| "target (LaunchTasksMessage _ _ _ _) = ''LaunchTasksMessage''"
| "target (ReviveOffersMessage _) = ''ReviveOffersMessage''"
| "target (FrameworkToExecutorMessage _ _ _ _) = ''FrameworkToExecutorMessage''"
| "target (ReconcileTasksMessage _ _) = ''ReconcileTasksMessage''"

text \<open>The callbacks of the \<open>Scheduler\<close> interface the process makes.\<close>

datatype sched_cb =
    CbRegistered ID MasterInfo
  | CbReregistered MasterInfo
  | CbResourceOffers "Offer list"
  | CbOfferRescinded ID
  | CbStatusUpdate TaskStatus
  | CbSlaveLost ID
  | CbFrameworkMessage ID ID string
  | CbError string

datatype timer = RegistrationTimer | ReconcileTimer | HeartbeatTimer

datatype effect =
    Sent string mesos_msg
  | Callback sched_cb
  | Listen string
  | Heartbeat string string

record sys =
  status :: Status
  d_framework :: FrameworkInfo
  d_master :: string
  implicitAcknowledgements :: bool
  has_process :: bool
  broker :: broker
  channelsCreated :: bool
  notifyChannel :: string
  heartbeat :: "(string \<times> string) option"
  framework :: FrameworkInfo
  failover :: bool
  master :: string
  connected :: bool
  aborted :: bool
  savedSlavePids :: "(string, UPID) std_map"
  activeTasks :: "(string, TaskState) std_map"
  pending :: "(timer \<times> nat) list"
  trace :: "effect list"
  draws :: nat

type_synonym callback = "sched_cb \<Rightarrow> sys \<Rightarrow> sys outcome"

definition framework_id :: "sys \<Rightarrow> ID" where
  "framework_id s = opt_id (fi_id (framework s))"

definition emit :: "effect \<Rightarrow> sys \<Rightarrow> sys" where
  "emit e s = s\<lparr>trace := trace s @ [e]\<rparr>"

definition delay :: "timer \<Rightarrow> nat \<Rightarrow> sys \<Rightarrow> sys" where
  "delay t seconds s = s\<lparr>pending := pending s @ [(t, seconds)]\<rparr>"

text \<open>A callback is recorded and then runs the framework's code.\<close>

definition invoke :: "callback \<Rightarrow> sched_cb \<Rightarrow> sys \<Rightarrow> sys outcome" where
  "invoke sch cb s = sch cb (emit (Callback cb) s)"

subsection \<open>Channels and messages\<close>

text \<open>
  \<open>Sent\<close> records that the channel issues the write to redis. \<open>RedisChannel::write\<close> catches every exception of the
  redis client and only logs it, so a failed write changes nothing in the library: the message is
  lost, and neither the process nor the framework learns of it.
\<close>

definition channel_write :: "mesos_msg \<Rightarrow> sys \<Rightarrow> sys" where
  "channel_write m s = (if isRunning (broker s) then emit (Sent (target m) m) s else s)"

definition sendMessage :: "mesos_msg \<Rightarrow> sys \<Rightarrow> sys outcome" where
  "sendMessage m s = (if channelsCreated s then Inr (channel_write m s) else Inl WildChannel)"

definition sendRegister :: "world \<Rightarrow> FrameworkInfo \<Rightarrow> sys \<Rightarrow> sys outcome" where
  "sendRegister w f = sendMessage (RegisterFrameworkMessage f (w_job_submit_options w))"

definition createChannels :: "sys \<Rightarrow> sys" where
  "createChannels s =
     (let s = (if \<not> channelsCreated s
               then s\<lparr>notifyChannel := createChannel ''notify'' (broker s), channelsCreated := True\<rparr>
               else s)
      in emit (Listen (notifyChannel s)) s)"

definition startHeartbeat :: "ID \<Rightarrow> sys \<Rightarrow> sys outcome" where
  "startHeartbeat frameworkId s =
     (if channelsCreated s
      then Inr (delay HeartbeatTimer 60
                 (s\<lparr>heartbeat := Some (notifyChannel s, id_value frameworkId)\<rparr>))
      else Inl WildChannel)"

definition sendHeartbeat :: "sys \<Rightarrow> sys" where
  "sendHeartbeat s =
     (case heartbeat s of
        None \<Rightarrow> s
      | Some (channel, fid) \<Rightarrow> delay HeartbeatTimer 60 (emit (Heartbeat channel fid) s))"

subsection \<open>Registration\<close>

definition new_process :: "FrameworkInfo \<Rightarrow> string \<Rightarrow> sys \<Rightarrow> sys" where
  "new_process f m s =
     delay ReconcileTimer 60
       (s\<lparr>has_process := True, channelsCreated := False, notifyChannel := [], heartbeat := None,
          framework := f, failover := (fi_id f \<noteq> None \<and> id_value (opt_id (fi_id f)) \<noteq> []),
          master := m, connected := False, aborted := False, savedSlavePids := [], activeTasks := []\<rparr>)"

definition startRegistration :: "sys \<Rightarrow> sys" where
  "startRegistration s = delay RegistrationTimer 0 s"

definition doReliableRegistration :: "world \<Rightarrow> sys \<Rightarrow> sys outcome" where
  "doReliableRegistration w s =
     (if connected s \<or> master s = [] then Inr s
      else if aborted s then Inr (s\<lparr>aborted := False, connected := True\<rparr>)
      else case setUrl (w_connect w) (master s) (broker s) of
             (b, Thrown) \<Rightarrow> Inr (delay RegistrationTimer 1 (s\<lparr>broker := b\<rparr>))
           | (b, Completed) \<Rightarrow>
               let s = createChannels (s\<lparr>broker := b\<rparr>)
               in if (fi_id (framework s) = None \<or> id_value (framework_id s) = []) \<or> failover s
                  then sendRegister w (framework s) s
                  else sendMessage (ReregisterFrameworkMessage (framework s) (failover s)) s)"

definition registered :: "callback \<Rightarrow> UPID \<Rightarrow> ID \<Rightarrow> MasterInfo \<Rightarrow> sys \<Rightarrow> sys outcome" where
  "registered sch from frameworkId masterInfo s =
     (if aborted s then Inr s
      else if connected s then Inr s
      else if master s \<noteq> from then Inr s
      else let s = s\<lparr>framework := (framework s)\<lparr>fi_id := Some (merge_id (framework_id s) frameworkId)\<rparr>,
                     connected := True, failover := False\<rparr>
           in andThen (startHeartbeat frameworkId s) (invoke sch (CbRegistered frameworkId masterInfo)))"

definition reregistered :: "callback \<Rightarrow> UPID \<Rightarrow> ID \<Rightarrow> MasterInfo \<Rightarrow> sys \<Rightarrow> sys outcome" where
  "reregistered sch from frameworkId masterInfo s =
     (if aborted s then Inr s
      else if connected s then Inr s
      else if master s \<noteq> from then Inr s
      else require (id_value (framework_id s) = id_value frameworkId)
             (let s = s\<lparr>connected := True, failover := False\<rparr>
              in andThen (startHeartbeat frameworkId s) (invoke sch (CbReregistered masterInfo))))"

subsection \<open>Messages from the master\<close>

definition resourceOffers :: "callback \<Rightarrow> UPID \<Rightarrow> Offer list \<Rightarrow> sys \<Rightarrow> sys outcome" where
  "resourceOffers sch from offers s =
     (if aborted s then Inr s
      else if \<not> connected s then Inr s
      else require (master s \<noteq> [])
             (if from \<noteq> master s then Inr s
              else invoke sch (CbResourceOffers offers) s))"

definition rescindOffer :: "callback \<Rightarrow> UPID \<Rightarrow> ID \<Rightarrow> sys \<Rightarrow> sys outcome" where
  "rescindOffer sch from offerId s =
     (if aborted s then Inr s
      else if \<not> connected s then Inr s
      else require (master s \<noteq> [])
             (if from \<noteq> master s then Inr s
              else invoke sch (CbOfferRescinded offerId) s))"

definition statusUpdateAcknowledgement :: "StatusUpdate \<Rightarrow> sys \<Rightarrow> sys outcome" where
  "statusUpdateAcknowledgement update s =
     (if aborted s then Inr s
      else sendMessage
             (StatusUpdateAcknowledgementMessage (framework_id s)
                (case su_slave_id update of Some i \<Rightarrow> i | None \<Rightarrow> opt_id (ts_slave_id (su_status update)))
                (ts_task_id (su_status update)) (bytes_value (su_uuid update))) s)"

definition trackTask :: "TaskStatus \<Rightarrow> sys \<Rightarrow> sys" where
  "trackTask st s =
     (case ts_state st of
        TASK_FINISHED \<Rightarrow> s\<lparr>activeTasks := map_erase (id_value (ts_task_id st)) (activeTasks s)\<rparr>
      | TASK_FAILED \<Rightarrow> s\<lparr>activeTasks := map_erase (id_value (ts_task_id st)) (activeTasks s)\<rparr>
      | TASK_KILLED \<Rightarrow> s\<lparr>activeTasks := map_erase (id_value (ts_task_id st)) (activeTasks s)\<rparr>
      | TASK_LOST \<Rightarrow> s\<lparr>activeTasks := map_erase (id_value (ts_task_id st)) (activeTasks s)\<rparr>
      | _ \<Rightarrow> s\<lparr>activeTasks := map_assign (id_value (ts_task_id st)) (ts_state st) (activeTasks s)\<rparr>)"

definition statusUpdate :: "callback \<Rightarrow> UPID \<Rightarrow> StatusUpdate \<Rightarrow> sys \<Rightarrow> sys outcome" where
  "statusUpdate sch from update s =
     (if aborted s then Inr s
      else if from \<noteq> [] \<and> \<not> connected s then Inr s
      else require (from \<noteq> [] \<longrightarrow> master s \<noteq> [])
             (if from \<noteq> [] \<and> from \<noteq> master s then Inr s
              else require (id_value (framework_id s) = id_value (su_framework_id update))
                     (andThen (invoke sch (CbStatusUpdate (su_status update)) s)
                       (\<lambda>s. andThen (statusUpdateAcknowledgement update s)
                         (\<lambda>s. Inr (trackTask (su_status update) s))))))"

definition lostSlave :: "callback \<Rightarrow> UPID \<Rightarrow> ID \<Rightarrow> sys \<Rightarrow> sys outcome" where
  "lostSlave sch from slaveId s =
     (if aborted s then Inr s
      else if \<not> connected s then Inr s
      else require (master s \<noteq> [])
             (if from \<noteq> master s then Inr s
              else invoke sch (CbSlaveLost slaveId)
                     (s\<lparr>savedSlavePids := map_erase (id_value slaveId) (savedSlavePids s)\<rparr>)))"

definition frameworkMessage :: "callback \<Rightarrow> ID \<Rightarrow> ID \<Rightarrow> string \<Rightarrow> sys \<Rightarrow> sys outcome" where
  "frameworkMessage sch slaveId executorId data s =
     (if aborted s then Inr s
      else invoke sch (CbFrameworkMessage executorId slaveId data) s)"

subsection \<open>Stopping and aborting\<close>

definition stop :: "bool \<Rightarrow> sys \<Rightarrow> sys outcome" where
  "stop fo s =
     (if connected s \<and> \<not> fo
      then require (master s \<noteq> [])
             (andThen (sendMessage (UnregisterFrameworkMessage (framework_id s)) s)
               (\<lambda>s. Inr (s\<lparr>connected := False\<rparr>)))
      else Inr s)"

definition abort :: "sys \<Rightarrow> sys outcome" where
  "abort s =
     (if \<not> connected s then Inr s
      else require (master s \<noteq> [])
             (andThen (sendMessage (DeactivateFrameworkMessage (framework_id s)) s)
               (\<lambda>s. Inr (s\<lparr>connected := False, aborted := True\<rparr>))))"

definition driver_abort :: "sys \<Rightarrow> sys outcome" where
  "driver_abort s =
     (if status s = DRIVER_RUNNING
      then require (has_process s) (andThen (abort s) (\<lambda>s. Inr (s\<lparr>status := DRIVER_ABORTED\<rparr>)))
      else Inr s)"

definition error :: "callback \<Rightarrow> string \<Rightarrow> sys \<Rightarrow> sys outcome" where
  "error sch message s =
     (if aborted s then Inr s
      else andThen (driver_abort s) (invoke sch (CbError message)))"

subsection \<open>Requests of the framework\<close>

text \<open>The requests that are dropped while disconnected and otherwise send one message.\<close>

definition request :: "mesos_msg \<Rightarrow> sys \<Rightarrow> sys outcome" where
  "request m s = (if \<not> connected s then Inr s else require (master s \<noteq> []) (sendMessage m s))"

definition killTask :: "ID \<Rightarrow> sys \<Rightarrow> sys outcome" where
  "killTask taskId s = request (KillTaskMessage (framework_id s) taskId) s"

definition requestResources :: "Request list \<Rightarrow> sys \<Rightarrow> sys outcome" where
  "requestResources requests s = request (ResourceRequestMessage (framework_id s) requests) s"

definition reviveOffers :: "sys \<Rightarrow> sys outcome" where
  "reviveOffers s = request (ReviveOffersMessage (framework_id s)) s"

definition sendFrameworkMessage :: "ID \<Rightarrow> ID \<Rightarrow> string \<Rightarrow> sys \<Rightarrow> sys outcome" where
  "sendFrameworkMessage executorId slaveId data s =
     request (FrameworkToExecutorMessage slaveId (framework_id s) executorId data) s"

definition reconcileTasks :: "TaskStatus list \<Rightarrow> sys \<Rightarrow> sys outcome" where
  "reconcileTasks statuses s = request (ReconcileTasksMessage (framework_id s) statuses) s"

definition acknowledgeStatusUpdate :: "TaskStatus \<Rightarrow> sys \<Rightarrow> sys outcome" where
  "acknowledgeStatusUpdate st s =
     (if \<not> connected s then Inr s
      else require (master s \<noteq> [])
             (case (ts_uuid st, ts_slave_id st) of
                (Some uuid, Some slave) \<Rightarrow>
                  sendMessage (StatusUpdateAcknowledgementMessage (framework_id s) slave (ts_task_id st) uuid) s
              | _ \<Rightarrow> Inr s))"

subsection \<open>Launching tasks\<close>

datatype lost_reason =
    MasterDisconnected
  | ExecutorAndCommand
  | InvalidFrameworkID string string

definition lost_message :: "lost_reason \<Rightarrow> string" where
  "lost_message r =
     (case r of
        MasterDisconnected \<Rightarrow> ''Master Disconnected''
      | ExecutorAndCommand \<Rightarrow>
          ''TaskInfo must have either an '' @ [CHR 0x27] @ ''executor'' @ [CHR 0x27] @ '' or a '' @
          [CHR 0x27] @ ''command'' @ [CHR 0x27]
      | InvalidFrameworkID actual expected \<Rightarrow>
          ''ExecutorInfo has an invalid FrameworkID (Actual: '' @ actual @ '' vs Expected: '' @
          expected @ '')'')"

definition lost_update :: "world \<Rightarrow> TaskInfo \<Rightarrow> lost_reason \<Rightarrow> sys \<Rightarrow> StatusUpdate" where
  "lost_update w task reason s =
     empty_update\<lparr>su_framework_id := framework_id s,
       su_status := empty_status\<lparr>ts_task_id := ti_task_id task, ts_state := TASK_LOST,
                                  ts_message := Some (lost_message reason)\<rparr>,
       su_timestamp := w_time w (draws s), su_uuid := Some (c_string (w_uuid w (draws s)))\<rparr>"

definition report_lost :: "world \<Rightarrow> callback \<Rightarrow> lost_reason \<Rightarrow> TaskInfo \<Rightarrow> sys \<Rightarrow> sys outcome" where
  "report_lost w sch reason task s =
     statusUpdate sch [] (lost_update w task reason s) (s\<lparr>draws := Suc (draws s)\<rparr>)"

definition prepare_task :: "sys \<Rightarrow> TaskInfo \<Rightarrow> TaskInfo" where
  "prepare_task s task =
     (let copy =
        (case ti_executor task of
           Some e \<Rightarrow> (if ei_framework_id e = None
                     then task\<lparr>ti_executor := Some (e\<lparr>ei_framework_id := Some (framework_id s)\<rparr>)\<rparr>
                     else task)
         | None \<Rightarrow> task)
      in if ti_labels copy = Some [] then copy\<lparr>ti_labels := None\<rparr> else copy)"

definition task_error :: "sys \<Rightarrow> TaskInfo \<Rightarrow> lost_reason option" where
  "task_error s task =
     (if (ti_executor task \<noteq> None) = (ti_command task \<noteq> None) then Some ExecutorAndCommand
      else case ti_executor task of
             Some e \<Rightarrow>
               (case ei_framework_id e of
                  Some fid \<Rightarrow>
                    if id_value fid \<noteq> id_value (framework_id s)
                    then Some (InvalidFrameworkID (id_value fid) (id_value (framework_id s))) else None
                | None \<Rightarrow> None)
           | None \<Rightarrow> None)"

fun launch_loop :: "world \<Rightarrow> callback \<Rightarrow> TaskInfo list \<Rightarrow> TaskInfo list \<Rightarrow> sys \<Rightarrow> (sys \<times> TaskInfo list) outcome" where
  "launch_loop w sch result [] s = Inr (s, result)"
| "launch_loop w sch result (task # tasks) s =
     (case task_error s task of
        Some reason \<Rightarrow> andThen (report_lost w sch reason task s) (launch_loop w sch result tasks)
      | None \<Rightarrow>
          launch_loop w sch (result @ [prepare_task s task]) tasks
            (s\<lparr>activeTasks := map_assign (id_value (ti_task_id task)) TASK_STAGING (activeTasks s)\<rparr>))"

definition launchTasks ::
    "world \<Rightarrow> callback \<Rightarrow> ID list \<Rightarrow> TaskInfo list \<Rightarrow> Filters \<Rightarrow> sys \<Rightarrow> sys outcome" where
  "launchTasks w sch offerIds tasks filters s =
     (if \<not> connected s then foldOutcome (report_lost w sch MasterDisconnected) tasks s
      else andThen (launch_loop w sch [] tasks s)
             (\<lambda>(s, result).
                require (master s \<noteq> [])
                  (sendMessage (LaunchTasksMessage (framework_id s) offerIds result filters) s)))"

fun acceptOffers ::
    "world \<Rightarrow> callback \<Rightarrow> ID list \<Rightarrow> Operation list \<Rightarrow> Filters \<Rightarrow> sys \<Rightarrow> sys outcome" where
  "acceptOffers w sch offerIds [] filters s = Inr s"
| "acceptOffers w sch offerIds (LAUNCH tasks # operations) filters s =
     andThen (launchTasks w sch offerIds tasks filters s) (acceptOffers w sch offerIds operations filters)"
| "acceptOffers w sch offerIds (OTHER_OPERATION _ # operations) filters s =
     acceptOffers w sch offerIds operations filters s"

subsection \<open>Automatic reconciliation\<close>

definition staging_status :: "string \<Rightarrow> TaskStatus" where
  "staging_status task = empty_status\<lparr>ts_task_id := Some task, ts_state := TASK_STAGING\<rparr>"

definition checkReconcile :: "sys \<Rightarrow> sys outcome" where
  "checkReconcile s =
     (let statuses = map (\<lambda>(task, state). staging_status task)
                       (filter (\<lambda>(task, state). state = TASK_STAGING) (activeTasks s))
      in andThen (if length statuses > 0 then reconcileTasks statuses s else Inr s)
           (\<lambda>s. Inr (delay ReconcileTimer 60 s)))"

subsection \<open>Dispatch of incoming messages\<close>

datatype Messages =
    FRAMEWORK_REGISTERED | FRAMEWORK_REREGISTERED | RESOURCE_OFFERS | RESCIND_RESOURCE_OFFER
  | STATUS_UPDATE | LOST_SLAVE | EXECUTOR_TO_FRAMEWORK | FRAMEWORK_ERROR | SERVICE_DISCONNECTED

definition messages :: "(string \<times> Messages) list" where
  "messages =
     [(''FrameworkRegisteredMessage'', FRAMEWORK_REGISTERED),
      (''FrameworkReregisteredMessage'', FRAMEWORK_REREGISTERED),
      (''ResourceOffersMessage'', RESOURCE_OFFERS),
      (''ExecutorToFrameworkMessage'', EXECUTOR_TO_FRAMEWORK),
      (''StatusUpdateMessage'', STATUS_UPDATE),
      (''RescindResourceOfferMessage'', RESCIND_RESOURCE_OFFER),
      (''LostSlaveMessage'', LOST_SLAVE),
      (''FrameworkErrorMessage'', FRAMEWORK_ERROR),
      (''ServiceDisconnectedMessage'', SERVICE_DISCONNECTED)]"

text \<open>
  A message from the broker: the loss of the connection, or a target and a payload. The fields the
  dispatcher decodes from the payload are collected in one record; a message leaves the fields of
  the other kinds at their defaults.
\<close>

record payload =
  p_framework_id :: ID
  p_master_info :: MasterInfo
  p_message :: string
  p_slave_id :: ID
  p_offer_id :: ID
  p_offers :: "Offer list"
  p_executor_id :: ID
  p_data :: string
  p_update :: StatusUpdate

definition empty_payload :: payload where
  "empty_payload =
     \<lparr>p_framework_id = None, p_master_info = [], p_message = [], p_slave_id = None, p_offer_id = None,
      p_offers = [], p_executor_id = None, p_data = [], p_update = empty_update\<rparr>"

datatype in_msg = ErrorMessage | InMessage string payload

definition onInput :: "callback \<Rightarrow> in_msg \<Rightarrow> sys \<Rightarrow> sys outcome" where
  "onInput sch message s =
     (case message of
        ErrorMessage \<Rightarrow> Inr (startRegistration (s\<lparr>connected := False\<rparr>))
      | InMessage tgt p \<Rightarrow>
          (case map_of messages tgt of
             None \<Rightarrow> Inr s
           | Some kind \<Rightarrow>
               (case kind of
                  FRAMEWORK_REGISTERED \<Rightarrow> registered sch (master s) (p_framework_id p) (p_master_info p) s
                | FRAMEWORK_REREGISTERED \<Rightarrow> reregistered sch (master s) (p_framework_id p) (p_master_info p) s
                | FRAMEWORK_ERROR \<Rightarrow> error sch (p_message p) s
                | LOST_SLAVE \<Rightarrow> lostSlave sch (master s) (p_slave_id p) s
                | RESCIND_RESOURCE_OFFER \<Rightarrow> rescindOffer sch (master s) (p_offer_id p) s
                | RESOURCE_OFFERS \<Rightarrow> resourceOffers sch (master s) (p_offers p) s
                | EXECUTOR_TO_FRAMEWORK \<Rightarrow>
                    frameworkMessage sch (p_slave_id p) (p_executor_id p) (p_data p) s
                | STATUS_UPDATE \<Rightarrow> statusUpdate sch (master s) (p_update p) s
                | SERVICE_DISCONNECTED \<Rightarrow>
                    sendMessage (ReregisterFrameworkMessage (framework s) (failover s)) s)))"

subsection \<open>Invariant\<close>

definition sched_inv :: "sys \<Rightarrow> bool" where
  "sched_inv s \<longleftrightarrow>
     (has_process s \<longleftrightarrow> status s \<noteq> DRIVER_NOT_STARTED) \<and>
     (connected s \<longrightarrow> channelsCreated s \<and> \<not> aborted s) \<and>
     (aborted s \<longrightarrow> channelsCreated s) \<and>
     (connected s \<or> aborted s \<longrightarrow> isRunning (broker s)) \<and>
     (channelsCreated s \<longrightarrow> status s \<noteq> DRIVER_NOT_STARTED \<and> master s \<noteq> []) \<and>
     (pending s \<noteq> [] \<longrightarrow> status s \<noteq> DRIVER_NOT_STARTED) \<and>
     map_sorted (activeTasks s)"

text \<open>
  What a driver call, and so a callback of the framework, leaves as it was: the framework, the master,
  the broker and its channel. It can abort and disconnect the process but neither revive nor
  connect it, and it adds to the output.
\<close>

definition only_ack :: "effect \<Rightarrow> bool" where
  "only_ack e \<longleftrightarrow> (case e of Sent tgt _ \<Rightarrow> tgt = ''StatusUpdateAcknowledgementMessage'' | _ \<Rightarrow> True)"

definition adds :: "sys \<Rightarrow> effect list \<Rightarrow> sys \<Rightarrow> bool" where
  "adds s d s' \<longleftrightarrow> trace s' = trace s @ d \<and> (connected s \<or> list_all only_ack d)"

definition frame :: "sys \<Rightarrow> sys \<Rightarrow> bool" where
  "frame s s' \<longleftrightarrow>
     framework s' = framework s \<and> master s' = master s \<and> broker s' = broker s \<and>
     channelsCreated s' = channelsCreated s \<and> has_process s' = has_process s \<and>
     (aborted s \<longrightarrow> aborted s') \<and> (connected s' \<longrightarrow> connected s) \<and> (\<exists>d. adds s d s')"

definition live :: "sys \<Rightarrow> bool" where
  "live s \<longleftrightarrow> has_process s \<and> sched_inv s"

definition good :: "sys \<Rightarrow> sys \<Rightarrow> bool" where
  "good s s' \<longleftrightarrow> live s' \<and> frame s s'"

lemma live_iff:
  "live s \<longleftrightarrow> has_process s \<and> status s \<noteq> DRIVER_NOT_STARTED \<and> map_sorted (activeTasks s) \<and>
     (channelsCreated s \<longrightarrow> master s \<noteq> []) \<and>
     (connected s \<longrightarrow> channelsCreated s \<and> isRunning (broker s) \<and> \<not> aborted s) \<and>
     (aborted s \<longrightarrow> channelsCreated s \<and> isRunning (broker s))"
  by (auto simp: live_def sched_inv_def)

lemma good_same:
  assumes "live s" and "has_process s' = has_process s" and "status s' = status s"
    and "map_sorted (activeTasks s')" and "channelsCreated s' = channelsCreated s"
    and "master s' = master s" and "connected s' = connected s" and "aborted s' = aborted s"
    and "broker s' = broker s" and "framework s' = framework s" and "trace s' = trace s"
  shows "good s s'"
proof -
  have "adds s [] s'" using assms by (simp add: adds_def)
  then show ?thesis using assms unfolding good_def frame_def by (auto simp: live_iff)
qed

lemma adds_Nil [simp]: "adds s [] s' \<longleftrightarrow> trace s' = trace s"
  by (simp add: adds_def)

lemma adds_trans:
  "adds s d t \<Longrightarrow> adds t d' r \<Longrightarrow> (connected t \<longrightarrow> connected s) \<Longrightarrow> adds s (d @ d') r"
  by (auto simp: adds_def)

lemma frame_refl [simp]: "frame s s"
  by (auto simp: frame_def intro: exI [of _ "[]"])

lemma frame_trans: "frame s t \<Longrightarrow> frame t r \<Longrightarrow> frame s r"
  unfolding frame_def by (auto intro: adds_trans)

lemma good_trans: "good s t \<Longrightarrow> good t r \<Longrightarrow> good s r"
  by (auto simp: good_def intro: frame_trans)

lemma safe_good_trans: "safe r (good t) \<Longrightarrow> good s t \<Longrightarrow> safe r (good s)"
  by (erule safe_mono) (rule good_trans)

lemma framework_id_frame: "frame s s' \<Longrightarrow> framework_id s' = framework_id s"
  by (simp add: frame_def framework_id_def)

text \<open>The fields of the state after the elementary steps.\<close>

lemmas step_defs = emit_def delay_def channel_write_def

lemma emit_live: "live s \<Longrightarrow> live (emit e s)"
  by (simp add: emit_def live_iff)

lemma emit_good: "good s t \<Longrightarrow> connected s \<or> only_ack e \<Longrightarrow> good s (emit e t)"
proof -
  assume g: "good s t" and e: "connected s \<or> only_ack e"
  then obtain d where "adds s d t" by (auto simp: good_def frame_def)
  with e have "adds s (d @ [e]) (emit e t)" by (auto simp: adds_def emit_def)
  with g show "good s (emit e t)" by (auto simp: good_def frame_def live_iff emit_def)
qed

lemma sendMessage_live: "live s \<Longrightarrow> safe (sendMessage m s) live"
  by (simp add: sendMessage_def channel_write_def emit_live)

lemma sendMessage_good:
  "good s t \<Longrightarrow> connected s \<or> target m = ''StatusUpdateAcknowledgementMessage'' \<Longrightarrow>
    safe (sendMessage m t) (good s)"
  using emit_good [of s t "Sent (target m) m"]
  by (simp add: sendMessage_def channel_write_def only_ack_def)

lemma good_refl: "live s \<Longrightarrow> good s s"
  by (simp add: good_def)

lemma request_good: "live s \<Longrightarrow> safe (request m s) (good s)"
  using sendMessage_good [OF good_refl, of s m] by (auto simp: request_def good_refl live_iff)

lemma requests_good:
  assumes "live s"
  shows "safe (killTask i s) (good s)" "safe (requestResources rs s) (good s)"
    "safe (reviveOffers s) (good s)" "safe (sendFrameworkMessage e i d s) (good s)"
    "safe (reconcileTasks sts s) (good s)"
  using assms by (simp_all add: request_good killTask_def requestResources_def reviveOffers_def
      sendFrameworkMessage_def reconcileTasks_def)

lemma acknowledgeStatusUpdate_good: "live s \<Longrightarrow> safe (acknowledgeStatusUpdate st s) (good s)"
  using sendMessage_good [OF good_refl, of s]
  by (auto simp: acknowledgeStatusUpdate_def good_refl live_iff split: option.splits)

lemma status_good: "good s t \<Longrightarrow> st \<noteq> DRIVER_NOT_STARTED \<Longrightarrow> good s (t\<lparr>status := st\<rparr>)"
  by (auto simp: good_def live_iff frame_def adds_def)

lemma disconnect_good:
  "good s t \<Longrightarrow> good s (t\<lparr>connected := False\<rparr>)"
  "good s t \<Longrightarrow> channelsCreated s \<and> isRunning (broker s) \<Longrightarrow> good s (t\<lparr>connected := False, aborted := True\<rparr>)"
  by (auto simp: good_def frame_def live_iff adds_def)

lemma stop_good:
  assumes "live s"
  shows "safe (stop fo s) (good s)"
  using safe_mono [OF sendMessage_good [OF good_refl [OF assms]] disconnect_good(1)] assms
  by (auto simp: stop_def good_refl live_iff)

lemma abort_good:
  assumes "live s"
  shows "safe (abort s) (good s)"
proof (cases "connected s")
  case True
  then have c: "channelsCreated s \<and> isRunning (broker s)" "master s \<noteq> []" using assms by (auto simp: live_iff)
  have "safe (sendMessage m s) (good s)" for m using sendMessage_good [OF good_refl [OF assms]] True by simp
  from safe_mono [OF this disconnect_good(2) [OF _ c(1)]] True c show ?thesis by (simp add: abort_def)
qed (simp add: abort_def good_refl assms)

lemma driver_abort_good:
  assumes "live s"
  shows "safe (driver_abort s) (good s)"
  using safe_mono [OF abort_good [OF assms] status_good [of s _ DRIVER_ABORTED]] assms
  by (simp add: driver_abort_def good_refl live_def)

lemma statusUpdateAcknowledgement_good:
  "live s \<Longrightarrow> safe (statusUpdateAcknowledgement u s) (good s)"
  using sendMessage_good [OF good_refl, of s] by (auto simp: statusUpdateAcknowledgement_def good_refl)

lemma trackTask_good: "live s \<Longrightarrow> good s (trackTask st s)"
  by (rule good_same)
    (simp_all add: trackTask_def live_iff smap.inv_put smap.inv_del split: TaskState.splits)

text \<open>
  The contract of a callback: started in a state that satisfies the invariant, the framework's code
  fails no check, keeps the invariant, and changes nothing but what a driver call may change.
\<close>

locale callback_contract =
  fixes sch :: callback
  assumes sch_good: "live s \<Longrightarrow> safe (sch cb s) (good s)"
begin

lemma invoke_good: "live s \<Longrightarrow> safe (invoke sch cb s) (good s)"
proof -
  assume "live s"
  then have "good s (emit (Callback cb) s)" by (intro emit_good good_refl) (simp_all add: only_ack_def)
  then show ?thesis
    using sch_good [of "emit (Callback cb) s" cb] by (auto simp: invoke_def good_def intro: safe_good_trans)
qed

lemma statusUpdate_good:
  assumes "live s" and "id_value (framework_id s) = id_value (su_framework_id u)"
  shows "safe (statusUpdate sch from u s) (good s)"
proof -
  have "safe (invoke sch cb s) (\<lambda>t. safe (statusUpdateAcknowledgement u t)
      (\<lambda>r. good s (trackTask (su_status u) r)))" for cb
  proof (rule safe_mono [OF invoke_good [OF assms(1)]])
    fix t
    assume t: "good s t"
    then have "safe (statusUpdateAcknowledgement u t) (good t)"
      by (simp add: statusUpdateAcknowledgement_good good_def)
    then show "safe (statusUpdateAcknowledgement u t) (\<lambda>r. good s (trackTask (su_status u) r))"
      by (rule safe_mono) (meson good_def good_trans t trackTask_good)
  qed
  then show ?thesis using assms by (auto simp: statusUpdate_def good_def live_iff)
qed

lemma report_lost_good: "live s \<Longrightarrow> safe (report_lost w sch reason task s) (good s)"
proof -
  assume inv: "live s"
  let ?s = "s\<lparr>draws := Suc (draws s)\<rparr>"
  have "good s ?s" using inv by (intro good_same) (simp_all add: live_iff)
  moreover have "safe (statusUpdate sch [] (lost_update w task reason s) ?s) (good ?s)"
    using \<open>good s ?s\<close> by (intro statusUpdate_good) (simp_all add: good_def lost_update_def framework_id_def)
  ultimately show ?thesis by (simp add: report_lost_def safe_good_trans)
qed

lemma launch_loop_good:
  assumes "live s"
  shows "safe (launch_loop w sch result tasks s) (\<lambda>(t, r). good s t)"
  using assms
proof (induction tasks arbitrary: s result)
  case Nil
  then show ?case by (simp add: good_def)
next
  case (Cons task tasks)
  show ?case
  proof (cases "task_error s task")
    case None
    let ?s = "s\<lparr>activeTasks := map_assign (id_value (ti_task_id task)) TASK_STAGING (activeTasks s)\<rparr>"
    have g: "good s ?s" using Cons.prems by (intro good_same) (simp_all add: live_iff smap.inv_put)
    then have "safe (launch_loop w sch (result @ [prepare_task s task]) tasks ?s) (\<lambda>(t, r). good ?s t)"
      by (intro Cons.IH) (simp add: good_def)
    then show ?thesis using None g by (auto elim!: safe_mono intro: good_trans)
  next
    case (Some reason)
    have "safe (report_lost w sch reason task s) (\<lambda>t. safe (launch_loop w sch result tasks t) (\<lambda>(q, r). good s q))"
    proof (rule safe_mono [OF report_lost_good [OF Cons.prems]])
      fix t
      assume t: "good s t"
      then show "safe (launch_loop w sch result tasks t) (\<lambda>(q, r). good s q)"
        using Cons.IH [of t result] by (auto simp: good_def elim!: safe_mono intro: frame_trans)
    qed
    then show ?thesis using Some by simp
  qed
qed

lemma launchTasks_good:
  assumes "live s"
  shows "safe (launchTasks w sch offerIds tasks filters s) (good s)"
proof (cases "connected s")
  case False
  have "safe (foldOutcome (report_lost w sch MasterDisconnected) tasks s) (good s)"
  proof (rule safe_foldOutcome)
    fix task t
    assume "good s t"
    then show "safe (report_lost w sch MasterDisconnected task t) (good s)"
      by (intro safe_good_trans [OF report_lost_good]) (simp_all add: good_def)
  qed (use assms in \<open>simp add: good_def\<close>)
  with False show ?thesis by (simp add: launchTasks_def)
next
  case True
  then have m: "master s \<noteq> []" using assms by (simp add: live_iff)
  have "master t \<noteq> [] \<and> safe (sendMessage (LaunchTasksMessage (framework_id t) offerIds r filters) t) (good s)"
    if "good s t" for t r
    using that m True sendMessage_good [OF that] by (auto simp: good_def frame_def)
  then have "safe (launch_loop w sch [] tasks s) (\<lambda>(t, r). master t \<noteq> [] \<and>
      safe (sendMessage (LaunchTasksMessage (framework_id t) offerIds r filters) t) (good s))"
    by (intro safe_mono [OF launch_loop_good [OF assms]]) auto
  with True show ?thesis by (simp add: launchTasks_def case_prod_unfold)
qed

lemma acceptOffers_good:
  assumes "live s"
  shows "safe (acceptOffers w sch offerIds operations filters s) (good s)"
  using assms
proof (induction operations arbitrary: s)
  case (Cons op operations)
  show ?case
  proof (cases op)
    case (LAUNCH tasks)
    have "safe (acceptOffers w sch offerIds operations filters t) (good s)" if "good s t" for t
      using that by (intro safe_good_trans [OF Cons.IH]) (simp_all add: good_def)
    with LAUNCH show ?thesis
      using safe_mono [OF launchTasks_good [OF Cons.prems]] by simp
  qed (simp add: Cons)
qed (simp add: good_def)

lemma registered_live:
  assumes "live s" and "channelsCreated s" and "isRunning (broker s)"
  shows "safe (registered sch from fid mi s) live"
proof -
  let ?s = "s\<lparr>framework := (framework s)\<lparr>fi_id := Some (merge_id (framework_id s) fid)\<rparr>,
      connected := True, failover := False\<rparr>"
  have "live (delay HeartbeatTimer 60 (?s\<lparr>heartbeat := Some (notifyChannel s, id_value fid)\<rparr>))" if "\<not> aborted s"
    using assms that by (auto simp: live_iff delay_def)
  from safe_mono [OF invoke_good [OF this]] assms show ?thesis
    by (auto simp: registered_def startHeartbeat_def Let_def good_def)
qed

lemma reregistered_live:
  assumes "live s" and "channelsCreated s" and "isRunning (broker s)"
    and "\<not> aborted s \<and> \<not> connected s \<Longrightarrow> id_value (framework_id s) = id_value fid"
  shows "safe (reregistered sch from fid mi s) live"
proof -
  let ?s = "s\<lparr>connected := True, failover := False\<rparr>"
  have "live (delay HeartbeatTimer 60 (?s\<lparr>heartbeat := Some (notifyChannel s, id_value fid)\<rparr>))" if "\<not> aborted s"
    using assms that by (auto simp: live_iff delay_def)
  from safe_mono [OF invoke_good [OF this]] assms show ?thesis
    by (auto simp: reregistered_def startHeartbeat_def Let_def good_def)
qed

lemma error_live: "live s \<Longrightarrow> safe (error sch message s) live"
proof -
  assume s: "live s"
  have "safe (invoke sch cb t) live" if "good s t" for cb t
    using that by (intro safe_mono [OF invoke_good]) (auto simp: good_def)
  from safe_mono [OF driver_abort_good [OF s] this] s show ?thesis by (simp add: error_def)
qed

lemma master_messages_live:
  assumes "live s"
  shows "safe (resourceOffers sch from offers s) live" "safe (rescindOffer sch from i s) live"
    "safe (lostSlave sch from i s) live" "safe (frameworkMessage sch i e d s) live"
proof -
  have m: "connected s \<Longrightarrow> master s \<noteq> []" using assms by (auto simp: live_iff)
  have i: "live t \<Longrightarrow> safe (invoke sch cb t) live" for cb t
    by (rule safe_mono [OF invoke_good]) (auto simp: good_def)
  have "live (s\<lparr>savedSlavePids := p\<rparr>)" for p using assms by (auto simp: live_iff)
  with m i assms show "safe (resourceOffers sch from offers s) live" "safe (rescindOffer sch from i s) live"
      "safe (lostSlave sch from i s) live" "safe (frameworkMessage sch i e d s) live"
    by (simp_all add: resourceOffers_def rescindOffer_def lostSlave_def frameworkMessage_def)
qed

lemma onInput_live:
  assumes "live s" and "channelsCreated s" and "isRunning (broker s)"
    and "\<And>p. message = InMessage ''FrameworkReregisteredMessage'' p \<Longrightarrow> \<not> aborted s \<and> \<not> connected s \<Longrightarrow>
      id_value (p_framework_id p) = id_value (framework_id s)"
    and "\<And>p. message = InMessage ''StatusUpdateMessage'' p \<Longrightarrow> connected s \<Longrightarrow>
      id_value (su_framework_id (p_update p)) = id_value (framework_id s)"
  shows "safe (onInput sch message s) live"
proof (cases message)
  case ErrorMessage
  with assms show ?thesis
    by (auto simp: onInput_def startRegistration_def delay_def live_iff)
next
  case (InMessage tgt p)
  have st: "safe (statusUpdate sch (master s) (p_update p) s) live" if "tgt = ''StatusUpdateMessage''"
  proof (cases "connected s")
    case True
    with that assms(5) InMessage show ?thesis
      by (intro safe_mono [OF statusUpdate_good [OF assms(1)]]) (auto simp: good_def)
  next
    case False
    moreover have "master s \<noteq> []" using assms by (simp add: live_iff)
    ultimately show ?thesis using assms(1) by (simp add: statusUpdate_def)
  qed
  have re: "safe (reregistered sch (master s) (p_framework_id p) mi s) live"
    if "tgt = ''FrameworkReregisteredMessage''" for mi
    using that assms InMessage by (intro reregistered_live) auto
  have sd: "safe (sendMessage m s) live" for m
    by (rule sendMessage_live [OF assms(1)])
  show ?thesis
  proof (cases "map_of messages tgt")
    case None
    then show ?thesis using InMessage assms(1) by (simp add: onInput_def)
  next
    case (Some kind)
    then have "kind = STATUS_UPDATE \<Longrightarrow> tgt = ''StatusUpdateMessage''"
      and "kind = FRAMEWORK_REREGISTERED \<Longrightarrow> tgt = ''FrameworkReregisteredMessage''"
      by (auto simp: messages_def split: if_splits)
    with Some InMessage st re sd assms(1-3) show ?thesis
      by (cases kind) (simp_all add: onInput_def registered_live error_live master_messages_live)
  qed
qed

end

subsection \<open>Timers keep the invariant\<close>

lemma createChannels_live: "live s \<Longrightarrow> master s \<noteq> [] \<Longrightarrow> live (createChannels s) \<and> channelsCreated (createChannels s)"
  by (auto simp: createChannels_def Let_def emit_def live_iff)

lemma doReliableRegistration_live:
  assumes "live s"
  shows "safe (doReliableRegistration w s) live"
proof -
  obtain b e where b: "setUrl (w_connect w) (master s) (broker s) = (b, e)" by (cases "setUrl (w_connect w) (master s) (broker s)")
  have "isRunning (broker s) \<Longrightarrow> isRunning b"
    using setUrl_running_mono [of "broker s" "w_connect w" "master s"] b by simp
  then have l: "live (s\<lparr>broker := b\<rparr>)" using assms by (auto simp: live_iff)
  then have "safe (sendMessage m (createChannels (s\<lparr>broker := b\<rparr>))) live" if "master s \<noteq> []" for m
    using that createChannels_live [of "s\<lparr>broker := b\<rparr>"]
    by (intro sendMessage_live) auto
  moreover have "live (delay RegistrationTimer 1 (s\<lparr>broker := b\<rparr>))"
    using l by (auto simp: live_iff delay_def)
  moreover have "live (s\<lparr>aborted := False, connected := True\<rparr>)" if "aborted s"
    using assms that by (auto simp: live_iff)
  ultimately show ?thesis
    using assms b by (cases e) (auto simp: doReliableRegistration_def sendRegister_def Let_def)
qed

lemma delay_live: "live s \<Longrightarrow> live (delay t n s)"
  by (auto simp: live_iff delay_def)

lemma checkReconcile_live: "live s \<Longrightarrow> safe (checkReconcile s) live"
  by (auto simp: checkReconcile_def Let_def delay_live good_def intro!: safe_mono [OF requests_good(5)])

lemma sendHeartbeat_live: "live s \<Longrightarrow> live (sendHeartbeat s)"
  by (auto simp: sendHeartbeat_def delay_def emit_def live_iff split: option.splits)

end
