(* ===== verification/Scheduler_Driver.thy ===== *)
theory Scheduler_Driver
  imports Scheduler_Process
begin

text \<open>
  \<open>MesosSchedulerDriver\<close> (\<open>liburb/source/sched.cpp\<close>) on top of the process, and the whole scheduler
  side as a transition system.

  \<^item> A driver call checks the status of the driver and hands over to the process. \<open>join\<close> and \<open>run\<close>
    block the calling thread and change nothing; they are not among the calls.
  \<^item> The framework is a function from a callback and the output so far to the driver calls it makes
    before it returns from the callback. As everything else is determined, this covers every
    framework, also one that reacts to the results of its calls.
  \<^item> \<open>run_cb n\<close> runs a callback whose calls may lead to further callbacks, nested at most \<open>n\<close> deep.
    Going deeper is the failure \<open>DepthExceeded\<close>: the C++ program nests without bound there, until its
    stack is exhausted.
  \<^item> \<open>event\<close> is what happens outside of callbacks: a message from the broker, the expiry of a pending
    timer, a driver call of the framework's own thread. Each is handled to the end before the next;
    the mutex of the driver and the event loop thread make the handlers of one kind exclusive, and
    races between the two are not modelled.
\<close>

datatype driver_call =
    Start
  | Stop bool
  | Abort
  | KillTask ID
  | LaunchTasks "ID list" "TaskInfo list" Filters
  | AcceptOffers "ID list" "Operation list" Filters
  | DeclineOffer ID Filters
  | ReviveOffers
  | SuppressOffers
  | AcknowledgeStatusUpdate TaskStatus
  | SendFrameworkMessage ID ID string
  | ReconcileTasks "TaskStatus list"
  | RequestResources "Request list"

type_synonym fw = "sched_cb \<Rightarrow> effect list \<Rightarrow> driver_call list"

subsection \<open>Driver calls\<close>

definition when_running :: "(sys \<Rightarrow> sys outcome) \<Rightarrow> sys \<Rightarrow> sys outcome" where
  "when_running f s =
     (if status s = DRIVER_RUNNING then require (has_process s) (f s) else Inr s)"

definition driver_start :: "sys \<Rightarrow> sys outcome" where
  "driver_start s =
     (if status s \<noteq> DRIVER_NOT_STARTED
      then let s = (if status s = DRIVER_STOPPED then startRegistration s else s)
           in Inr (s\<lparr>status := DRIVER_RUNNING\<rparr>)
      else require (\<not> has_process s)
             (Inr ((startRegistration (new_process (d_framework s) (d_master s) s))\<lparr>status := DRIVER_RUNNING\<rparr>)))"

text \<open>The result of \<open>stop\<close> is the aborted status when the driver was aborted before.\<close>

definition driver_stop :: "bool \<Rightarrow> sys \<Rightarrow> (sys \<times> Status) outcome" where
  "driver_stop fo s =
     (if status s = DRIVER_RUNNING \<or> status s = DRIVER_ABORTED
      then andThen (stop fo s) (\<lambda>s'.
             let was_aborted = (status s' = DRIVER_ABORTED); s' = s'\<lparr>status := DRIVER_STOPPED\<rparr>
             in Inr (s', if was_aborted then DRIVER_ABORTED else status s'))
      else Inr (s, status s))"

text \<open>The calls of the driver that hand over to the process.\<close>

definition driver_killTask :: "ID \<Rightarrow> sys \<Rightarrow> sys outcome" where
  [simp]: "driver_killTask taskId s = when_running (killTask taskId) s"

definition driver_launchTasks ::
    "world \<Rightarrow> callback \<Rightarrow> ID list \<Rightarrow> TaskInfo list \<Rightarrow> Filters \<Rightarrow> sys \<Rightarrow> sys outcome" where
  [simp]: "driver_launchTasks w sch offerIds tasks filters s =
     when_running (launchTasks w sch offerIds tasks filters) s"

definition driver_acceptOffers ::
    "world \<Rightarrow> callback \<Rightarrow> ID list \<Rightarrow> Operation list \<Rightarrow> Filters \<Rightarrow> sys \<Rightarrow> sys outcome" where
  [simp]: "driver_acceptOffers w sch offerIds operations filters s =
     (if status s = DRIVER_RUNNING then acceptOffers w sch offerIds operations filters s else Inr s)"

definition driver_declineOffer :: "world \<Rightarrow> callback \<Rightarrow> ID \<Rightarrow> Filters \<Rightarrow> sys \<Rightarrow> sys outcome" where
  [simp]: "driver_declineOffer w sch offerId filters s = driver_launchTasks w sch [offerId] [] filters s"

definition driver_reviveOffers :: "sys \<Rightarrow> sys outcome" where
  [simp]: "driver_reviveOffers s = when_running reviveOffers s"

definition driver_suppressOffers :: "sys \<Rightarrow> sys outcome" where
  [simp]: "driver_suppressOffers s = when_running Inr s"

definition driver_acknowledgeStatusUpdate :: "TaskStatus \<Rightarrow> sys \<Rightarrow> sys outcome" where
  [simp]: "driver_acknowledgeStatusUpdate st s = when_running (acknowledgeStatusUpdate st) s"

definition driver_sendFrameworkMessage :: "ID \<Rightarrow> ID \<Rightarrow> string \<Rightarrow> sys \<Rightarrow> sys outcome" where
  [simp]: "driver_sendFrameworkMessage executorId slaveId data s =
     when_running (sendFrameworkMessage executorId slaveId data) s"

definition driver_reconcileTasks :: "TaskStatus list \<Rightarrow> sys \<Rightarrow> sys outcome" where
  [simp]: "driver_reconcileTasks statuses s = when_running (reconcileTasks statuses) s"

definition driver_requestResources :: "Request list \<Rightarrow> sys \<Rightarrow> sys outcome" where
  [simp]: "driver_requestResources requests s = when_running (requestResources requests) s"

fun drv_call :: "world \<Rightarrow> callback \<Rightarrow> driver_call \<Rightarrow> sys \<Rightarrow> sys outcome" where
  "drv_call w sch Start s = driver_start s"
| "drv_call w sch (Stop fo) s = andThen (driver_stop fo s) (\<lambda>(s, _). Inr s)"
| "drv_call w sch Abort s = driver_abort s"
| "drv_call w sch (KillTask taskId) s = driver_killTask taskId s"
| "drv_call w sch (LaunchTasks offerIds tasks filters) s =
     driver_launchTasks w sch offerIds tasks filters s"
| "drv_call w sch (AcceptOffers offerIds operations filters) s =
     driver_acceptOffers w sch offerIds operations filters s"
| "drv_call w sch (DeclineOffer offerId filters) s = driver_declineOffer w sch offerId filters s"
| "drv_call w sch ReviveOffers s = driver_reviveOffers s"
| "drv_call w sch SuppressOffers s = driver_suppressOffers s"
| "drv_call w sch (AcknowledgeStatusUpdate st) s = driver_acknowledgeStatusUpdate st s"
| "drv_call w sch (SendFrameworkMessage executorId slaveId data) s =
     driver_sendFrameworkMessage executorId slaveId data s"
| "drv_call w sch (ReconcileTasks statuses) s = driver_reconcileTasks statuses s"
| "drv_call w sch (RequestResources requests) s = driver_requestResources requests s"

subsection \<open>Callbacks that call back\<close>

fun run_cb :: "world \<Rightarrow> fw \<Rightarrow> nat \<Rightarrow> callback" where
  "run_cb w u 0 cb s = Inl DepthExceeded"
| "run_cb w u (Suc n) cb s = foldOutcome (drv_call w (run_cb w u n)) (u cb (trace s)) s"

subsection \<open>The transition system\<close>

datatype event =
    Input in_msg
  | Expire timer nat
  | Call driver_call

text \<open>
  The constructor takes the user from the operating system, and checks that there is one, when the framework names
  none; here it is an argument.
\<close>

definition initial :: "FrameworkInfo \<Rightarrow> string \<Rightarrow> string \<Rightarrow> bool \<Rightarrow> sys" where
  "initial f user m implicit =
     \<lparr>status = DRIVER_NOT_STARTED,
      d_framework = (if fi_user f = [] then f\<lparr>fi_user := user\<rparr> else f), d_master = m,
      implicitAcknowledgements = implicit, has_process = False, broker = broker_start,
      channelsCreated = False, notifyChannel = [], heartbeat = None, framework = f, failover = False,
      master = m, connected = False, aborted = False, savedSlavePids = [], activeTasks = [],
      pending = [], trace = [], draws = 0\<rparr>"

fun on_timer :: "world \<Rightarrow> timer \<Rightarrow> sys \<Rightarrow> sys outcome" where
  "on_timer w RegistrationTimer s = doReliableRegistration w s"
| "on_timer w ReconcileTimer s = checkReconcile s"
| "on_timer w HeartbeatTimer s = Inr (sendHeartbeat s)"

text \<open>An event that cannot happen in a state is \<open>None\<close>.\<close>

definition handle :: "world \<Rightarrow> callback \<Rightarrow> event \<Rightarrow> sys \<Rightarrow> sys outcome option" where
  "handle w sch ev s =
     (case ev of
        Input m \<Rightarrow> if channelsCreated s \<and> isRunning (broker s) then Some (onInput sch m s) else None
      | Expire t seconds \<Rightarrow>
          if (t, seconds) \<in> set (pending s)
          then Some (on_timer w t (s\<lparr>pending := remove1 (t, seconds) (pending s)\<rparr>)) else None
      | Call c \<Rightarrow> Some (drv_call w sch c s))"

inductive reach :: "world \<Rightarrow> fw \<Rightarrow> nat \<Rightarrow> sys \<Rightarrow> bool" for w u n where
  reach_initial: "reach w u n (initial f user m implicit)"
| reach_step: "reach w u n s \<Longrightarrow> handle w (run_cb w u n) ev s = Some (Inr s') \<Longrightarrow> reach w u n s'"

subsection \<open>The framework keeps the contract of callbacks\<close>

lemma when_running_good:
  assumes "live s" and "safe (f s) (good s)"
  shows "safe (when_running f s) (good s)"
  using assms by (simp add: when_running_def live_def good_def)

lemma driver_start_good:
  assumes "live s"
  shows "safe (driver_start s) (good s)"
proof -
  have "good s (startRegistration s)"
    using assms by (intro good_same) (simp_all add: startRegistration_def delay_def live_iff)
  moreover have "status s \<noteq> DRIVER_NOT_STARTED" using assms by (simp add: live_iff)
  ultimately show ?thesis
    using status_good [of s _ DRIVER_RUNNING] assms by (simp add: driver_start_def good_refl)
qed

lemma driver_stop_good:
  assumes "live s"
  shows "safe (driver_stop fo s) (\<lambda>x. good s (fst x))"
proof (cases "status s = DRIVER_RUNNING \<or> status s = DRIVER_ABORTED")
  case True
  then show ?thesis
    using safe_mono [OF stop_good [OF assms] status_good] by (simp add: driver_stop_def Let_def)
qed (use assms in \<open>simp add: driver_stop_def good_def\<close>)

lemma drv_call_good:
  assumes "callback_contract sch" and "live s"
  shows "safe (drv_call w sch c s) (good s)"
proof (cases c)
  case (Stop fo)
  then show ?thesis using driver_stop_good [OF assms(2)] by (simp add: case_prod_unfold)
next
  case (AcceptOffers offerIds operations filters)
  then show ?thesis
    using assms callback_contract.acceptOffers_good by (simp add: good_def)
next
  case SuppressOffers
  then show ?thesis using assms by (auto intro!: when_running_good simp: good_def)
qed (use assms in \<open>auto intro!: when_running_good requests_good acknowledgeStatusUpdate_good
  driver_start_good driver_abort_good callback_contract.launchTasks_good\<close>)

lemma run_cb_contract: "callback_contract (run_cb w u n)"
proof (induction n)
  case 0
  show ?case by unfold_locales simp
next
  case (Suc n)
  show ?case
  proof
    fix s cb
    assume "live s"
    then have "good s s" by (simp add: good_def)
    moreover have "safe (drv_call w (run_cb w u n) c t) (good s)" if "good s t" for c t
      using that by (intro safe_good_trans [OF drv_call_good [OF Suc]]) (simp_all add: good_def)
    ultimately show "safe (run_cb w u (Suc n) cb s) (good s)"
      by (simp add: safe_foldOutcome)
  qed
qed

interpretation fwk: callback_contract "run_cb w u n" for w u n
  by (rule run_cb_contract)

subsection \<open>Reachable states\<close>

lemma not_started_call:
  assumes "sched_inv s" and "\<not> has_process s"
  shows "drv_call w sch c s = (if c = Start then Inr ((startRegistration
    (new_process (d_framework s) (d_master s) s))\<lparr>status := DRIVER_RUNNING\<rparr>) else Inr s)"
  using assms
  by (cases c) (auto simp: sched_inv_def when_running_def driver_start_def driver_stop_def driver_abort_def)

lemma new_process_live:
  "sched_inv s \<Longrightarrow> live ((startRegistration (new_process f m s))\<lparr>status := DRIVER_RUNNING\<rparr>)"
  by (simp add: new_process_def startRegistration_def delay_def live_iff)

lemma drv_call_inv:
  assumes "callback_contract sch" and "sched_inv s"
  shows "safe (drv_call w sch c s) sched_inv"
proof (cases "has_process s")
  case True
  with assms(2) have "live s" by (simp add: live_def)
  from safe_mono [OF drv_call_good [OF assms(1) this]] show ?thesis by (simp add: good_def live_def)
next
  case False
  then show ?thesis
    using assms(2) new_process_live [OF assms(2)]
    by (simp add: not_started_call live_def)
qed

text \<open>The two messages that make a check fail: both name another framework than the registered one.\<close>

definition names_other_framework :: "event \<Rightarrow> sys \<Rightarrow> bool" where
  "names_other_framework ev s \<longleftrightarrow>
     (case ev of
        Input (InMessage tgt p) \<Rightarrow>
          tgt = ''FrameworkReregisteredMessage'' \<and> \<not> connected s \<and> \<not> aborted s \<and>
            id_value (p_framework_id p) \<noteq> id_value (framework_id s) \<or>
          tgt = ''StatusUpdateMessage'' \<and> connected s \<and>
            id_value (su_framework_id (p_update p)) \<noteq> id_value (framework_id s)
      | _ \<Rightarrow> False)"

lemma handle_inv:
  assumes "callback_contract sch" and "sched_inv s" and "handle w sch ev s = Some r"
    and "\<not> names_other_framework ev s"
  shows "safe r sched_inv"
proof (cases ev)
  case (Input m)
  with assms(2,3) have l: "live s" and c: "channelsCreated s" "isRunning (broker s)" and r: "r = onInput sch m s"
    by (auto simp: handle_def live_def sched_inv_def split: if_splits)
  have "safe (onInput sch m s) live"
    using assms(4) Input l c
    by (intro callback_contract.onInput_live [OF assms(1)]) (auto simp: names_other_framework_def)
  then show ?thesis unfolding r by (rule safe_mono) (simp add: live_def)
next
  case (Expire t k)
  define s' where "s' = s\<lparr>pending := remove1 (t, k) (pending s)\<rparr>"
  from Expire assms(2,3) have l: "live s'" and r: "r = on_timer w t s'"
    by (auto simp: handle_def live_def sched_inv_def s'_def split: if_splits)
  have "safe (on_timer w t s') live"
    using l by (cases t) (simp_all add: doReliableRegistration_live checkReconcile_live sendHeartbeat_live)
  then show ?thesis unfolding r by (rule safe_mono) (simp add: live_def)
next
  case (Call c)
  with assms show ?thesis using drv_call_inv [OF assms(1,2)] by (auto simp: handle_def)
qed

lemma initial_inv: "sched_inv (initial f user m implicit)"
  by (simp add: initial_def sched_inv_def)

lemma other_framework_fails:
  assumes "sched_inv s" and "handle w sch ev s = Some r" and "names_other_framework ev s"
  shows "r = Inl CheckFailed"
proof -
  from assms(3) obtain tgt p where ev: "ev = Input (InMessage tgt p)"
    by (auto simp: names_other_framework_def split: event.splits in_msg.splits)
  from assms(1,2) ev have m: "master s \<noteq> []" and r: "r = onInput sch (InMessage tgt p) s"
    by (auto simp: handle_def sched_inv_def split: if_splits)
  have "connected s \<Longrightarrow> \<not> aborted s" using assms(1) by (simp add: sched_inv_def)
  then consider (re) "tgt = ''FrameworkReregisteredMessage''" "\<not> connected s" "\<not> aborted s"
      "id_value (framework_id s) \<noteq> id_value (p_framework_id p)"
    | (st) "tgt = ''StatusUpdateMessage''" "connected s" "\<not> aborted s"
      "id_value (framework_id s) \<noteq> id_value (su_framework_id (p_update p))"
    using assms(3) ev by (auto simp: names_other_framework_def)
  then show ?thesis
  proof cases
    case re
    have "map_of messages tgt = Some FRAMEWORK_REREGISTERED" unfolding re(1) by code_simp
    with re show ?thesis by (simp add: r onInput_def reregistered_def)
  next
    case st
    have "map_of messages tgt = Some STATUS_UPDATE" unfolding st(1) by code_simp
    with st m show ?thesis by (simp add: r onInput_def statusUpdate_def)
  qed
qed

lemma reach_inv: "reach w u n s \<Longrightarrow> sched_inv s"
proof (induction rule: reach.induct)
  case (reach_step s ev s')
  have "\<not> names_other_framework ev s"
    using other_framework_fails [OF reach_step.IH reach_step.hyps(2)] by auto
  from handle_inv [OF run_cb_contract reach_step.IH reach_step.hyps(2) this] show ?case by simp
qed (rule initial_inv)

end
