(* ===== verification/Scheduler_Properties.thy ===== *)
theory Scheduler_Properties
  imports Scheduler_Driver "HOL-Library.Multiset"
begin

text \<open>
  The properties of the scheduler side: the invariant of the reachable states and the checks of the
  code, acknowledgement of status updates, launching of tasks while connected and disconnected,
  automatic reconciliation, registration, the status of the driver, abort, and the depth of nested
  callbacks. The witnesses run the transition system of a small framework.
\<close>

subsection \<open>Runs\<close>

fun run_events :: "world \<Rightarrow> callback \<Rightarrow> event list \<Rightarrow> sys \<Rightarrow> sys outcome option" where
  "run_events w sch [] s = Some (Inr s)"
| "run_events w sch (ev # evs) s =
     (case handle w sch ev s of
        None \<Rightarrow> None
      | Some (Inl e) \<Rightarrow> Some (Inl e)
      | Some (Inr t) \<Rightarrow> run_events w sch evs t)"

text \<open>A framework that makes no calls, and a world in which redis always answers.\<close>

definition quiet :: fw where
  "quiet cb tr = []"

definition demo_world :: world where
  "demo_world = \<lparr>w_connect = (\<lambda>_ _. Some 7), w_uuid = (\<lambda>n. [CHR ''u'', CHR 0x00]), w_time = int,
     w_job_submit_options = None\<rparr>"

definition demo_info :: FrameworkInfo where
  "demo_info = \<lparr>fi_id = None, fi_user = ''me'', fi_name = ''demo'', fi_other = []\<rparr>"

definition demo_start :: sys where
  "demo_start = initial demo_info ''me'' ''urb://h'' True"

definition register_events :: "event list" where
  "register_events =
     [Call Start, Expire RegistrationTimer 0,
      Input (InMessage ''FrameworkRegisteredMessage'' (empty_payload\<lparr>p_framework_id := Some ''f1''\<rparr>))]"

text \<open>The states of the small framework after its start and after its registration.\<close>

definition demo_started :: sys where
  "demo_started = demo_start\<lparr>status := DRIVER_RUNNING, has_process := True,
     pending := [(ReconcileTimer, 60), (RegistrationTimer, 0)]\<rparr>"

definition demo_registered :: sys where
  "demo_registered = demo_started\<lparr>
     broker := broker_start\<lparr>isRunning := True, redisServer := ''h'', redisPort := 6379,
       endpointIdStr := ''urb.endpoint.7'', attempts := 1\<rparr>,
     channelsCreated := True, notifyChannel := ''urb.endpoint.7.notify'',
     heartbeat := Some (''urb.endpoint.7.notify'', ''f1''),
     framework := demo_info\<lparr>fi_id := Some (Some ''f1'')\<rparr>, connected := True,
     pending := [(ReconcileTimer, 60), (HeartbeatTimer, 60)],
     trace := [Listen ''urb.endpoint.7.notify'',
       Sent ''RegisterFrameworkMessage'' (RegisterFrameworkMessage demo_info None),
       Callback (CbRegistered (Some ''f1'') [])]\<rparr>"

definition demo_task :: "string \<Rightarrow> TaskInfo" where
  "demo_task i = \<lparr>ti_task_id = Some i, ti_slave_id = Some ''s1'', ti_executor = None,
     ti_command = Some ''run'', ti_labels = Some [], ti_other = []\<rparr>"


text \<open>The status a task is reported back with, and the reports a list of tasks leads to.\<close>

definition lost_status :: "TaskInfo \<Rightarrow> lost_reason \<Rightarrow> TaskStatus" where
  "lost_status task reason =
     empty_status\<lparr>ts_task_id := ti_task_id task, ts_state := TASK_LOST, ts_message := Some (lost_message reason)\<rparr>"

definition lost_reports :: "(TaskInfo \<Rightarrow> lost_reason option) \<Rightarrow> TaskInfo list \<Rightarrow> effect list" where
  "lost_reports err tasks =
     List.map_filter (\<lambda>t. map_option (\<lambda>r. Callback (CbStatusUpdate (lost_status t r))) (err t)) tasks"

text \<open>The status of the driver after each of the calls that manage it, as the calls set it.\<close>

fun status_next :: "Status \<Rightarrow> driver_call \<Rightarrow> Status" where
  "status_next st Start = DRIVER_RUNNING"
| "status_next st (Stop fo) = (if st = DRIVER_RUNNING \<or> st = DRIVER_ABORTED then DRIVER_STOPPED else st)"
| "status_next st Abort = (if st = DRIVER_RUNNING then DRIVER_ABORTED else st)"
| "status_next st _ = st"

fun lifecycle :: "driver_call \<Rightarrow> bool" where
  "lifecycle Start = True"
| "lifecycle (Stop fo) = True"
| "lifecycle Abort = True"
| "lifecycle _ = False"

text \<open>Callbacks that leave the status of the driver alone.\<close>

definition keeps_status :: "callback \<Rightarrow> bool" where
  "keeps_status sch \<longleftrightarrow> (\<forall>cb s. holds (sch cb s) (\<lambda>t. status t = status s))"


text \<open>Effects that are no callbacks.\<close>

definition no_callback :: "effect \<Rightarrow> bool" where
  "no_callback e \<longleftrightarrow> (case e of Callback _ \<Rightarrow> False | _ \<Rightarrow> True)"

text \<open>
  Calls that may lead to a callback, and frameworks that make none of them while they handle a
  status update.
\<close>

fun launches :: "driver_call \<Rightarrow> bool" where
  "launches (LaunchTasks _ _ _) = True"
| "launches (AcceptOffers _ _ _) = True"
| "launches _ = False"

definition no_relaunch :: "fw \<Rightarrow> bool" where
  "no_relaunch u \<longleftrightarrow> (\<forall>st tr. list_all (\<lambda>c. \<not> launches c) (u (CbStatusUpdate st) tr))"

text \<open>A framework that launches a task again as soon as it hears of any status update.\<close>

definition relauncher :: "TaskInfo \<Rightarrow> fw" where
  "relauncher task cb tr =
     (case cb of CbStatusUpdate st \<Rightarrow> [LaunchTasks [] [task] []] | _ \<Rightarrow> [])"

definition bounded :: "'a outcome \<Rightarrow> bool" where
  "bounded r \<longleftrightarrow> r \<noteq> Inl DepthExceeded"

text \<open>The request a disconnected process registers with.\<close>

definition registration_request :: "world \<Rightarrow> sys \<Rightarrow> mesos_msg" where
  "registration_request w s =
     (if fi_id (framework s) = None \<or> id_value (framework_id s) = [] \<or> failover s
      then RegisterFrameworkMessage (framework s) (w_job_submit_options w)
      else ReregisterFrameworkMessage (framework s) (failover s))"

subsection \<open>Reachability of the runs\<close>

lemma run_events_reach:
  "reach w u n s \<Longrightarrow> run_events w (run_cb w u n) evs s = Some (Inr t) \<Longrightarrow> reach w u n t"
proof (induction evs arbitrary: s)
  case (Cons ev evs)
  then obtain r where "handle w (run_cb w u n) ev s = Some (Inr r)"
    and "run_events w (run_cb w u n) evs r = Some (Inr t)"
    by (auto split: option.splits sum.splits)
  with Cons show ?case by (blast intro: reach_step)
qed simp

lemma demo_run:
  "run_events demo_world (run_cb demo_world quiet (Suc n)) register_events demo_start =
     Some (Inr demo_registered)"
proof -
  have "setUrl (w_connect demo_world) ''urb://h'' broker_start =
      (broker_start\<lparr>isRunning := True, redisServer := ''h'', redisPort := 6379,
         endpointIdStr := ''urb.endpoint.7'', attempts := 1\<rparr>, Completed)"
    by code_simp
  then show ?thesis
    by (simp add: register_events_def handle_def driver_start_def demo_start_def initial_def demo_info_def
        new_process_def startRegistration_def delay_def doReliableRegistration_def createChannels_def
        createChannel_def emit_def sendRegister_def sendMessage_def channel_write_def Let_def
        broker_start_def demo_registered_def demo_started_def onInput_def messages_def registered_def
        startHeartbeat_def framework_id_def opt_id_def id_value_def merge_id_def invoke_def quiet_def
        empty_payload_def demo_world_def)
qed

lemma demo_reach: "reach demo_world quiet (Suc n) demo_registered"
  using run_events_reach [OF reach_initial demo_run [unfolded demo_start_def]] .

lemma safe_result: "safe r P \<Longrightarrow> r = Inr x \<Longrightarrow> P x"
  by simp

lemma trackTask_fields [simp]:
  "trace (trackTask st s) = trace s" "aborted (trackTask st s) = aborted s"
  "connected (trackTask st s) = connected s" "status (trackTask st s) = status s"
  by (simp_all add: trackTask_def split: TaskState.splits)



subsection \<open>Invariant and checks\<close>

text \<open>
  C1. In every reachable state of the scheduler side, whatever the framework does in its callbacks
  and however messages, timers and driver calls are ordered: a connected process has a channel, a
  running broker and a master, and is not aborted; an aborted process has a channel and a
  running broker; a process exists exactly when the driver was started; and the active tasks are a
  proper sorted map.
\<close>

theorem sched_invariant: "reach w u n s \<Longrightarrow> sched_inv s"
  by (rule reach_inv)

theorem sched_invariant_witness: "connected demo_registered \<and> sched_inv demo_registered"
  using sched_invariant [OF demo_reach [of 0]] by (simp add: demo_registered_def)

text \<open>
  C2. The only events that make a \<open>CHECK\<close> of the scheduler code fail in a reachable state are a
  re-registration of a disconnected process and a status update for a connected one that name
  another framework than the registered one, and these always do; no behaviour of the
  framework and no order of events trips any other check.
\<close>

theorem sched_checks:
  assumes "reach w u n s" and "handle w (run_cb w u n) ev s = Some r"
  shows "r = Inl CheckFailed \<longleftrightarrow> names_other_framework ev s"
proof
  assume r: "r = Inl CheckFailed"
  show "names_other_framework ev s"
    using handle_inv [OF run_cb_contract reach_inv [OF assms(1)] assms(2)] r by fastforce
qed (rule other_framework_fails [OF reach_inv [OF assms(1)] assms(2)])

theorem sched_checks_witness:
  "handle demo_world (run_cb demo_world quiet 1) (Input (InMessage ''StatusUpdateMessage'' empty_payload))
     demo_registered = Some (Inl CheckFailed)"
proof -
  let ?ev = "Input (InMessage ''StatusUpdateMessage'' empty_payload)"
  have "names_other_framework ?ev demo_registered"
    by (simp add: names_other_framework_def demo_registered_def empty_payload_def empty_update_def
        framework_id_def opt_id_def id_value_def)
  moreover obtain r where "handle demo_world (run_cb demo_world quiet 1) ?ev demo_registered = Some r"
    by (simp add: handle_def demo_registered_def)
  ultimately show ?thesis using sched_checks [OF demo_reach [of 0], of ?ev r] by simp
qed

subsection \<open>Status updates\<close>



subsection \<open>Launching tasks\<close>

lemma lost_update_status [simp]: "su_status (lost_update w task reason s) = lost_status task reason"
  by (simp add: lost_update_def lost_status_def)

lemma lost_reports_simps [simp]:
  "lost_reports err [] = []"
  "lost_reports err (t # ts) =
     (case err t of Some r \<Rightarrow> Callback (CbStatusUpdate (lost_status t r)) # lost_reports err ts
      | None \<Rightarrow> lost_reports err ts)"
  by (auto simp: lost_reports_def map_filter_simps split: option.splits)

lemma report_lost_effect:
  assumes "callback_contract sch" and "live s" and "report_lost w sch reason task s = Inr s'"
  shows "good s s'" and "\<not> aborted s' \<Longrightarrow>
    \<exists>mid. trace s' = trace s @ Callback (CbStatusUpdate (lost_status task reason)) # mid"
proof -
  show g: "good s s'"
    using safe_result [OF callback_contract.report_lost_good [OF assms(1,2)] assms(3)] .
  assume na: "\<not> aborted s'"
  let ?u = "lost_update w task reason s" and ?s = "s\<lparr>draws := Suc (draws s)\<rparr>"
  from g na have "\<not> aborted ?s" by (auto simp: good_def frame_def)
  with assms(3) obtain t r where t: "invoke sch (CbStatusUpdate (lost_status task reason)) ?s = Inr t"
    and r: "statusUpdateAcknowledgement ?u t = Inr r" and s': "s' = trackTask (lost_status task reason) r"
    by (auto simp: report_lost_def statusUpdate_def split: if_splits)
  have "live ?s" using assms(2) by (simp add: live_iff)
  from callback_contract.sch_good [OF assms(1) emit_live [OF this]] t
  have "good (emit (Callback (CbStatusUpdate (lost_status task reason))) ?s) t"
    by (auto simp: invoke_def dest: safe_result)
  moreover from this have "live t" by (simp add: good_def)
  from safe_result [OF statusUpdateAcknowledgement_good [OF this] r] have "good t r" .
  ultimately have "good (emit (Callback (CbStatusUpdate (lost_status task reason))) ?s) r" by (rule good_trans)
  then show "\<exists>mid. trace s' = trace s @ Callback (CbStatusUpdate (lost_status task reason)) # mid"
    by (auto simp: s' good_def frame_def adds_def emit_def)
qed

lemma subseq_after:
  assumes "trace r = trace t @ d" and "trace t = trace s @ c # m" and "subseq xs d"
  shows "\<exists>d'. trace r = trace s @ d' \<and> subseq (c # xs) d'"
  using assms by (intro exI [of _ "c # m @ d"]) (auto intro: subseq_append_le_same_iff [THEN iffD2] list_emb_append2)

lemma good_not_aborted: "good s t \<Longrightarrow> \<not> aborted t \<Longrightarrow> \<not> aborted s"
  by (auto simp: good_def frame_def)

lemma fold_lost_effect:
  assumes "callback_contract sch" and "live s" and "foldOutcome (report_lost w sch reason) tasks s = Inr s'"
  shows "good s s' \<and> (\<not> aborted s' \<longrightarrow>
    (\<exists>d. trace s' = trace s @ d \<and> subseq (lost_reports (\<lambda>_. Some reason) tasks) d))"
  using assms(2,3)
proof (induction tasks arbitrary: s)
  case Nil
  then show ?case by (simp add: good_refl)
next
  case (Cons task tasks)
  then obtain t where t: "report_lost w sch reason task s = Inr t"
    and f: "foldOutcome (report_lost w sch reason) tasks t = Inr s'" by auto
  note e = report_lost_effect [OF assms(1) Cons.prems(1) t]
  have "live t" using e(1) by (simp add: good_def)
  note ih = Cons.IH [OF this f]
  have "\<exists>d. trace s' = trace s @ d \<and> subseq (lost_reports (\<lambda>_. Some reason) (task # tasks)) d" if na: "\<not> aborted s'"
  proof -
    from ih na obtain d where "trace s' = trace t @ d" "subseq (lost_reports (\<lambda>_. Some reason) tasks) d" by blast
    moreover obtain m where "trace t = trace s @ Callback (CbStatusUpdate (lost_status task reason)) # m"
      using e(2) good_not_aborted ih na by blast
    ultimately show ?thesis using subseq_after [of s' t d s] by simp
  qed
  with ih e(1) show ?case by (blast intro: good_trans)
qed

lemma task_error_frame: "frame s t \<Longrightarrow> task_error t = task_error s"
  by (rule ext) (simp only: task_error_def framework_id_frame)

lemma prepare_task_frame: "frame s t \<Longrightarrow> prepare_task t = prepare_task s"
  by (rule ext) (simp only: prepare_task_def framework_id_frame)

lemma launch_loop_effect:
  assumes "callback_contract sch" and "live s" and "launch_loop w sch result tasks s = Inr (s', r)"
  shows "good s s' \<and> r = result @ map (prepare_task s) (filter (\<lambda>t. task_error s t = None) tasks) \<and>
    (\<not> aborted s' \<longrightarrow> (\<exists>d. trace s' = trace s @ d \<and> subseq (lost_reports (task_error s) tasks) d))"
  using assms(2,3)
proof (induction tasks arbitrary: s result)
  case Nil
  then show ?case by (simp add: good_refl)
next
  case (Cons task tasks)
  show ?case
  proof (cases "task_error s task")
    case None
    let ?s = "s\<lparr>activeTasks := map_assign (id_value (ti_task_id task)) TASK_STAGING (activeTasks s)\<rparr>"
    have g: "good s ?s" using Cons.prems by (intro good_same) (simp_all add: live_iff smap.inv_put)
    then have "live ?s" and f: "frame s ?s" by (simp_all add: good_def)
    from Cons.IH [OF this(1), of "result @ [prepare_task s task]"] Cons.prems(2) None g show ?thesis
      by (auto simp: task_error_frame [OF f] prepare_task_frame [OF f] intro: good_trans)
  next
    case (Some reason)
    with Cons.prems(2) obtain t where t: "report_lost w sch reason task s = Inr t"
      and l: "launch_loop w sch result tasks t = Inr (s', r)" by auto
    note e = report_lost_effect [OF assms(1) Cons.prems(1) t]
    then have lt: "live t" and f: "frame s t" by (simp_all add: good_def)
    note ih = Cons.IH [OF lt l, unfolded task_error_frame [OF f] prepare_task_frame [OF f]]
    have "\<exists>d. trace s' = trace s @ d \<and> subseq (lost_reports (task_error s) (task # tasks)) d" if na: "\<not> aborted s'"
    proof -
      from ih na obtain d where "trace s' = trace t @ d" "subseq (lost_reports (task_error s) tasks) d" by blast
      moreover obtain m where "trace t = trace s @ Callback (CbStatusUpdate (lost_status task reason)) # m"
        using e(2) good_not_aborted ih na by blast
      ultimately show ?thesis using subseq_after [of s' t d s] Some by simp
    qed
    with ih e(1) Some show ?thesis by (simp add: good_trans [OF e(1)])
  qed
qed

text \<open>
  What a launch does for one task before its message: a task with an error is reported as lost, any
  other one is recorded as staging.
\<close>

definition launch_one :: "world \<Rightarrow> callback \<Rightarrow> (TaskInfo \<Rightarrow> lost_reason option) \<Rightarrow> TaskInfo \<Rightarrow> sys \<Rightarrow> sys outcome" where
  "launch_one w sch err task s =
     (case err task of
        Some reason \<Rightarrow> report_lost w sch reason task s
      | None \<Rightarrow> Inr (s\<lparr>activeTasks := map_assign (id_value (ti_task_id task)) TASK_STAGING (activeTasks s)\<rparr>))"

lemma launch_loop_fold:
  assumes "callback_contract sch" and "live s" and "launch_loop w sch result tasks s = Inr (s', r)"
  shows "foldOutcome (launch_one w sch (task_error s)) tasks s = Inr s'"
  using assms(2,3)
proof (induction tasks arbitrary: s result)
  case (Cons task tasks)
  show ?case
  proof (cases "task_error s task")
    case None
    let ?s = "s\<lparr>activeTasks := map_assign (id_value (ti_task_id task)) TASK_STAGING (activeTasks s)\<rparr>"
    have "good s ?s" using Cons.prems by (intro good_same) (simp_all add: live_iff smap.inv_put)
    then have "live ?s" and f: "frame s ?s" by (simp_all add: good_def)
    from Cons.IH [OF this(1)] Cons.prems(2) None show ?thesis
      by (simp add: launch_one_def [of _ _ _ task] task_error_frame [OF f])
  next
    case (Some reason)
    with Cons.prems(2) obtain t where t: "report_lost w sch reason task s = Inr t"
      and l: "launch_loop w sch result tasks t = Inr (s', r)" by auto
    then have "live t" and f: "frame s t"
      using report_lost_effect(1) [OF assms(1) Cons.prems(1) t] by (simp_all add: good_def)
    from Cons.IH [OF this(1) l] t Some show ?thesis by (simp add: launch_one_def [of _ _ _ task] task_error_frame [OF f])
  qed
qed simp

lemma launch_fold_staging:
  assumes "map_sorted (activeTasks s)" and "\<forall>task \<in> set tasks. err task = None"
    and "foldOutcome (launch_one w sch err) tasks s = Inr s'"
  shows "trace s' = trace s \<and> (\<forall>i. map_find (activeTasks s') i =
    (if i \<in> (\<lambda>task. id_value (ti_task_id task)) ` set tasks then Some TASK_STAGING else map_find (activeTasks s) i))"
  using assms
proof (induction tasks arbitrary: s)
  case (Cons task tasks)
  let ?s = "s\<lparr>activeTasks := map_assign (id_value (ti_task_id task)) TASK_STAGING (activeTasks s)\<rparr>"
  have m: "map_sorted (activeTasks ?s)" using Cons.prems(1) by (simp add: smap.inv_put)
  have "foldOutcome (launch_one w sch err) tasks ?s = Inr s'" using Cons.prems(2,3) by (simp add: launch_one_def [of w sch err task])
  from Cons.IH [OF m _ this] Cons.prems(1,2) show ?case by (auto simp: smap.get_put)
qed simp

text \<open>
  C4. Launching tasks on a connected driver first goes through the tasks in order: a task with neither or both of
  an executor and a command, or whose executor names another framework, is reported to the
  framework as lost, once and with the reason, and every other task is recorded as staging. Nothing but
  these reports, and what the framework does in them, is output on the way. Then one message is sent
  to the master. It carries the offers, the filters and, in their order, exactly the other tasks,
  each completed with the framework's identifier and without an empty label collection. Where no
  task has an error this is all the output, all the tasks are staging afterwards, and no
  other task changes.
\<close>

theorem launch_tasks_connected:
  assumes "reach w u n s" and "connected s" and "status s = DRIVER_RUNNING"
    and "handle w (run_cb w u n) (Call (LaunchTasks offerIds tasks filters)) s = Some (Inr s')"
  shows "\<exists>t d. foldOutcome (launch_one w (run_cb w u n) (task_error s)) tasks s = Inr t \<and> trace t = trace s @ d \<and>
    s' = emit (Sent ''LaunchTasksMessage''
      (LaunchTasksMessage (framework_id s) offerIds
        (map (prepare_task s) (filter (\<lambda>t. task_error s t = None) tasks)) filters)) t \<and>
    (aborted t \<or> subseq (lost_reports (task_error s) tasks) d) \<and>
    ((\<forall>task \<in> set tasks. task_error s task = None) \<longrightarrow> d = [] \<and>
      (\<forall>i. map_find (activeTasks s') i =
        (if i \<in> (\<lambda>task. id_value (ti_task_id task)) ` set tasks then Some TASK_STAGING
         else map_find (activeTasks s) i)))"
proof -
  have l: "live s" and b: "isRunning (broker s)" using reach_inv [OF assms(1)] assms(2)
    by (auto simp: live_def sched_inv_def)
  then have m: "map_sorted (activeTasks s)" by (simp add: live_iff)
  from assms(2-4) l obtain t r where t: "launch_loop w (run_cb w u n) [] tasks s = Inr (t, r)"
    and s': "sendMessage (LaunchTasksMessage (framework_id t) offerIds r filters) t = Inr s'"
    by (auto simp: handle_def when_running_def launchTasks_def)
  note e = launch_loop_effect [OF run_cb_contract l t]
  note f = launch_loop_fold [OF run_cb_contract l t]
  obtain d where d: "trace t = trace s @ d" using e by (auto simp: good_def frame_def adds_def)
  have "framework_id t = framework_id s" "isRunning (broker t)"
    using e b by (auto simp: good_def frame_def framework_id_def)
  with s' e have s': "s' = emit (Sent ''LaunchTasksMessage'' (LaunchTasksMessage (framework_id s) offerIds
      (map (prepare_task s) (filter (\<lambda>t. task_error s t = None) tasks)) filters)) t"
    by (auto simp: sendMessage_def channel_write_def split: if_splits)
  moreover have "aborted t \<or> subseq (lost_reports (task_error s) tasks) d" using e d by auto
  moreover have "d = [] \<and> (\<forall>i. map_find (activeTasks s') i =
        (if i \<in> (\<lambda>task. id_value (ti_task_id task)) ` set tasks then Some TASK_STAGING
         else map_find (activeTasks s) i))" if "\<forall>task \<in> set tasks. task_error s task = None"
    using launch_fold_staging [OF m that f] d s' by (simp add: emit_def)
  ultimately show ?thesis using d f by blast
qed

theorem launch_tasks_connected_witness:
  "\<exists>s' mid. handle demo_world (run_cb demo_world quiet 1)
      (Call (LaunchTasks [Some ''o1''] [demo_task ''t1'', (demo_task ''t2'')\<lparr>ti_command := None\<rparr>] ''f''))
      demo_registered = Some (Inr s') \<and>
    trace s' = trace demo_registered @ mid @ [Sent ''LaunchTasksMessage''
      (LaunchTasksMessage (Some ''f1'') [Some ''o1''] [(demo_task ''t1'')\<lparr>ti_labels := None\<rparr>] ''f'')]"
proof -
  let ?tasks = "[demo_task ''t1'', (demo_task ''t2'')\<lparr>ti_command := None\<rparr>]"
  let ?ev = "Call (LaunchTasks [Some ''o1''] ?tasks ''f'')"
  have s: "connected demo_registered" "status demo_registered = DRIVER_RUNNING"
    by (simp_all add: demo_registered_def demo_started_def)
  have "\<exists>s'. handle demo_world (run_cb demo_world quiet 1) ?ev demo_registered = Some (Inr s')"
    by (simp add: handle_def when_running_def launchTasks_def task_error_def prepare_task_def demo_task_def
        report_lost_def statusUpdate_def invoke_def quiet_def statusUpdateAcknowledgement_def sendMessage_def
        demo_registered_def demo_started_def demo_start_def initial_def lost_update_def framework_id_def emit_def)
      (auto simp: channel_write_def emit_def trackTask_def lost_status_def empty_update_def)
  then obtain s' where h: "handle demo_world (run_cb demo_world quiet (Suc 0)) ?ev demo_registered = Some (Inr s')"
    by auto
  have "map (prepare_task demo_registered) (filter (\<lambda>t. task_error demo_registered t = None) ?tasks) =
      [(demo_task ''t1'')\<lparr>ti_labels := None\<rparr>]" "framework_id demo_registered = Some ''f1''"
    by (simp_all add: task_error_def prepare_task_def demo_task_def demo_registered_def framework_id_def opt_id_def)
  with launch_tasks_connected [OF demo_reach s h] h show ?thesis by (auto simp: emit_def)
qed

text \<open>
  C5. Launching tasks on a disconnected driver never sends a launch message, nor anything else but
  acknowledgements, not even through what the framework does in its callbacks; and the
  framework is told that each task is lost, in order, unless the process is aborted.
\<close>

theorem launch_tasks_disconnected:
  assumes "reach w u n s" and "\<not> connected s" and "status s = DRIVER_RUNNING"
    and "handle w (run_cb w u n) (Call (LaunchTasks offerIds tasks filters)) s = Some (Inr s')"
  shows "\<exists>d. trace s' = trace s @ d \<and> list_all only_ack d \<and>
    (aborted s' \<or> subseq (lost_reports (\<lambda>_. Some MasterDisconnected) tasks) d)"
proof -
  have l: "live s" using reach_inv [OF assms(1)] assms(3) by (simp add: live_def sched_inv_def)
  with assms(2-4) have "foldOutcome (report_lost w (run_cb w u n) MasterDisconnected) tasks s = Inr s'"
    by (auto simp: handle_def when_running_def launchTasks_def)
  from fold_lost_effect [OF run_cb_contract l this] assms(2) show ?thesis
    by (auto simp: good_def frame_def adds_def)
qed

theorem launch_tasks_disconnected_witness:
  "\<exists>s' d. handle demo_world (run_cb demo_world quiet 1) (Call (LaunchTasks [] [demo_task ''t1''] []))
      (demo_registered\<lparr>connected := False, pending := pending demo_registered @ [(RegistrationTimer, 0)]\<rparr>) =
      Some (Inr s') \<and>
    trace s' = trace demo_registered @ d \<and> list_all only_ack d"
proof -
  let ?s = "demo_registered\<lparr>connected := False, pending := pending demo_registered @ [(RegistrationTimer, 0)]\<rparr>"
  have "handle demo_world (run_cb demo_world quiet (Suc 0)) (Input ErrorMessage) demo_registered = Some (Inr ?s)"
    by (simp add: handle_def onInput_def startRegistration_def delay_def demo_registered_def)
  then have r: "reach demo_world quiet (Suc 0) ?s" by (rule reach_step [OF demo_reach])
  have s: "\<not> connected ?s" "status ?s = DRIVER_RUNNING" by (simp_all add: demo_registered_def demo_started_def)
  have "\<exists>s'. handle demo_world (run_cb demo_world quiet (Suc 0)) (Call (LaunchTasks [] [demo_task ''t1''] [])) ?s =
      Some (Inr s')"
    by (simp add: handle_def when_running_def launchTasks_def report_lost_def statusUpdate_def invoke_def quiet_def
        statusUpdateAcknowledgement_def sendMessage_def demo_registered_def demo_started_def demo_start_def
        initial_def lost_update_def framework_id_def emit_def)
  then obtain s' where h: "handle demo_world (run_cb demo_world quiet (Suc 0))
      (Call (LaunchTasks [] [demo_task ''t1''] [])) ?s = Some (Inr s')" by blast
  from launch_tasks_disconnected [OF r s h] h show ?thesis by auto
qed

subsection \<open>Automatic reconciliation\<close>

lemma staging_keys:
  assumes "map_sorted m"
  shows "sorted_wrt (<) (map fst (filter (\<lambda>(k, v). v = x) m)) \<and>
    (k \<in> set (map fst (filter (\<lambda>(k, v). v = x) m)) \<longleftrightarrow> map_find m k = Some x)"
proof -
  have s: "sorted_wrt (<) (map fst m)" using assms by (simp add: map_sorted_def)
  then have "distinct (map fst m)" by (simp add: strict_sorted_iff)
  then have "k \<in> set (map fst (filter (\<lambda>(k, v). v = x) m)) \<longleftrightarrow> map_find m k = Some x"
    by (auto simp: map_of_eq_Some_iff intro: rev_image_eqI)
  moreover have "sorted_wrt (<) (map fst (filter (\<lambda>(k, v). v = x) m))"
    using s by (auto simp: sorted_wrt_map intro: sorted_wrt_filter)
  ultimately show ?thesis by simp
qed

text \<open>
  C22. When the reconcile timer expires, a connected process asks the master about exactly the tasks it
  has launched and not heard of (those still staging), in the order of their identifiers, in one
  message, and sends nothing when there are none; in every case it schedules the timer again.
\<close>

theorem reconcile_staging:
  assumes "reach w u n s" and "(ReconcileTimer, k) \<in> set (pending s)"
  shows "\<exists>s' ks. handle w (run_cb w u n) (Expire ReconcileTimer k) s = Some (Inr s') \<and>
    sorted_wrt (<) ks \<and> (\<forall>task. task \<in> set ks \<longleftrightarrow> map_find (activeTasks s) task = Some TASK_STAGING) \<and>
    trace s' = trace s @ (if connected s \<and> ks \<noteq> [] then [Sent ''ReconcileTasksMessage''
      (ReconcileTasksMessage (framework_id s) (map staging_status ks))] else []) \<and>
    (ReconcileTimer, 60) \<in> set (pending s')"
proof -
  define ks where "ks = map fst (filter (\<lambda>(task, state). state = TASK_STAGING) (activeTasks s))"
  have inv: "sched_inv s" by (rule reach_inv [OF assms(1)])
  have "map (\<lambda>(task, state). staging_status task) (filter (\<lambda>(task, state). state = TASK_STAGING) (activeTasks s)) =
      map staging_status ks"
    by (simp add: ks_def case_prod_beta)
  then have "\<exists>s'. handle w (run_cb w u n) (Expire ReconcileTimer k) s = Some (Inr s') \<and>
      trace s' = trace s @ (if connected s \<and> ks \<noteq> [] then [Sent ''ReconcileTasksMessage''
        (ReconcileTasksMessage (framework_id s) (map staging_status ks))] else []) \<and>
      (ReconcileTimer, 60) \<in> set (pending s')"
    using assms(2) inv
    by (auto simp: handle_def checkReconcile_def Let_def reconcileTasks_def request_def sendMessage_def
        channel_write_def emit_def delay_def sched_inv_def framework_id_def)
  moreover have "map_sorted (activeTasks s)" using inv by (simp add: sched_inv_def)
  from staging_keys [OF this, of TASK_STAGING]
  have "sorted_wrt (<) ks \<and> (\<forall>task. task \<in> set ks \<longleftrightarrow> map_find (activeTasks s) task = Some TASK_STAGING)"
    by (simp add: ks_def)
  ultimately show ?thesis by blast
qed

theorem reconcile_staging_witness:
  "\<exists>s'. handle demo_world (run_cb demo_world quiet 1) (Expire ReconcileTimer 60) demo_registered = Some (Inr s') \<and>
    (ReconcileTimer, 60) \<in> set (pending s')"
  using reconcile_staging [OF demo_reach [of 0], of 60] by (auto simp: demo_registered_def)

subsection \<open>The status of the driver\<close>

lemma keeps_status_report:
  assumes "keeps_status sch"
  shows "holds (statusUpdate sch from update s) (\<lambda>s'. status s' = status s)"
proof -
  have "holds (sch cb (emit (Callback cb) s)) (\<lambda>t. status t = status s)" for cb
    using assms [unfolded keeps_status_def, rule_format, of cb "emit (Callback cb) s"] by (simp add: emit_def)
  then have "holds (sch cb (emit (Callback cb) s)) (\<lambda>t. holds (statusUpdateAcknowledgement update t) (\<lambda>r. status r = status s))" for cb
    by (rule holds_mono) (simp add: statusUpdateAcknowledgement_def sendMessage_def channel_write_def emit_def)
  then show ?thesis by (simp add: statusUpdate_def invoke_def holds_andThen_iff)
qed

lemma keeps_status_lost:
  assumes "keeps_status sch"
  shows "holds (report_lost w sch reason task s) (\<lambda>s'. status s' = status s)"
  using keeps_status_report [OF assms, of "[]" "lost_update w task reason s" "s\<lparr>draws := Suc (draws s)\<rparr>"]
  by (simp add: report_lost_def)

lemma keeps_status_loop:
  assumes "keeps_status sch"
  shows "holds (launch_loop w sch result tasks s) (\<lambda>(s', r). status s' = status s)"
proof (induction tasks arbitrary: s result)
  case (Cons task tasks)
  show ?case
  proof (cases "task_error s task")
    case None
    then show ?thesis using Cons.IH [of _ "s\<lparr>activeTasks := map_assign (id_value (ti_task_id task)) TASK_STAGING (activeTasks s)\<rparr>"] by simp
  next
    case (Some reason)
    have "holds (launch_loop w sch result tasks t) (\<lambda>(s', r). status s' = status s)" if "status t = status s" for t
      using Cons.IH [of result t] that by simp
    then show ?thesis using keeps_status_lost [OF assms, of w reason task s] Some
      by (auto simp: holds_andThen_iff intro: holds_mono)
  qed
qed simp

lemma keeps_status_launch:
  assumes "keeps_status sch"
  shows "holds (launchTasks w sch offerIds tasks filters s) (\<lambda>s'. status s' = status s)"
proof (cases "connected s")
  case True
  have "holds (require (master t \<noteq> []) (sendMessage m t)) (\<lambda>s'. status s' = status s)" if "status t = status s" for t m
    using that by (simp add: sendMessage_def channel_write_def emit_def)
  with True keeps_status_loop [OF assms, of w "[]" tasks s] show ?thesis
    by (auto simp: launchTasks_def holds_andThen_iff case_prod_unfold intro: holds_mono)
next
  case False
  have "holds (foldOutcome (report_lost w sch MasterDisconnected) tasks s) (\<lambda>s'. status s' = status s)"
  proof (rule holds_foldOutcome)
    show "holds (report_lost w sch MasterDisconnected x t) (\<lambda>s'. status s' = status s)" if "status t = status s" for x t
      using keeps_status_lost [OF assms, of w MasterDisconnected x t] that by simp
  qed simp
  with False show ?thesis by (simp add: launchTasks_def)
qed

lemma keeps_status_accept:
  assumes "keeps_status sch"
  shows "holds (acceptOffers w sch offerIds operations filters s) (\<lambda>s'. status s' = status s)"
proof (induction operations arbitrary: s)
  case (Cons operation operations)
  show ?case
  proof (cases operation)
    case (LAUNCH tasks)
    have "holds (acceptOffers w sch offerIds operations filters t) (\<lambda>s'. status s' = status s)" if "status t = status s" for t
      using Cons.IH [of t] that by simp
    with LAUNCH keeps_status_launch [OF assms, of w offerIds tasks filters s] show ?thesis
      by (auto simp: holds_andThen_iff intro: holds_mono)
  qed (simp add: Cons.IH)
qed simp

lemma when_running_status:
  "P s \<Longrightarrow> (status s = DRIVER_RUNNING \<Longrightarrow> has_process s) \<Longrightarrow> returns (f s) P \<Longrightarrow> returns (when_running f s) P"
  "P s \<Longrightarrow> holds (f s) P \<Longrightarrow> holds (when_running f s) P"
  by (simp_all add: when_running_def)

lemma request_status:
  "sched_inv s \<Longrightarrow> returns (request m s) (\<lambda>s'. status s' = status s)"
  by (auto simp: request_def sendMessage_def channel_write_def emit_def sched_inv_def)

lemma quiet_call_status:
  assumes "sched_inv s" and "\<not> lifecycle c" and "\<not> launches c"
  shows "returns (drv_call w sch c s) (\<lambda>s'. status s' = status s)"
proof -
  let ?P = "\<lambda>s'. status s' = status s"
  have w: "returns (when_running f s) ?P" if "returns (f s) ?P" for f
    using that assms(1) by (intro when_running_status) (simp_all add: sched_inv_def)
  have "returns (launchTasks w sch offerIds [] filters s) ?P" for offerIds filters
    using assms(1) by (auto simp: launchTasks_def sendMessage_def channel_write_def emit_def sched_inv_def)
  moreover have "returns (acknowledgeStatusUpdate st s) ?P" for st
    using assms(1) by (auto simp: acknowledgeStatusUpdate_def sendMessage_def channel_write_def emit_def sched_inv_def
        split: option.splits)
  moreover have "returns (killTask i s) ?P" "returns (reviveOffers s) ?P" "returns (sendFrameworkMessage i j data s) ?P"
    "returns (reconcileTasks statuses s) ?P" "returns (requestResources requests s) ?P" for i j data statuses requests
    unfolding killTask_def reviveOffers_def sendFrameworkMessage_def reconcileTasks_def requestResources_def
    by (rule request_status [OF assms(1)])+
  ultimately show ?thesis using assms(2,3) w by (cases c) simp_all
qed

lemma call_keeps_status:
  assumes "keeps_status sch" and "\<not> lifecycle c"
  shows "holds (drv_call w sch c s) (\<lambda>s'. status s' = status s)"
proof -
  let ?P = "\<lambda>s'. status s' = status s"
  have w: "holds (when_running f s) ?P" if "holds (f s) ?P" for f
    using that by (intro when_running_status) simp_all
  have "holds (request m s) ?P" for m
    by (simp add: request_def sendMessage_def channel_write_def emit_def)
  then have "holds (killTask i s) ?P" "holds (reviveOffers s) ?P" "holds (sendFrameworkMessage i j data s) ?P"
    "holds (reconcileTasks statuses s) ?P" "holds (requestResources requests s) ?P" for i j data statuses requests
    unfolding killTask_def reviveOffers_def sendFrameworkMessage_def reconcileTasks_def requestResources_def by blast+
  moreover have "holds (acknowledgeStatusUpdate st s) ?P" for st
    by (simp add: acknowledgeStatusUpdate_def sendMessage_def channel_write_def emit_def split: option.splits)
  moreover have "holds (driver_acceptOffers w sch offerIds operations filters s) ?P" for offerIds operations filters
    using keeps_status_accept [OF assms(1), of w offerIds operations filters s] by auto
  ultimately show ?thesis
    using assms(2) w keeps_status_launch [OF assms(1), of w _ _ _ s] by (cases c) (simp_all del: driver_acceptOffers_def)
qed

text \<open>
  C23. The status of the driver changes in the calls that manage it, and only there. In every reachable state these
  return and move the status: start to running, stop to stopped from running or aborted, abort to
  aborted from running, with no change otherwise; stop reports an earlier abort by its result.
  Every other call leaves a driver that is not running exactly as it is. On a running driver the calls
  that do not launch return and keep the status, and so does a launch as long as the
  callbacks it leads to keep it.
\<close>

theorem driver_status:
  assumes "reach w u n s"
  shows "(lifecycle c \<longrightarrow> returns (drv_call w (run_cb w u n) c s) (\<lambda>s'. status s' = status_next (status s) c)) \<and>
    (\<not> lifecycle c \<and> status s \<noteq> DRIVER_RUNNING \<longrightarrow> drv_call w (run_cb w u n) c s = Inr s) \<and>
    returns (driver_stop fo s) (\<lambda>(s', result). status s' = status_next (status s) (Stop fo) \<and>
      result = (if status s = DRIVER_ABORTED then DRIVER_ABORTED else status s')) \<and>
    (\<not> lifecycle c \<and> \<not> launches c \<longrightarrow> returns (drv_call w (run_cb w u n) c s) (\<lambda>s'. status s' = status s)) \<and>
    (\<not> lifecycle c \<and> keeps_status sch \<longrightarrow> holds (drv_call w sch c s) (\<lambda>s'. status s' = status s))"
proof -
  have inv: "sched_inv s" by (rule reach_inv [OF assms])
  have stop: "returns (stop fo s) (\<lambda>t. status t = status s)" for fo
    using inv by (auto simp: stop_def sendMessage_def channel_write_def emit_def sched_inv_def)
  have d: "returns (driver_stop fo s) (\<lambda>(s', result). status s' = status_next (status s) (Stop fo) \<and>
      result = (if status s = DRIVER_ABORTED then DRIVER_ABORTED else status s'))" for fo
    using returns_mono [OF stop [of fo]] by (auto simp: driver_stop_def Let_def)
  have "returns (drv_call w (run_cb w u n) c s) (\<lambda>s'. status s' = status_next (status s) c)" if "lifecycle c"
  proof (cases c)
    case Start
    then show ?thesis using inv by (auto simp: driver_start_def sched_inv_def)
  next
    case (Stop fo)
    then show ?thesis using returns_mono [OF d [of fo]] by (simp add: case_prod_unfold)
  next
    case Abort
    then show ?thesis
      using inv by (auto simp: driver_abort_def abort_def sendMessage_def channel_write_def emit_def sched_inv_def)
  qed (use that in simp_all)
  moreover have "drv_call w (run_cb w u n) c s = Inr s" if "\<not> lifecycle c" "status s \<noteq> DRIVER_RUNNING"
    using that by (cases c) (simp_all add: when_running_def)
  ultimately show ?thesis using d quiet_call_status [OF inv] call_keeps_status by blast
qed

theorem driver_status_witness:
  "returns (drv_call demo_world (run_cb demo_world quiet 1) Abort demo_registered) (\<lambda>s'. status s' = DRIVER_ABORTED) \<and>
   drv_call demo_world (run_cb demo_world quiet 1) ReviveOffers demo_start = Inr demo_start \<and>
   returns (drv_call demo_world (run_cb demo_world quiet 1) ReviveOffers demo_registered) (\<lambda>s'. status s' = DRIVER_RUNNING)"
proof -
  have "reach demo_world quiet 1 demo_start" unfolding demo_start_def by (rule reach_initial)
  then show ?thesis
    using driver_status [OF demo_reach [of 0], of Abort] driver_status [of demo_world quiet 1 demo_start ReviveOffers]
      driver_status [OF demo_reach [of 0], of ReviveOffers]
    by (simp add: demo_registered_def demo_started_def demo_start_def initial_def)
qed

subsection \<open>Abort\<close>

text \<open>
  C24. Once the process is aborted, no message from the broker leads to a callback: every message is
  handled without failure, leaves the process aborted, and adds no callback to the output.
\<close>

theorem aborted_no_callbacks:
  assumes "reach w u n s" and "aborted s" and "handle w (run_cb w u n) (Input m) s = Some r"
  shows "\<exists>s' d. r = Inr s' \<and> aborted s' \<and> trace s' = trace s @ d \<and> list_all no_callback d"
proof -
  have inv: "sched_inv s" by (rule reach_inv [OF assms(1)])
  then have c: "channelsCreated s" using assms(2) by (simp add: sched_inv_def)
  from assms(3) have r: "r = onInput (run_cb w u n) m s" by (auto simp: handle_def split: if_splits)
  have send: "\<exists>s' d. sendMessage x s = Inr s' \<and> aborted s' \<and> trace s' = trace s @ d \<and> list_all no_callback d" for x
    using c assms(2) by (simp add: sendMessage_def channel_write_def emit_def no_callback_def)
  show ?thesis
  proof (cases m)
    case ErrorMessage
    then show ?thesis using assms(2) by (simp add: r onInput_def startRegistration_def delay_def)
  next
    case (InMessage tgt p)
    show ?thesis
    proof (cases "map_of messages tgt")
      case (Some kind)
      with InMessage assms(2) send show ?thesis
        by (cases kind) (simp_all add: r onInput_def registered_def reregistered_def error_def lostSlave_def
          rescindOffer_def resourceOffers_def frameworkMessage_def statusUpdate_def)
    qed (use InMessage assms(2) in \<open>simp add: r onInput_def\<close>)
  qed
qed

theorem aborted_no_callbacks_witness:
  "\<exists>s. reach demo_world quiet 1 s \<and> aborted s \<and>
     (\<exists>s' d. handle demo_world (run_cb demo_world quiet 1) (Input (InMessage ''ResourceOffersMessage'' empty_payload)) s =
        Some (Inr s') \<and> trace s' = trace s @ d \<and> list_all no_callback d)"
proof -
  let ?s = "(emit (Sent ''DeactivateFrameworkMessage'' (DeactivateFrameworkMessage (Some ''f1'')))
      demo_registered)\<lparr>connected := False, aborted := True, status := DRIVER_ABORTED\<rparr>"
  have "handle demo_world (run_cb demo_world quiet 1) (Call Abort) demo_registered = Some (Inr ?s)"
    by (simp add: handle_def driver_abort_def abort_def sendMessage_def channel_write_def emit_def demo_registered_def
        demo_started_def demo_start_def initial_def framework_id_def opt_id_def)
  then have r: "reach demo_world quiet 1 ?s" using reach_step demo_reach by (metis One_nat_def)
  have a: "aborted ?s" by simp
  obtain q where h: "handle demo_world (run_cb demo_world quiet 1)
      (Input (InMessage ''ResourceOffersMessage'' empty_payload)) ?s = Some q"
    by (simp add: handle_def demo_registered_def emit_def)
  from aborted_no_callbacks [OF r a h] h r a show ?thesis by blast
qed

subsection \<open>Depth of nested callbacks\<close>

lemma bounded_simps [simp]:
  "bounded (Inr x)" "bounded (Inl CheckFailed)" "bounded (Inl WildChannel)" "\<not> bounded (Inl DepthExceeded)"
  by (simp_all add: bounded_def)

lemma bounded_andThen: "bounded r \<Longrightarrow> (\<And>x. bounded (f x)) \<Longrightarrow> bounded (andThen r f)"
  by (cases r) (auto simp: bounded_def)

lemma bounded_require [simp]: "bounded (require b r) \<longleftrightarrow> (b \<longrightarrow> bounded r)"
  by (cases b) auto

lemma bounded_fold: "(\<And>x s. x \<in> set xs \<Longrightarrow> bounded (f x s)) \<Longrightarrow> bounded (foldOutcome f xs s)"
  by (induction xs arbitrary: s) (auto intro!: bounded_andThen)

lemma bounded_sendMessage [simp]: "bounded (sendMessage m s)"
  by (simp add: sendMessage_def)

lemma bounded_request [simp]: "bounded (request m s)"
  by (simp add: request_def)

lemmas request_defs = killTask_def requestResources_def reviveOffers_def sendFrameworkMessage_def reconcileTasks_def

lemma bounded_calls:
  assumes "\<not> launches c"
  shows "bounded (drv_call w sch c s)"
  using assms
  by (cases c)
    (auto simp: when_running_def driver_start_def driver_stop_def driver_abort_def stop_def abort_def request_defs
      launchTasks_def acknowledgeStatusUpdate_def Let_def split: option.splits intro!: bounded_andThen)

lemma bounded_statusUpdate:
  assumes "\<And>st s. bounded (sch (CbStatusUpdate st) s)"
  shows "bounded (statusUpdate sch from u s)"
  using assms
  by (auto simp: statusUpdate_def invoke_def statusUpdateAcknowledgement_def intro!: bounded_andThen)

lemma bounded_launch_loop:
  assumes "\<And>st s. bounded (sch (CbStatusUpdate st) s)"
  shows "bounded (launch_loop w sch result tasks s)"
  by (induction tasks arbitrary: result s)
    (auto simp: report_lost_def bounded_statusUpdate [of sch, OF assms] split: option.splits intro!: bounded_andThen)

lemma bounded_launchTasks:
  assumes "\<And>st s. bounded (sch (CbStatusUpdate st) s)"
  shows "bounded (launchTasks w sch offerIds tasks filters s)"
  using bounded_launch_loop [of sch, OF assms]
  by (auto simp: launchTasks_def report_lost_def bounded_statusUpdate [of sch, OF assms] intro!: bounded_andThen bounded_fold)

lemma bounded_acceptOffers:
  assumes "\<And>st s. bounded (sch (CbStatusUpdate st) s)"
  shows "bounded (acceptOffers w sch offerIds operations filters s)"
proof (induction operations arbitrary: s)
  case (Cons op operations)
  then show ?case
    by (cases op) (auto intro!: bounded_andThen bounded_launchTasks [of sch, OF assms])
qed simp

lemma bounded_drv_call:
  assumes "\<And>st s. bounded (sch (CbStatusUpdate st) s)"
  shows "bounded (drv_call w sch c s)"
proof (cases "launches c")
  case True
  then show ?thesis
    by (cases c) (simp_all add: when_running_def bounded_launchTasks [of sch, OF assms] bounded_acceptOffers [of sch, OF assms])
qed (rule bounded_calls)

lemma bounded_run_cb:
  assumes "no_relaunch u"
  shows "bounded (run_cb w u (Suc n) (CbStatusUpdate st) s)" and "bounded (run_cb w u (Suc (Suc n)) cb s)"
proof -
  show b: "bounded (run_cb w u (Suc n) (CbStatusUpdate st) s)" for n st s
    using assms by (auto simp: no_relaunch_def list_all_iff intro!: bounded_fold bounded_calls)
  show "bounded (run_cb w u (Suc (Suc n)) cb s)"
    unfolding run_cb.simps(2) [of w u "Suc n"]
    by (intro bounded_fold bounded_drv_call b)
qed

lemma bounded_onInput:
  assumes "\<And>cb s. bounded (sch cb s)"
  shows "bounded (onInput sch m s)"
proof (cases m)
  case (InMessage tgt p)
  have i: "bounded (invoke sch cb s)" for cb s using assms by (simp add: invoke_def)
  have a: "bounded (driver_abort s)"
    by (auto simp: driver_abort_def abort_def intro!: bounded_andThen)
  show ?thesis
  proof (cases "map_of messages tgt")
    case (Some kind)
    with InMessage i a show ?thesis
      by (cases kind) (auto simp: onInput_def registered_def reregistered_def error_def lostSlave_def Let_def
          rescindOffer_def resourceOffers_def frameworkMessage_def startHeartbeat_def
          intro!: bounded_andThen bounded_statusUpdate assms)
  qed (simp add: InMessage onInput_def)
qed (simp add: onInput_def)

lemma bounded_timer: "bounded (on_timer w t s)"
  by (cases t) (auto simp: doReliableRegistration_def sendRegister_def checkReconcile_def reconcileTasks_def Let_def
      split: prod.splits exn.splits intro!: bounded_andThen)

text \<open>
  C25. A framework that launches no tasks from within its status update callback never nests callbacks
  more than two deep: with that depth no event in any state exceeds the bound.
\<close>

theorem callback_depth:
  assumes "no_relaunch u"
  shows "handle w (run_cb w u (Suc (Suc n))) ev s \<noteq> Some (Inl DepthExceeded)"
proof -
  have "bounded (run_cb w u (Suc (Suc n)) cb t)" for cb t by (rule bounded_run_cb [OF assms])
  then have "bounded (onInput (run_cb w u (Suc (Suc n))) m s)" "bounded (drv_call w (run_cb w u (Suc (Suc n))) c s)" for m c
    by (auto intro!: bounded_onInput bounded_drv_call)
  then show ?thesis
    using bounded_timer [of w]
    by (auto simp: handle_def bounded_def split: event.splits if_splits)
qed

theorem callback_depth_witness:
  "no_relaunch quiet \<and> handle demo_world (run_cb demo_world quiet 2)
     (Call (LaunchTasks [] [(demo_task ''t1'')\<lparr>ti_command := None\<rparr>] [])) demo_registered \<noteq> Some (Inl DepthExceeded)"
proof -
  have "no_relaunch quiet" by (simp add: no_relaunch_def quiet_def)
  then show ?thesis using callback_depth [of quiet demo_world 0] by (simp add: numeral_2_eq_2)
qed

text \<open>
  C40. A framework that answers every status update by launching its task again sends a disconnected
  driver into unbounded recursion: whatever depth the stack allows, launching the task exceeds it.
\<close>

theorem relaunch_diverges:
  assumes "live s" and "status s = DRIVER_RUNNING" and "\<not> connected s" and "\<not> aborted s"
  shows "handle w (run_cb w (relauncher task) n) (Call (LaunchTasks [] [task] [])) s = Some (Inl DepthExceeded)"
proof -
  have "drv_call w (run_cb w (relauncher task) n) (LaunchTasks [] [task] []) s = Inl DepthExceeded"
    using assms
  proof (induction n arbitrary: s)
    case 0
    then show ?case
      by (simp add: when_running_def live_iff launchTasks_def report_lost_def statusUpdate_def invoke_def
          lost_update_def framework_id_def)
  next
    case (Suc n)
    let ?s = "emit (Callback (CbStatusUpdate (lost_status task MasterDisconnected))) (s\<lparr>draws := Suc (draws s)\<rparr>)"
    have "live ?s" "status ?s = DRIVER_RUNNING" "\<not> connected ?s" "\<not> aborted ?s"
      using Suc.prems by (simp_all add: live_iff emit_def)
    from Suc.IH [OF this] Suc.prems show ?case
      by (simp add: when_running_def live_iff launchTasks_def report_lost_def statusUpdate_def invoke_def
          lost_update_def framework_id_def relauncher_def lost_status_def)
  qed
  then show ?thesis by (simp add: handle_def)
qed

theorem relaunch_diverges_witness:
  "handle demo_world (run_cb demo_world (relauncher (demo_task ''t1'')) 1000)
     (Call (LaunchTasks [] [demo_task ''t1''] [])) demo_started = Some (Inl DepthExceeded)"
  by (rule relaunch_diverges)
    (simp_all add: live_iff demo_started_def demo_start_def initial_def)

subsection \<open>Registration\<close>

lemma registration_timer_retry:
  assumes "parse_url (master s) = Inr url" and "usable url" and "\<not> connected s" and "\<not> aborted s" and "master s \<noteq> []"
    and "(RegistrationTimer, d) \<in> set (pending s)"
    and "\<And>a. w_connect w (attempts (broker s)) a = None"
  shows "\<exists>b. attempts b = Suc (attempts (broker s)) \<and>
    handle w sch (Expire RegistrationTimer d) s = Some (Inr (s\<lparr>broker := b,
      pending := remove1 (RegistrationTimer, d) (pending s) @ [(RegistrationTimer, 1)]\<rparr>))"
proof -
  obtain b e where b: "setUrl (w_connect w) (master s) (broker s) = (b, e)"
    by (cases "setUrl (w_connect w) (master s) (broker s)")
  from setUrl_attempt [OF assms(1,2) b] assms(7) have "attempts b = Suc (attempts (broker s))" "e = Thrown" by auto
  with b assms(3-6) show ?thesis by (auto simp: handle_def doReliableRegistration_def delay_def)
qed

text \<open>
  The state in which a process waits for the answer to its request: it listens on its channel, has nothing left
  to retry in the retry timer, and takes the answer of the master as its registration.
\<close>

definition awaits_answer :: "world \<Rightarrow> callback \<Rightarrow> sys \<Rightarrow> bool" where
  "awaits_answer w sch s \<longleftrightarrow>
     isRunning (broker s) \<and> channelsCreated s \<and> \<not> connected s \<and> \<not> aborted s \<and>
     (\<forall>p. \<exists>t. handle w sch (Input (InMessage ''FrameworkRegisteredMessage'' p)) s =
        Some (invoke sch (CbRegistered (p_framework_id p) (p_master_info p)) t) \<and>
        connected t \<and> fi_id (framework t) = Some (merge_id (framework_id s) (p_framework_id p)))"

lemma awaits_answerI:
  assumes "isRunning (broker s)" and "channelsCreated s" and "\<not> connected s" and "\<not> aborted s"
  shows "awaits_answer w sch s"
proof -
  have m: "map_of messages ''FrameworkRegisteredMessage'' = Some FRAMEWORK_REGISTERED" by code_simp
  have h: "handle w sch (Input (InMessage ''FrameworkRegisteredMessage'' p)) s =
      Some (invoke sch (CbRegistered (p_framework_id p) (p_master_info p))
        (delay HeartbeatTimer 60 (s\<lparr>framework := (framework s)\<lparr>fi_id := Some (merge_id (framework_id s) (p_framework_id p))\<rparr>,
           connected := True, failover := False, heartbeat := Some (notifyChannel s, id_value (p_framework_id p))\<rparr>)))" for p
    using assms m by (simp add: handle_def onInput_def registered_def startHeartbeat_def Let_def)
  have "\<exists>t. handle w sch (Input (InMessage ''FrameworkRegisteredMessage'' p)) s =
        Some (invoke sch (CbRegistered (p_framework_id p) (p_master_info p)) t) \<and>
        connected t \<and> fi_id (framework t) = Some (merge_id (framework_id s) (p_framework_id p))" for p
    by (rule exI, rule conjI [OF h]) (simp add: delay_def)
  with assms show ?thesis by (simp add: awaits_answer_def)
qed

lemma registration_timer_success:
  assumes "parse_url (master s) = Inr url" and "usable url" and "\<not> connected s" and "\<not> aborted s" and "master s \<noteq> []"
    and "(RegistrationTimer, d) \<in> set (pending s)"
    and "\<And>a. w_connect w (attempts (broker s)) a \<noteq> None"
  shows "\<exists>s' ch. handle w sch (Expire RegistrationTimer d) s = Some (Inr s') \<and>
    trace s' = trace s @ [Listen ch, Sent (target (registration_request w s)) (registration_request w s)] \<and>
    pending s' = remove1 (RegistrationTimer, d) (pending s) \<and> awaits_answer w sch s'"
proof -
  obtain b e where b: "setUrl (w_connect w) (master s) (broker s) = (b, e)"
    by (cases "setUrl (w_connect w) (master s) (broker s)")
  from setUrl_attempt [OF assms(1,2) b] assms(7) have "isRunning b" "e = Completed" by auto
  with b assms(3-6) have "\<exists>s' ch. handle w sch (Expire RegistrationTimer d) s = Some (Inr s') \<and>
    trace s' = trace s @ [Listen ch, Sent (target (registration_request w s)) (registration_request w s)] \<and>
    pending s' = remove1 (RegistrationTimer, d) (pending s) \<and>
    isRunning (broker s') \<and> channelsCreated s' \<and> \<not> connected s' \<and> \<not> aborted s'"
    by (auto simp: handle_def doReliableRegistration_def createChannels_def sendRegister_def sendMessage_def
        channel_write_def emit_def Let_def registration_request_def framework_id_def)
  then show ?thesis by (blast intro: awaits_answerI)
qed

text \<open>
  C26. The request to register is persistent: from any state in which the registration timer is pending on a
  process that is neither connected nor aborted, if redis refuses the next \<open>k\<close> attempts to connect
  and answers the one after, then \<open>k\<close> expiries of the retry timer later the process listens on its
  channel, has sent the request to register once, or to re-register when the framework already
  has an identifier and is not failing over, and has no further attempt pending on account of these. It then
  waits for the master: a message that the framework is registered makes the process connected,
  with the identifier in the message, and is handed to the framework.
\<close>

theorem registration_persistent:
  assumes "parse_url (master s) = Inr url" and "usable url" and "\<not> connected s" and "\<not> aborted s"
    and "(RegistrationTimer, d) \<in> set (pending s)"
    and "\<And>i a. i < k \<Longrightarrow> w_connect w (attempts (broker s) + i) a = None"
    and "\<And>a. w_connect w (attempts (broker s) + k) a \<noteq> None"
  shows "\<exists>s' ch. run_events w sch (Expire RegistrationTimer d # replicate k (Expire RegistrationTimer 1)) s =
      Some (Inr s') \<and>
    trace s' = trace s @ [Listen ch, Sent (target (registration_request w s)) (registration_request w s)] \<and>
    mset (pending s') = mset (pending s) - {#(RegistrationTimer, d)#} \<and> awaits_answer w sch s'"
  using assms
proof (induction k arbitrary: s d)
  case 0
  have "master s \<noteq> []" using 0(1) by (auto simp: parse_url_def trim_def trim_chars_def find_first_not_of_def)
  with registration_timer_success [of s url d w sch] 0 show ?case by auto
next
  case (Suc k)
  have m: "master s \<noteq> []" using Suc.prems(1) by (auto simp: parse_url_def trim_def trim_chars_def find_first_not_of_def)
  obtain b where b: "attempts b = Suc (attempts (broker s))"
    and h: "handle w sch (Expire RegistrationTimer d) s = Some (Inr (s\<lparr>broker := b,
      pending := remove1 (RegistrationTimer, d) (pending s) @ [(RegistrationTimer, 1)]\<rparr>))"
    using registration_timer_retry [OF Suc.prems(1-4) m Suc.prems(5), of w sch] Suc.prems(6) [of 0] by auto
  let ?s = "s\<lparr>broker := b, pending := remove1 (RegistrationTimer, d) (pending s) @ [(RegistrationTimer, 1)]\<rparr>"
  have "registration_request w ?s = registration_request w s"
    by (simp add: registration_request_def framework_id_def)
  moreover have "mset (pending ?s) - {#(RegistrationTimer, 1)#} = mset (pending s) - {#(RegistrationTimer, d)#}"
    using Suc.prems(5) by simp
  moreover have "\<exists>s' ch. run_events w sch (Expire RegistrationTimer 1 # replicate k (Expire RegistrationTimer 1)) ?s =
      Some (Inr s') \<and>
    trace s' = trace ?s @ [Listen ch, Sent (target (registration_request w ?s)) (registration_request w ?s)] \<and>
    mset (pending s') = mset (pending ?s) - {#(RegistrationTimer, 1)#} \<and> awaits_answer w sch s'"
  proof (rule Suc.IH)
    show "w_connect w (attempts (broker ?s) + i) a = None" if "i < k" for i a
      using Suc.prems(6) [of "Suc i" a] that b by simp
    show "w_connect w (attempts (broker ?s) + k) a \<noteq> None" for a
      using Suc.prems(7) [of a] b by simp
  qed (use Suc.prems in simp_all)
  ultimately show ?case using h by simp
qed

theorem registration_persistent_witness:
  "\<exists>s'. run_events (demo_world\<lparr>w_connect := (\<lambda>n _. if n < 2 then None else Some 7)\<rparr>)
      (run_cb demo_world quiet 1) (Expire RegistrationTimer 0 # replicate 2 (Expire RegistrationTimer 1)) demo_started =
      Some (Inr s') \<and>
    last (trace s') = Sent ''RegisterFrameworkMessage'' (RegisterFrameworkMessage demo_info None)"
proof -
  let ?w = "demo_world\<lparr>w_connect := (\<lambda>n _. if n < 2 then None else Some 7)\<rparr>"
  have "parse_url ''urb://h'' = Inr \<lparr>url_servers = ''h'', url_credentials = [], url_path = ''/'', url_ha = False\<rparr>"
    by code_simp
  moreover have "usable \<lparr>url_servers = ''h'', url_credentials = [], url_path = ''/'', url_ha = False\<rparr>" by code_simp
  moreover have "registration_request ?w demo_started = RegisterFrameworkMessage demo_info None"
    by (simp add: registration_request_def demo_started_def demo_start_def initial_def demo_info_def demo_world_def)
  ultimately show ?thesis
    using registration_persistent [of demo_started _ 0 2 ?w "run_cb demo_world quiet 1"]
    by (fastforce simp: demo_started_def demo_start_def initial_def broker_start_def)
qed

text \<open>
  A master that is not a URL ends registration silently: the broker logs the error and returns,
  so the process creates a channel without an endpoint, sends nothing, and schedules no retry.
\<close>

theorem bad_url_never_retries:
  assumes "parse_url (master s) = Inl err" and "master s \<noteq> []" and "\<not> isRunning (broker s)"
    and "\<not> connected s" and "\<not> aborted s" and "\<not> channelsCreated s" and "(RegistrationTimer, d) \<in> set (pending s)"
  shows "\<exists>s'. handle w sch (Expire RegistrationTimer d) s = Some (Inr s') \<and>
    pending s' = remove1 (RegistrationTimer, d) (pending s) \<and> \<not> connected s' \<and>
    trace s' = trace s @ [Listen (endpointIdStr (broker s) @ ''.notify'')]"
  using assms
  by (auto simp: handle_def doReliableRegistration_def setUrl_bad_url createChannels_def sendRegister_def
      sendMessage_def channel_write_def emit_def createChannel_def Let_def)

theorem bad_url_never_retries_witness:
  "\<exists>s'. handle demo_world (run_cb demo_world quiet 1) (Expire RegistrationTimer 0)
      (demo_started\<lparr>master := ''host:6379''\<rparr>) = Some (Inr s') \<and> pending s' = [(ReconcileTimer, 60)]"
proof -
  have "parse_url ''host:6379'' = Inl NoUrbScheme" by code_simp
  then show ?thesis
    using bad_url_never_retries [of "demo_started\<lparr>master := ''host:6379''\<rparr>" _ 0 demo_world "run_cb demo_world quiet 1"]
    by (auto simp: demo_started_def demo_start_def initial_def broker_start_def)
qed

subsection \<open>Abort of a disconnected driver, and what follows an abort\<close>

text \<open>
  Aborting a driver that is not connected does not abort its process: when the master's answer
  to the registration arrives afterwards, the framework still gets its callback, although the
  driver reports that it is aborted.
\<close>

theorem abort_disconnected_still_calls_back:
  assumes "reach w u n s" and "status s = DRIVER_RUNNING" and "\<not> connected s" and "\<not> aborted s"
    and "channelsCreated s" and "isRunning (broker s)"
    and "run_events w (run_cb w u n) [Call Abort, Input (InMessage ''FrameworkRegisteredMessage'' p)] s = Some (Inr s')"
  shows "\<exists>d. trace s' = trace s @ Callback (CbRegistered (p_framework_id p) (p_master_info p)) # d"
proof -
  let ?s = "s\<lparr>status := DRIVER_ABORTED\<rparr>"
  let ?t = "delay HeartbeatTimer 60 (?s\<lparr>framework := (framework s)\<lparr>fi_id := Some (merge_id (framework_id s) (p_framework_id p))\<rparr>,
      connected := True, failover := False, heartbeat := Some (notifyChannel s, id_value (p_framework_id p))\<rparr>)"
  have l: "live s" using reach_inv [OF assms(1)] assms(2) by (simp add: live_def sched_inv_def)
  have k: "map_of messages ''FrameworkRegisteredMessage'' = Some FRAMEWORK_REGISTERED" by code_simp
  have "handle w (run_cb w u n) (Call Abort) s = Some (Inr ?s)"
    using assms(2,3) l by (simp add: handle_def driver_abort_def abort_def live_def)
  with assms(3-7) k have "invoke (run_cb w u n) (CbRegistered (p_framework_id p) (p_master_info p)) ?t = Inr s'"
    by (auto simp: handle_def onInput_def registered_def startHeartbeat_def framework_id_def Let_def delay_def
        split: option.splits sum.splits)
  moreover have "live ?t" using l assms(4-6) by (auto simp: live_iff delay_def)
  ultimately have "good (emit (Callback (CbRegistered (p_framework_id p) (p_master_info p))) ?t) s'"
    using fwk.sch_good [OF emit_live] unfolding invoke_def by (blast intro: safe_result)
  then show ?thesis by (auto simp: good_def frame_def adds_def emit_def delay_def)
qed

theorem abort_disconnected_still_calls_back_witness:
  "\<exists>s s' d. reach demo_world quiet 1 s \<and>
     run_events demo_world (run_cb demo_world quiet 1) [Call Abort, Input (InMessage ''FrameworkRegisteredMessage'' empty_payload)] s =
       Some (Inr s') \<and> trace s' = trace s @ Callback (CbRegistered None []) # d"
proof -
  let ?s = "demo_registered\<lparr>connected := False, pending := pending demo_registered @ [(RegistrationTimer, 0)]\<rparr>"
  have "handle demo_world (run_cb demo_world quiet (Suc 0)) (Input ErrorMessage) demo_registered = Some (Inr ?s)"
    by (simp add: handle_def onInput_def startRegistration_def delay_def demo_registered_def)
  then have r: "reach demo_world quiet 1 ?s" using reach_step [OF demo_reach] by (metis One_nat_def)
  have k: "map_of messages ''FrameworkRegisteredMessage'' = Some FRAMEWORK_REGISTERED" by code_simp
  have s: "status ?s = DRIVER_RUNNING" "\<not> connected ?s" "\<not> aborted ?s" "channelsCreated ?s" "isRunning (broker ?s)"
    by (simp_all add: demo_registered_def demo_started_def demo_start_def initial_def)
  have "\<exists>s'. run_events demo_world (run_cb demo_world quiet 1)
      [Call Abort, Input (InMessage ''FrameworkRegisteredMessage'' empty_payload)] ?s = Some (Inr s')"
    using k s by (simp add: handle_def driver_abort_def abort_def onInput_def registered_def startHeartbeat_def Let_def
        delay_def invoke_def quiet_def emit_def demo_registered_def demo_started_def)
  then obtain s' where e: "run_events demo_world (run_cb demo_world quiet 1)
      [Call Abort, Input (InMessage ''FrameworkRegisteredMessage'' empty_payload)] ?s = Some (Inr s')" by blast
  from abort_disconnected_still_calls_back [OF r s e] e r show ?thesis
    by (intro exI [of _ ?s] exI [of _ s']) (simp add: empty_payload_def)
qed

text \<open>
  A lost broker connection revives an aborted process: after an abort of a connected driver, the
  loss of the connection and the expiry of the registration timer leave the process connected and
  no longer aborted, without a message to the master, while the driver's status is still aborted.
\<close>

theorem broker_error_revives:
  assumes "reach w u n s" and "connected s" and "status s = DRIVER_RUNNING"
  shows "\<exists>s'. run_events w (run_cb w u n) [Call Abort, Input ErrorMessage, Expire RegistrationTimer 0] s = Some (Inr s') \<and>
    connected s' \<and> \<not> aborted s' \<and> status s' = DRIVER_ABORTED \<and>
    trace s' = trace s @ [Sent ''DeactivateFrameworkMessage'' (DeactivateFrameworkMessage (framework_id s))]"
  using reach_inv [OF assms(1)] assms(2,3)
  by (auto simp: sched_inv_def handle_def driver_abort_def abort_def sendMessage_def channel_write_def emit_def
      onInput_def startRegistration_def delay_def doReliableRegistration_def)

theorem broker_error_revives_witness:
  "\<exists>s'. run_events demo_world (run_cb demo_world quiet 1) [Call Abort, Input ErrorMessage, Expire RegistrationTimer 0]
      demo_registered = Some (Inr s') \<and> connected s' \<and> status s' = DRIVER_ABORTED"
  using broker_error_revives [OF demo_reach [of 0]] by (auto simp: demo_registered_def demo_started_def)

text \<open>
  Between the start of the driver and its first attempt to register there is no channel: a
  framework that launches a task then gets its callback, and the acknowledgement that follows
  goes through a channel pointer that was never assigned.
\<close>

theorem early_launch_wild_channel:
  assumes "reach w quiet (Suc n) s" and "status s = DRIVER_RUNNING" and "\<not> channelsCreated s" and "tasks \<noteq> []"
  shows "handle w (run_cb w quiet (Suc n)) (Call (LaunchTasks offerIds tasks filters)) s = Some (Inl WildChannel)"
proof -
  have "sched_inv s" by (rule reach_inv [OF assms(1)])
  with assms(2-4) show ?thesis
    by (cases tasks) (auto simp: sched_inv_def handle_def when_running_def launchTasks_def report_lost_def
        statusUpdate_def invoke_def quiet_def emit_def lost_update_def framework_id_def
        statusUpdateAcknowledgement_def sendMessage_def)
qed

theorem early_launch_wild_channel_witness:
  "handle demo_world (run_cb demo_world quiet 1) (Call (LaunchTasks [] [demo_task ''t1''] [])) demo_started =
     Some (Inl WildChannel)"
proof -
  have "handle demo_world (run_cb demo_world quiet (Suc 0)) (Call Start) demo_start = Some (Inr demo_started)"
    by (simp add: handle_def driver_start_def new_process_def startRegistration_def delay_def demo_started_def
        demo_start_def initial_def demo_info_def)
  then have "reach demo_world quiet (Suc 0) demo_started"
    using reach_step [OF reach_initial] unfolding demo_start_def by blast
  from early_launch_wild_channel [OF this] show ?thesis
    by (simp add: demo_started_def demo_start_def initial_def)
qed

end
