(* ===== verification/Executor_Process.thy ===== *)
theory Executor_Process
  imports Messages Broker
begin

text \<open>
  The executor side of liburb: \<open>UrbExecutorProcess\<close> and \<open>ExecutorNotifyCallback\<close>
  (\<open>liburb/source/executor_process.cpp\<close>, \<open>executor_process.hpp\<close>) and the driver call \<open>abort\<close> of
  \<open>exec.cpp\<close>, which \<open>sendStatusUpdate\<close> makes.

  \<open>ex_sys\<close> is one state for the driver, its process, the broker and the pending timers, with the
  output so far. The fields of the process are meaningful once \<open>x_process\<close> holds, and its channel
  pointer once \<open>x_channelsCreated\<close> holds; before that a use of it is the failure \<open>WildChannel\<close>.

  As on the scheduler side a callback may call the driver again, so every handler takes the argument
  \<open>exe\<close>, what the executor's code does to the state in a callback. \<open>ex_world\<close> gathers what the
  process takes from outside: the answers of redis, the memory of generated UUIDs, the clock, whether
  a \<open>fork\<close> succeeds, and the environment variables.
\<close>

record ex_world =
  xw_connect :: redis_connect
  xw_uuid :: "nat \<Rightarrow> string"
  xw_time :: "nat \<Rightarrow> int"
  xw_fork :: bool
  xw_master :: "string option"
  xw_slave_id :: "string option"
  xw_framework_id :: "string option"
  xw_executor_id :: "string option"

datatype ex_msg =
    RegisterExecutorMessage ID ID
  | ReregisterExecutorMessage ID ID "StatusUpdate list" "TaskInfo list"
  | StatusUpdateMessage StatusUpdate
  | ExecutorToFrameworkMessage ID ID ID string

fun ex_target :: "ex_msg \<Rightarrow> string" where
  "ex_target (RegisterExecutorMessage _ _) = ''RegisterExecutorMessage''"
| "ex_target (ReregisterExecutorMessage _ _ _ _) = ''ReregisterExecutorMessage''"
| "ex_target (StatusUpdateMessage _) = ''StatusUpdateMessage''"
| "ex_target (ExecutorToFrameworkMessage _ _ _ _) = ''ExecutorToFrameworkMessage''"

text \<open>The callbacks of the \<open>Executor\<close> interface the process makes.\<close>

datatype ex_cb =
    XRegistered ExecutorInfo FrameworkInfo SlaveInfo
  | XReregistered SlaveInfo
  | XLaunchTask TaskInfo
  | XKillTask ID
  | XFrameworkMessage string
  | XShutdown
  | XError string

text \<open>\<open>KillTimer\<close> is the forked child that kills the process after a second.\<close>

datatype ex_timer = XRegistrationTimer | XHeartbeatTimer | KillTimer

text \<open>A message is sent under its target with an optional reply channel.\<close>

datatype ex_effect =
    XSent string ex_msg "string option"
  | XCallback ex_cb
  | XListen string
  | XHeartbeat "string list"

record ex_sys =
  x_status :: Status
  x_process :: bool
  x_killed :: bool
  x_broker :: broker
  x_frameworkId :: ID
  x_executorId :: ID
  x_slaveId :: ID
  x_channelsCreated :: bool
  x_notifyChannel :: string
  x_heartbeat :: "string list option"
  x_updates :: "(string, StatusUpdate) linked_map"
  x_tasks :: "(string, TaskInfo) linked_map"
  x_aborted :: bool
  x_connected :: bool
  x_pending :: "(ex_timer \<times> nat) list"
  x_trace :: "ex_effect list"
  x_draws :: nat

type_synonym ex_callback = "ex_cb \<Rightarrow> ex_sys \<Rightarrow> ex_sys outcome"

definition x_emit :: "ex_effect \<Rightarrow> ex_sys \<Rightarrow> ex_sys" where
  "x_emit e s = s\<lparr>x_trace := x_trace s @ [e]\<rparr>"

definition x_delay :: "ex_timer \<Rightarrow> nat \<Rightarrow> ex_sys \<Rightarrow> ex_sys" where
  "x_delay t seconds s = s\<lparr>x_pending := x_pending s @ [(t, seconds)]\<rparr>"

definition x_invoke :: "ex_callback \<Rightarrow> ex_cb \<Rightarrow> ex_sys \<Rightarrow> ex_sys outcome" where
  "x_invoke exe cb s = exe cb (x_emit (XCallback cb) s)"

subsection \<open>Channels and messages\<close>

text \<open>As on the scheduler side, \<open>XSent\<close> records that a write is issued; a failure of redis is only logged.\<close>

definition x_write :: "ex_msg \<Rightarrow> string option \<Rightarrow> ex_sys \<Rightarrow> ex_sys outcome" where
  "x_write m replyTo s =
     (if \<not> x_channelsCreated s then Inl WildChannel
      else if isRunning (x_broker s) then Inr (x_emit (XSent (ex_target m) m replyTo) s)
      else Inr s)"

text \<open>The reply channel of a registration is what follows the last colon of the slave id.\<close>

definition executorRunnerChannel :: "ID \<Rightarrow> string option" where
  "executorRunnerChannel slaveId =
     (case find_last_of '':'' (id_value slaveId) of
        None \<Rightarrow> None
      | Some pos \<Rightarrow> Some (substr_from (id_value slaveId) (pos + 1)))"

definition x_sendMessage :: "ex_msg \<Rightarrow> ex_sys \<Rightarrow> ex_sys outcome" where
  "x_sendMessage m s =
     (case m of
        RegisterExecutorMessage _ _ \<Rightarrow> x_write m (executorRunnerChannel (x_slaveId s)) s
      | ReregisterExecutorMessage _ _ _ _ \<Rightarrow> x_write m (executorRunnerChannel (x_slaveId s)) s
      | _ \<Rightarrow> x_write m None s)"

definition x_createChannels :: "ID \<Rightarrow> ex_sys \<Rightarrow> ex_sys" where
  "x_createChannels slaveId s =
     (let s = (if \<not> x_channelsCreated s
               then s\<lparr>x_notifyChannel := createChannel ''notify'' (x_broker s), x_channelsCreated := True\<rparr>
               else s);
          s = x_emit (XListen (x_notifyChannel s)) s
      in s\<lparr>x_slaveId := slaveId\<rparr>)"

definition x_startHeartbeat :: "ex_sys \<Rightarrow> ex_sys outcome" where
  "x_startHeartbeat s =
     (if x_channelsCreated s
      then Inr (x_delay XHeartbeatTimer 60
             (s\<lparr>x_heartbeat := Some [x_notifyChannel s, id_value (x_frameworkId s), id_value (x_slaveId s),
                               ''executor'', id_value (x_executorId s)]\<rparr>))
      else Inl WildChannel)"

definition x_sendHeartbeat :: "ex_sys \<Rightarrow> ex_sys" where
  "x_sendHeartbeat s =
     (case x_heartbeat s of
        None \<Rightarrow> s
      | Some p \<Rightarrow> x_delay XHeartbeatTimer 60 (x_emit (XHeartbeat p) s))"

subsection \<open>Registration\<close>

definition x_new_process :: "ID \<Rightarrow> ID \<Rightarrow> ID \<Rightarrow> ex_sys \<Rightarrow> ex_sys" where
  "x_new_process frameworkId executorId slaveId s =
     s\<lparr>x_process := True, x_frameworkId := frameworkId, x_executorId := executorId,
       x_slaveId := slaveId, x_channelsCreated := False, x_notifyChannel := [], x_heartbeat := None,
       x_updates := lhm_empty, x_tasks := lhm_empty, x_aborted := False, x_connected := False\<rparr>"

definition x_startRegistration :: "ex_sys \<Rightarrow> ex_sys" where
  "x_startRegistration s = x_delay XRegistrationTimer 0 s"

definition x_doReliableRegistration :: "ex_world \<Rightarrow> ex_sys \<Rightarrow> ex_sys outcome" where
  "x_doReliableRegistration w s =
     (case xw_master w of
        None \<Rightarrow> Inr s
      | Some master \<Rightarrow>
          (case setUrl (xw_connect w) master (x_broker s) of
             (b, Thrown) \<Rightarrow> Inr (x_delay XRegistrationTimer 1 (s\<lparr>x_broker := b\<rparr>))
           | (b, Completed) \<Rightarrow>
               let s = x_createChannels (x_slaveId s) (s\<lparr>x_broker := b\<rparr>)
               in x_sendMessage (RegisterExecutorMessage (x_frameworkId s) (x_executorId s)) s))"

definition x_registered ::
    "ex_callback \<Rightarrow> ExecutorInfo \<Rightarrow> FrameworkInfo \<Rightarrow> ID \<Rightarrow> SlaveInfo \<Rightarrow> ex_sys \<Rightarrow> ex_sys outcome" where
  "x_registered exe executorInfo frameworkInfo slaveId slaveInfo s =
     (if x_aborted s then Inr s
      else andThen (x_startHeartbeat (s\<lparr>x_connected := True\<rparr>))
             (x_invoke exe (XRegistered executorInfo frameworkInfo slaveInfo)))"

definition x_reregistered :: "ex_callback \<Rightarrow> ID \<Rightarrow> SlaveInfo \<Rightarrow> ex_sys \<Rightarrow> ex_sys outcome" where
  "x_reregistered exe slaveId slaveInfo s =
     (if x_aborted s then Inr s
      else andThen (x_startHeartbeat (s\<lparr>x_connected := True\<rparr>)) (x_invoke exe (XReregistered slaveInfo)))"

definition x_reconnect :: "UPID \<Rightarrow> ID \<Rightarrow> ex_sys \<Rightarrow> ex_sys outcome" where
  "x_reconnect from slaveId s =
     (if x_aborted s then Inr s
      else x_sendMessage
             (ReregisterExecutorMessage (x_executorId s) (x_frameworkId s)
                (lhm_values (x_updates s)) (lhm_values (x_tasks s))) s)"

subsection \<open>Messages from the runner and the master\<close>

definition x_runTask :: "ex_callback \<Rightarrow> TaskInfo \<Rightarrow> ex_sys \<Rightarrow> ex_sys outcome" where
  "x_runTask exe task s =
     (if x_aborted s then Inr s
      else if \<not> x_connected s then Inr s
      else require (\<not> lhm_contains (x_tasks s) (id_value (ti_task_id task)))
             (x_invoke exe (XLaunchTask task)
               (s\<lparr>x_tasks := lhm_put (id_value (ti_task_id task)) task (x_tasks s)\<rparr>)))"

definition x_killTask :: "ex_callback \<Rightarrow> ID \<Rightarrow> ex_sys \<Rightarrow> ex_sys outcome" where
  "x_killTask exe taskId s = (if x_aborted s then Inr s else x_invoke exe (XKillTask taskId) s)"

text \<open>
  \<open>updates[uuid]\<close> enters a default update when there is none under \<open>uuid\<close>; its state is the first
  one of the enumeration.
\<close>

definition updates_at :: "string \<Rightarrow> (string, StatusUpdate) linked_map \<Rightarrow>
    StatusUpdate \<times> (string, StatusUpdate) linked_map" where
  "updates_at uuid m =
     (case lhm_get m uuid of
        Some u \<Rightarrow> (u, m)
      | None \<Rightarrow> (empty_update, lhm_put uuid empty_update m))"

definition x_statusUpdateAcknowledgement :: "ID \<Rightarrow> ID \<Rightarrow> ID \<Rightarrow> string \<Rightarrow> ex_sys \<Rightarrow> ex_sys outcome" where
  "x_statusUpdateAcknowledgement slaveId frameworkId taskId uuid s =
     (if x_aborted s then Inr s
      else if \<not> x_connected s then Inr s
      else let (u, updates) = updates_at uuid (x_updates s);
               eraseTasks = (ts_state (su_status u) = TASK_FINISHED);
               s = s\<lparr>x_updates := lhm_erase uuid updates\<rparr>
           in if eraseTasks then Inr (s\<lparr>x_tasks := lhm_erase (id_value taskId) (x_tasks s)\<rparr>)
              else Inr s)"

definition x_frameworkMessage :: "ex_callback \<Rightarrow> string \<Rightarrow> ex_sys \<Rightarrow> ex_sys outcome" where
  "x_frameworkMessage exe data s =
     (if x_aborted s then Inr s
      else if \<not> x_connected s then Inr s
      else x_invoke exe (XFrameworkMessage data) s)"

text \<open>When the \<open>fork\<close> fails the parent goes on alone and nothing kills it.\<close>

definition x_shutdown :: "ex_world \<Rightarrow> ex_callback \<Rightarrow> ex_sys \<Rightarrow> ex_sys outcome" where
  "x_shutdown w exe s =
     (if x_aborted s then Inr s
      else andThen (x_invoke exe XShutdown (if xw_fork w then x_delay KillTimer 1 s else s))
             (\<lambda>s. Inr (s\<lparr>x_broker := broker_shutdown (x_broker s), x_aborted := True\<rparr>)))"

subsection \<open>Requests of the executor\<close>

definition x_abort :: "ex_sys \<Rightarrow> ex_sys outcome" where
  "x_abort s = (let s = s\<lparr>x_aborted := True\<rparr> in require (x_aborted s) (Inr s))"

definition x_driver_abort :: "ex_sys \<Rightarrow> ex_sys outcome" where
  "x_driver_abort s =
     (if x_status s \<noteq> DRIVER_RUNNING then Inr s
      else require (x_process s)
             (andThen (x_abort s) (\<lambda>s. Inr (s\<lparr>x_status := DRIVER_ABORTED\<rparr>))))"

definition x_update :: "ex_world \<Rightarrow> TaskStatus \<Rightarrow> ex_sys \<Rightarrow> StatusUpdate" where
  "x_update w st s =
     (let now = xw_time w (x_draws s)
      in \<lparr>su_framework_id = x_frameworkId s, su_executor_id = Some (x_executorId s),
          su_slave_id = Some (x_slaveId s),
          su_status = st\<lparr>ts_timestamp := Some now, ts_slave_id := Some (x_slaveId s)\<rparr>,
          su_timestamp = now, su_uuid = Some (c_string (xw_uuid w (x_draws s)))\<rparr>)"

definition x_sendStatusUpdate :: "ex_world \<Rightarrow> ex_callback \<Rightarrow> TaskStatus \<Rightarrow> ex_sys \<Rightarrow> ex_sys outcome" where
  "x_sendStatusUpdate w exe st s =
     (if ts_state st = TASK_STAGING
      then andThen (x_driver_abort s)
             (x_invoke exe (XError ''Attempted to send TASK_STAGING status update''))
      else let update = x_update w st s;
               s = s\<lparr>x_draws := Suc (x_draws s),
                     x_updates := lhm_put (bytes_value (su_uuid update)) update (x_updates s)\<rparr>
           in x_sendMessage (StatusUpdateMessage update) s)"

definition x_sendFrameworkMessage :: "string \<Rightarrow> ex_sys \<Rightarrow> ex_sys outcome" where
  "x_sendFrameworkMessage data s =
     x_sendMessage (ExecutorToFrameworkMessage (x_slaveId s) (x_frameworkId s) (x_executorId s) data) s"

subsection \<open>Dispatch of incoming messages\<close>

datatype ex_Messages =
    EXECUTOR_REGISTERED | EXECUTOR_REREGISTERED | RECONNECT_EXECUTOR | RUN_TASK | KILL_TASK
  | STATUS_UPDATE_ACKNOWLEDGE | FRAMEWORK_TO_EXECUTOR | SHUTDOWN_EXECUTOR | EX_SERVICE_DISCONNECTED

definition ex_messages :: "(string \<times> ex_Messages) list" where
  "ex_messages =
     [(''ExecutorRegisteredMessage'', EXECUTOR_REGISTERED),
      (''RunTaskMessage'', RUN_TASK),
      (''KillTaskMessage'', KILL_TASK),
      (''FrameworkToExecutorMessage'', FRAMEWORK_TO_EXECUTOR),
      (''ShutdownExecutorMessage'', SHUTDOWN_EXECUTOR),
      (''ExecutorReregisteredMessage'', EXECUTOR_REREGISTERED),
      (''ReconnectExecutorMessage'', RECONNECT_EXECUTOR),
      (''ServiceDisconnectedMessage'', EX_SERVICE_DISCONNECTED),
      (''StatusUpdateAcknowledgementMessage'', STATUS_UPDATE_ACKNOWLEDGE)]"

text \<open>
  A message as the dispatcher reads it: its source, and the fields it decodes from the payload. A
  lost connection to the broker arrives as a message whose target is empty.
\<close>

record ex_payload =
  xp_source :: UPID
  xp_executor_info :: ExecutorInfo
  xp_framework_info :: FrameworkInfo
  xp_framework_id :: ID
  xp_slave_id :: ID
  xp_slave_info :: SlaveInfo
  xp_task :: TaskInfo
  xp_task_id :: ID
  xp_uuid :: string
  xp_data :: string

datatype ex_in = ExMessage string ex_payload

definition x_onInput :: "ex_world \<Rightarrow> ex_callback \<Rightarrow> ex_in \<Rightarrow> ex_sys \<Rightarrow> ex_sys outcome" where
  "x_onInput w exe message s =
     (case message of
        ExMessage tgt p \<Rightarrow>
          (case map_of ex_messages tgt of
             None \<Rightarrow> Inr s
           | Some kind \<Rightarrow>
               (case kind of
                  EXECUTOR_REGISTERED \<Rightarrow>
                    x_registered exe (xp_executor_info p) (xp_framework_info p) (xp_slave_id p) (xp_slave_info p) s
                | EXECUTOR_REREGISTERED \<Rightarrow> x_reregistered exe (xp_slave_id p) (xp_slave_info p) s
                | RECONNECT_EXECUTOR \<Rightarrow> x_reconnect (xp_source p) (xp_slave_id p) s
                | EX_SERVICE_DISCONNECTED \<Rightarrow> x_reconnect [] (x_slaveId s) s
                | STATUS_UPDATE_ACKNOWLEDGE \<Rightarrow>
                    x_statusUpdateAcknowledgement (xp_slave_id p) (xp_framework_id p) (xp_task_id p) (xp_uuid p) s
                | KILL_TASK \<Rightarrow> x_killTask exe (xp_task_id p) s
                | RUN_TASK \<Rightarrow> x_runTask exe (xp_task p) s
                | FRAMEWORK_TO_EXECUTOR \<Rightarrow> x_frameworkMessage exe (xp_data p) s
                | SHUTDOWN_EXECUTOR \<Rightarrow> x_shutdown w exe s)))"

subsection \<open>Invariant\<close>

definition uuid_of :: "ex_world \<Rightarrow> nat \<Rightarrow> string" where
  "uuid_of w i = c_string (xw_uuid w i)"

text \<open>The keys of the unacknowledged updates are in the order in which they were drawn.\<close>

definition keys_ordered :: "ex_world \<Rightarrow> nat \<Rightarrow> string list \<Rightarrow> bool" where
  "keys_ordered w n ks \<longleftrightarrow>
     (\<exists>ns. sorted_wrt (<) ns \<and> list_all (\<lambda>i. i < n) ns \<and> ks = map (uuid_of w) ns)"

definition update_ok :: "ex_sys \<Rightarrow> string \<Rightarrow> StatusUpdate \<Rightarrow> bool" where
  "update_ok s k u \<longleftrightarrow>
     su_uuid u = Some k \<and> su_framework_id u = x_frameworkId s \<and> su_executor_id u = Some (x_executorId s) \<and>
     su_slave_id u = Some (x_slaveId s) \<and> ts_slave_id (su_status u) = Some (x_slaveId s) \<and>
     ts_timestamp (su_status u) = Some (su_timestamp u) \<and> ts_state (su_status u) \<noteq> TASK_STAGING"

definition ex_inv :: "ex_world \<Rightarrow> ex_sys \<Rightarrow> bool" where
  "ex_inv w s \<longleftrightarrow>
     (x_process s \<longleftrightarrow> x_status s \<noteq> DRIVER_NOT_STARTED) \<and>
     (x_status s = DRIVER_ABORTED \<longrightarrow> x_aborted s) \<and>
     (x_connected s \<longrightarrow> x_channelsCreated s) \<and>
     (x_channelsCreated s \<longrightarrow> x_process s) \<and>
     (x_pending s \<noteq> [] \<longrightarrow> x_process s) \<and>
     (\<not> x_process s \<longrightarrow> x_updates s = lhm_empty \<and> x_tasks s = lhm_empty \<and> \<not> x_aborted s) \<and>
     lhm_inv (x_updates s) \<and> lhm_inv (x_tasks s) \<and>
     keys_ordered w (x_draws s) (lhm_keys (x_updates s)) \<and>
     (\<forall>k u. lhm_get (x_updates s) k = Some u \<longrightarrow> update_ok s k u) \<and>
     (\<forall>k t. lhm_get (x_tasks s) k = Some t \<longrightarrow> id_value (ti_task_id t) = k)"

text \<open>
  What a driver call, and so a callback of the executor, leaves as it was. It can abort and stop
  but neither revive nor connect, it only adds updates, each under a UUID drawn meanwhile, and it
  only adds to the output.
\<close>

definition ex_frame :: "ex_world \<Rightarrow> ex_sys \<Rightarrow> ex_sys \<Rightarrow> bool" where
  "ex_frame w s s' \<longleftrightarrow>
     x_process s' = x_process s \<and> x_killed s' = x_killed s \<and> x_broker s' = x_broker s \<and>
     x_frameworkId s' = x_frameworkId s \<and> x_executorId s' = x_executorId s \<and>
     x_slaveId s' = x_slaveId s \<and> x_channelsCreated s' = x_channelsCreated s \<and>
     x_notifyChannel s' = x_notifyChannel s \<and> x_connected s' = x_connected s \<and>
     x_tasks s' = x_tasks s \<and> x_pending s' = x_pending s \<and> x_heartbeat s' = x_heartbeat s \<and>
     (x_aborted s \<longrightarrow> x_aborted s') \<and> (x_status s' = DRIVER_RUNNING \<longrightarrow> x_status s = DRIVER_RUNNING) \<and>
     x_draws s \<le> x_draws s' \<and> prefix (x_trace s) (x_trace s') \<and>
     (\<forall>k. k \<notin> uuid_of w ` {x_draws s..<x_draws s'} \<longrightarrow> lhm_get (x_updates s') k = lhm_get (x_updates s) k)"

definition ex_live :: "ex_world \<Rightarrow> ex_sys \<Rightarrow> bool" where
  "ex_live w s \<longleftrightarrow> x_process s \<and> ex_inv w s"

definition ex_good :: "ex_world \<Rightarrow> ex_sys \<Rightarrow> ex_sys \<Rightarrow> bool" where
  "ex_good w s s' \<longleftrightarrow> ex_live w s' \<and> ex_frame w s s'"

lemma ex_live_iff:
  "ex_live w s \<longleftrightarrow>
     x_process s \<and> x_status s \<noteq> DRIVER_NOT_STARTED \<and> (x_status s = DRIVER_ABORTED \<longrightarrow> x_aborted s) \<and>
     (x_connected s \<longrightarrow> x_channelsCreated s) \<and> lhm_inv (x_updates s) \<and> lhm_inv (x_tasks s) \<and>
     keys_ordered w (x_draws s) (lhm_keys (x_updates s)) \<and>
     (\<forall>k u. lhm_get (x_updates s) k = Some u \<longrightarrow> update_ok s k u) \<and>
     (\<forall>k t. lhm_get (x_tasks s) k = Some t \<longrightarrow> id_value (ti_task_id t) = k)"
  by (auto simp: ex_live_def ex_inv_def)

lemma ex_frame_refl [simp]: "ex_frame w s s"
  by (simp add: ex_frame_def)

lemma ex_frame_trans:
  assumes "ex_frame w s t" and "ex_frame w t r"
  shows "ex_frame w s r"
proof -
  have d: "x_draws s \<le> x_draws t" "x_draws t \<le> x_draws r" using assms by (simp_all add: ex_frame_def)
  have "lhm_get (x_updates r) k = lhm_get (x_updates s) k" if "k \<notin> uuid_of w ` {x_draws s..<x_draws r}" for k
  proof -
    have "k \<notin> uuid_of w ` {x_draws s..<x_draws t}" "k \<notin> uuid_of w ` {x_draws t..<x_draws r}"
      using that d by auto
    with assms show ?thesis by (simp add: ex_frame_def)
  qed
  with assms d show ?thesis by (auto simp: ex_frame_def)
qed

lemma ex_good_refl: "ex_live w s \<Longrightarrow> ex_good w s s"
  by (simp add: ex_good_def)

lemma ex_good_trans: "ex_good w s t \<Longrightarrow> ex_good w t r \<Longrightarrow> ex_good w s r"
  by (auto simp: ex_good_def intro: ex_frame_trans)

lemma within_good_trans: "within F r (ex_good w t) \<Longrightarrow> ex_good w s t \<Longrightarrow> within F r (ex_good w s)"
  by (erule within_mono) (rule ex_good_trans)

text \<open>Steps that leave the invariant and the frame alone.\<close>

lemma emit_ex_live: "ex_live w s \<Longrightarrow> ex_live w (x_emit e s)"
  by (simp add: ex_live_iff x_emit_def update_ok_def)

lemma emit_ex_good: "ex_live w s \<Longrightarrow> ex_good w s (x_emit e s)"
  unfolding ex_good_def using emit_ex_live [of w s e] by (simp add: ex_frame_def x_emit_def)

lemma status_ex_good:
  "ex_live w s \<Longrightarrow> st \<in> {DRIVER_STOPPED, DRIVER_ABORTED} \<Longrightarrow> st = DRIVER_ABORTED \<longrightarrow> x_aborted s \<Longrightarrow>
    ex_good w s (s\<lparr>x_status := st\<rparr>)"
  by (auto simp: ex_good_def ex_live_iff ex_frame_def update_ok_def)

lemma abort_ex_good: "ex_live w s \<Longrightarrow> ex_good w s (s\<lparr>x_aborted := True\<rparr>)"
  by (simp add: ex_good_def ex_live_iff ex_frame_def update_ok_def)

lemma x_write_good: "ex_live w s \<Longrightarrow> WildChannel \<in> F \<Longrightarrow> within F (x_write m r s) (ex_good w s)"
  by (simp add: x_write_def emit_ex_good ex_good_refl)

lemma x_sendMessage_good: "ex_live w s \<Longrightarrow> WildChannel \<in> F \<Longrightarrow> within F (x_sendMessage m s) (ex_good w s)"
  by (cases m) (simp_all add: x_sendMessage_def x_write_good)

lemma x_driver_abort_good: "ex_live w s \<Longrightarrow> within F (x_driver_abort s) (ex_good w s)"
proof -
  assume s: "ex_live w s"
  let ?t = "s\<lparr>x_aborted := True\<rparr>"
  have t: "ex_good w s ?t" using s by (rule abort_ex_good)
  then have "ex_good w ?t (?t\<lparr>x_status := DRIVER_ABORTED\<rparr>)"
    by (intro status_ex_good) (simp_all add: ex_good_def)
  from ex_good_trans [OF t this] s show ?thesis
    by (simp add: x_driver_abort_def x_abort_def ex_good_refl ex_live_def)
qed

lemma keys_ordered_put:
  assumes "keys_ordered w n ks"
  shows "keys_ordered w (Suc n) (if uuid_of w n \<in> set ks then ks else ks @ [uuid_of w n])"
proof -
  from assms obtain ns where ns: "sorted_wrt (<) ns" "list_all (\<lambda>i. i < n) ns" "ks = map (uuid_of w) ns"
    by (auto simp: keys_ordered_def)
  then have "sorted_wrt (<) (ns @ [n])" "list_all (\<lambda>i. i < Suc n) (ns @ [n])"
    by (auto simp: sorted_wrt_append list_all_iff less_SucI)
  moreover have "list_all (\<lambda>i. i < Suc n) ns" using ns(2) by (auto simp: list_all_iff less_SucI)
  ultimately show ?thesis
    unfolding keys_ordered_def using ns(1,3)
    by (cases "uuid_of w n \<in> set ks") (auto intro: exI [of _ ns] exI [of _ "ns @ [n]"])
qed

lemma keys_ordered_filter:
  assumes "keys_ordered w n ks"
  shows "keys_ordered w n (filter (\<lambda>k. k \<noteq> k') ks)"
proof -
  from assms obtain ns where ns: "sorted_wrt (<) ns" "list_all (\<lambda>i. i < n) ns" "ks = map (uuid_of w) ns"
    by (auto simp: keys_ordered_def)
  let ?ns = "filter (\<lambda>i. uuid_of w i \<noteq> k') ns"
  have "sorted_wrt (<) ?ns" using ns(1) by (rule sorted_wrt_filter)
  moreover have "list_all (\<lambda>i. i < n) ?ns" using ns(2) by (simp add: list_all_iff)
  moreover have "filter (\<lambda>k. k \<noteq> k') ks = map (uuid_of w) ?ns" using ns(3) by (simp add: filter_map o_def)
  ultimately show ?thesis by (auto simp: keys_ordered_def)
qed

lemma lhm_keys_put:
  "lhm_inv m \<Longrightarrow> lhm_keys (lhm_put k v m) = (if k \<in> set (lhm_keys m) then lhm_keys m else lhm_keys m @ [k])"
  by (simp add: lhm_keys_alist lhm_alist_put alist_put_keys)

lemma lhm_keys_erase: "lhm_inv m \<Longrightarrow> lhm_keys (lhm_erase k m) = filter (\<lambda>k'. k' \<noteq> k) (lhm_keys m)"
  by (simp add: lhm_keys_alist lhm_alist_erase filter_map o_def)

text \<open>Recording an update keeps the invariant, under whatever UUID it was drawn.\<close>

definition x_record :: "ex_world \<Rightarrow> TaskStatus \<Rightarrow> ex_sys \<Rightarrow> ex_sys" where
  "x_record w st s =
     s\<lparr>x_draws := Suc (x_draws s), x_updates := lhm_put (uuid_of w (x_draws s)) (x_update w st s) (x_updates s)\<rparr>"

lemma x_update_uuid [simp]: "bytes_value (su_uuid (x_update w st s)) = uuid_of w (x_draws s)"
  by (simp add: x_update_def uuid_of_def bytes_value_def Let_def)

lemma x_update_ok: "ts_state st \<noteq> TASK_STAGING \<Longrightarrow> update_ok s (uuid_of w (x_draws s)) (x_update w st s)"
  by (simp add: update_ok_def x_update_def uuid_of_def Let_def)

lemma x_record_good:
  assumes s: "ex_live w s" and st: "ts_state st \<noteq> TASK_STAGING"
  shows "ex_good w s (x_record w st s)"
proof -
  let ?k = "uuid_of w (x_draws s)" and ?t = "x_record w st s"
  have inv: "lhm_inv (x_updates s)" using s by (simp add: ex_live_iff)
  have get: "lhm_get (x_updates ?t) k = (if k = ?k then Some (x_update w st s) else lhm_get (x_updates s) k)" for k
    by (simp add: x_record_def lmap.get_put [OF inv])
  have same: "update_ok ?t = update_ok s" by (intro ext) (simp add: update_ok_def x_record_def)
  have "update_ok ?t k u" if "lhm_get (x_updates ?t) k = Some u" for k u
    using that s x_update_ok [OF st] unfolding get same by (auto simp: ex_live_iff split: if_splits)
  moreover have "keys_ordered w (x_draws ?t) (lhm_keys (x_updates ?t))"
    using s keys_ordered_put [of w "x_draws s"] by (simp add: x_record_def lhm_keys_put inv ex_live_iff)
  moreover have "lhm_inv (x_updates ?t)" by (simp add: x_record_def lhm_inv_put inv)
  ultimately have "ex_live w ?t" using s unfolding ex_live_iff by (simp add: x_record_def)
  moreover have "k \<notin> uuid_of w ` {x_draws s..<x_draws ?t} \<Longrightarrow> k \<noteq> ?k" for k by (auto simp: x_record_def)
  then have "ex_frame w s ?t" unfolding ex_frame_def get by (auto simp: x_record_def)
  ultimately show ?thesis by (simp add: ex_good_def)
qed

subsection \<open>The contract of a callback\<close>

text \<open>
  Started in a state that satisfies the invariant, the executor's code in a callback fails only in
  the ways of \<open>F\<close>, keeps the invariant, and changes nothing but what driver calls may change.
\<close>

locale executor_contract =
  fixes w :: ex_world and F :: "failure set" and exe :: ex_callback
  assumes wild: "WildChannel \<in> F"
    and exe_good: "ex_live w s \<Longrightarrow> within F (exe cb s) (ex_good w s)"
begin

lemma x_invoke_good: "ex_good w s t \<Longrightarrow> within F (x_invoke exe cb t) (ex_good w s)"
proof -
  assume g: "ex_good w s t"
  then have t: "ex_live w t" by (simp add: ex_good_def)
  have "within F (x_invoke exe cb t) (ex_good w (x_emit (XCallback cb) t))"
    unfolding x_invoke_def by (intro exe_good emit_ex_live t)
  from within_good_trans [OF this ex_good_trans [OF g emit_ex_good [OF t]]] show ?thesis .
qed

lemma x_sendStatusUpdate_good:
  assumes "ex_live w s"
  shows "within F (x_sendStatusUpdate w exe st s) (ex_good w s)"
proof (cases "ts_state st = TASK_STAGING")
  case True
  have "within F (x_driver_abort s) (ex_good w s)" by (rule x_driver_abort_good [OF assms])
  then have "within F (x_driver_abort s) (\<lambda>t. within F (x_invoke exe cb t) (ex_good w s))" for cb
    by (rule within_mono) (rule x_invoke_good)
  with True show ?thesis by (simp add: x_sendStatusUpdate_def)
next
  case False
  have g: "ex_good w s (x_record w st s)" by (rule x_record_good [OF assms False])
  then have "within F (x_sendMessage m (x_record w st s)) (ex_good w (x_record w st s))" for m
    by (intro x_sendMessage_good wild) (simp add: ex_good_def)
  from within_good_trans [OF this g] False show ?thesis
    by (simp add: x_sendStatusUpdate_def x_record_def Let_def)
qed

end

subsection \<open>The handlers\<close>

text \<open>
  One event: the identity of the executor stays, an abort is final, updates outside of \<open>A\<close> (the
  acknowledged ones) are kept, and output is added.
\<close>

definition ex_step :: "ex_world \<Rightarrow> string set \<Rightarrow> ex_sys \<Rightarrow> ex_sys \<Rightarrow> bool" where
  "ex_step w A s s' \<longleftrightarrow>
     ex_live w s' \<and>
     x_frameworkId s' = x_frameworkId s \<and> x_executorId s' = x_executorId s \<and> x_slaveId s' = x_slaveId s \<and>
     (x_aborted s \<longrightarrow> x_aborted s') \<and> x_draws s \<le> x_draws s' \<and> prefix (x_trace s) (x_trace s') \<and>
     (\<forall>k. k \<notin> A \<and> k \<notin> uuid_of w ` {x_draws s..<x_draws s'} \<longrightarrow>
        lhm_get (x_updates s') k = lhm_get (x_updates s) k)"

definition acked :: "ex_in \<Rightarrow> string set" where
  "acked m = (case m of ExMessage tgt p \<Rightarrow>
     if tgt = ''StatusUpdateAcknowledgementMessage'' then {xp_uuid p} else {})"

definition duplicate_task :: "ex_in \<Rightarrow> ex_sys \<Rightarrow> bool" where
  "duplicate_task m s \<longleftrightarrow> (case m of ExMessage tgt p \<Rightarrow>
     tgt = ''RunTaskMessage'' \<and> \<not> x_aborted s \<and> x_connected s \<and>
     lhm_contains (x_tasks s) (id_value (ti_task_id (xp_task p))))"

lemma ex_step_trans: "ex_step w A s t \<Longrightarrow> ex_good w t r \<Longrightarrow> ex_step w A s r"
proof -
  assume st: "ex_step w A s t" and tr: "ex_good w t r"
  then have d: "x_draws s \<le> x_draws t" "x_draws t \<le> x_draws r"
    by (simp_all add: ex_step_def ex_good_def ex_frame_def)
  have "lhm_get (x_updates r) k = lhm_get (x_updates s) k"
    if "k \<notin> A \<and> k \<notin> uuid_of w ` {x_draws s..<x_draws r}" for k
  proof -
    have "k \<notin> uuid_of w ` {x_draws s..<x_draws t}" "k \<notin> uuid_of w ` {x_draws t..<x_draws r}"
      using that d by auto
    with st tr that show ?thesis by (simp add: ex_step_def ex_good_def ex_frame_def)
  qed
  with st tr d show ?thesis by (auto simp: ex_step_def ex_good_def ex_frame_def)
qed

lemma ex_step_refl: "ex_live w s \<Longrightarrow> ex_step w A s s"
  by (simp add: ex_step_def)

lemma ex_good_step: "ex_good w s t \<Longrightarrow> ex_step w A s t"
  by (auto simp: ex_step_def ex_good_def ex_frame_def)

text \<open>Steps that change only fields the invariant does not connect with the updates.\<close>

lemma ex_step_same:
  assumes "ex_live w s" and "x_process s' = x_process s" and "x_status s' = x_status s"
    and "x_connected s' \<longrightarrow> x_channelsCreated s'" and "x_aborted s \<longrightarrow> x_aborted s'"
    and "x_updates s' = x_updates s" and "x_draws s' = x_draws s"
    and "lhm_inv (x_tasks s')" and "\<And>k t. lhm_get (x_tasks s') k = Some t \<Longrightarrow> id_value (ti_task_id t) = k"
    and "x_frameworkId s' = x_frameworkId s" and "x_executorId s' = x_executorId s"
    and "x_slaveId s' = x_slaveId s" and "prefix (x_trace s) (x_trace s')"
  shows "ex_step w A s s'"
proof -
  have "update_ok s' = update_ok s" using assms by (intro ext) (simp add: update_ok_def)
  with assms show ?thesis unfolding ex_step_def ex_live_iff by simp
qed

lemma x_pending_step: "ex_live w s \<Longrightarrow> ex_step w A s (s\<lparr>x_pending := ps\<rparr>)"
  by (rule ex_step_same) (simp_all add: ex_live_iff)

lemma x_killed_step: "ex_live w s \<Longrightarrow> ex_step w A s (s\<lparr>x_killed := True\<rparr>)"
  by (rule ex_step_same) (simp_all add: ex_live_iff)

lemma x_startHeartbeat_step:
  assumes "ex_live w s" and "WildChannel \<in> F"
  shows "within F (x_startHeartbeat (s\<lparr>x_connected := True\<rparr>)) (ex_step w A s)"
  using assms
  by (auto simp: x_startHeartbeat_def x_delay_def intro!: ex_step_same) (simp_all add: ex_live_iff)

lemma x_statusUpdateAcknowledgement_step:
  assumes "ex_live w s"
  shows "within F (x_statusUpdateAcknowledgement slave fid task uuid s) (ex_step w {uuid} s)"
proof -
  define m where "m = snd (updates_at uuid (x_updates s))"
  define t where "t = s\<lparr>x_updates := lhm_erase uuid m\<rparr>"
  have inv: "lhm_inv (x_updates s)" using assms by (simp add: ex_live_iff)
  have m: "lhm_inv m" "k \<noteq> uuid \<Longrightarrow> lhm_get m k = lhm_get (x_updates s) k" for k
    using inv by (auto simp: m_def updates_at_def lhm_inv_put lmap.get_put split: option.split)
  have keys: "lhm_keys (lhm_erase uuid m) = filter (\<lambda>k. k \<noteq> uuid) (lhm_keys (x_updates s))"
    using inv by (auto simp: lhm_keys_erase lhm_inv_put m_def updates_at_def lhm_keys_put split: option.split)
  have get: "lhm_get (x_updates t) k = (if k = uuid then None else lhm_get (x_updates s) k)" for k
    by (simp add: t_def lmap.get_del [OF m(1)] m(2))
  have ok: "update_ok t = update_ok s" by (intro ext) (simp add: update_ok_def t_def)
  have "keys_ordered w (x_draws t) (lhm_keys (x_updates t))"
    using assms keys_ordered_filter by (simp add: t_def keys ex_live_iff)
  moreover have "lhm_inv (x_updates t)" by (simp add: t_def lhm_inv_erase m(1))
  ultimately have l: "ex_live w t" using assms unfolding ex_live_iff get ok by (simp add: t_def)
  then have "ex_step w {uuid} s t" unfolding ex_step_def get by (simp add: t_def)
  moreover have "ex_step w {uuid} s (t\<lparr>x_tasks := lhm_erase (id_value task) (x_tasks s)\<rparr>)"
  proof -
    let ?r = "t\<lparr>x_tasks := lhm_erase (id_value task) (x_tasks s)\<rparr>"
    have "ex_step w {} t ?r"
      using assms by (intro ex_step_same [OF l])
        (auto simp: t_def ex_live_iff lhm_inv_erase lmap.get_del split: if_splits)
    with \<open>ex_step w {uuid} s t\<close> show ?thesis by (auto simp: ex_step_def)
  qed
  ultimately show ?thesis
    using assms by (simp add: x_statusUpdateAcknowledgement_def case_prod_unfold Let_def ex_step_refl
        m_def [symmetric] t_def)
qed

lemma x_reconnect_step:
  "ex_live w s \<Longrightarrow> WildChannel \<in> F \<Longrightarrow> within F (x_reconnect from slave s) (ex_step w A s)"
  by (auto simp: x_reconnect_def ex_step_refl intro: within_mono [OF x_sendMessage_good ex_good_step])

lemma x_doReliableRegistration_step:
  assumes "ex_live w s" and "WildChannel \<in> F"
  shows "within F (x_doReliableRegistration w s) (ex_step w A s)"
proof -
  have late: "ex_step w A s (x_delay XRegistrationTimer 1 (s\<lparr>x_broker := b\<rparr>))" for b
    using assms by (intro ex_step_same) (simp_all add: x_delay_def ex_live_iff)
  have now: "ex_step w A s (x_createChannels (x_slaveId s) (s\<lparr>x_broker := b\<rparr>))" for b
    using assms by (intro ex_step_same) (simp_all add: x_createChannels_def x_emit_def Let_def ex_live_iff split: if_splits)
  then have "within F (x_sendMessage m (x_createChannels (x_slaveId s) (s\<lparr>x_broker := b\<rparr>))) (ex_step w A s)" for m b
    using assms(2) by (intro within_mono [OF x_sendMessage_good ex_step_trans]) (simp_all add: ex_step_def)
  with late show ?thesis
    using assms by (auto simp: x_doReliableRegistration_def ex_step_refl Let_def split: option.split prod.split exn.split)
qed

lemma x_sendHeartbeat_step: "ex_live w s \<Longrightarrow> ex_step w A s (x_sendHeartbeat s)"
  by (cases "x_heartbeat s") (auto intro!: ex_step_same simp: x_sendHeartbeat_def x_delay_def x_emit_def ex_live_iff)

context executor_contract
begin

lemma x_invoke_step: "ex_step w A s t \<Longrightarrow> within F (x_invoke exe cb t) (ex_step w A s)"
  by (rule within_mono [OF x_invoke_good [OF ex_good_refl] ex_step_trans]) (simp_all add: ex_step_def)

lemma x_registered_step:
  assumes "ex_live w s"
  shows "within F (x_registered exe ei fi slave si s) (ex_step w A s)"
    and "within F (x_reregistered exe slave si s) (ex_step w A s)"
  using assms within_mono [OF x_startHeartbeat_step [OF assms wild] x_invoke_step]
  by (simp_all add: x_registered_def x_reregistered_def ex_step_refl)

lemma x_runTask_step:
  assumes s: "ex_live w s"
    and dup: "CheckFailed \<in> F \<or> x_aborted s \<or> \<not> x_connected s \<or> \<not> lhm_contains (x_tasks s) (id_value (ti_task_id task))"
  shows "within F (x_runTask exe task s) (ex_step w A s)"
proof -
  let ?t = "s\<lparr>x_tasks := lhm_put (id_value (ti_task_id task)) task (x_tasks s)\<rparr>"
  have "ex_step w A s ?t"
    using s by (intro ex_step_same [OF s]) (auto simp: ex_live_iff lhm_inv_put lmap.get_put split: if_splits)
  then have "within F (x_invoke exe cb ?t) (ex_step w A s)" for cb by (rule x_invoke_step)
  with s dup show ?thesis by (auto simp: x_runTask_def ex_step_refl)
qed

lemma x_deliver_step:
  "ex_live w s \<Longrightarrow> within F (x_killTask exe task s) (ex_step w A s)"
  "ex_live w s \<Longrightarrow> within F (x_frameworkMessage exe data s) (ex_step w A s)"
  by (simp_all add: x_killTask_def x_frameworkMessage_def ex_step_refl x_invoke_step)

lemma x_shutdown_step:
  assumes "ex_live w s"
  shows "within F (x_shutdown w exe s) (ex_step w A s)"
proof -
  let ?s = "if xw_fork w then x_delay KillTimer 1 s else s"
  have "ex_step w A s ?s" using assms x_pending_step [OF assms] by (simp add: x_delay_def ex_step_refl)
  then have "within F (x_invoke exe XShutdown ?s) (ex_step w A s)" by (rule x_invoke_step)
  moreover have "ex_step w A s (t\<lparr>x_broker := b, x_aborted := True\<rparr>)" if "ex_step w A s t" for t b
    using that by (simp add: ex_step_def ex_live_iff update_ok_def)
  ultimately have "within F (x_invoke exe XShutdown ?s)
      (\<lambda>t. ex_step w A s (t\<lparr>x_broker := broker_shutdown (x_broker t), x_aborted := True\<rparr>))"
    by (rule within_mono)
  with assms show ?thesis by (simp add: x_shutdown_def ex_step_refl)
qed

lemma x_onInput_step:
  assumes s: "ex_live w s" and dup: "CheckFailed \<in> F \<or> \<not> duplicate_task m s"
  shows "within F (x_onInput w exe m s) (ex_step w (acked m) s)"
proof (cases m)
  case (ExMessage tgt p)
  show ?thesis
  proof (cases "map_of ex_messages tgt")
    case None
    with s show ?thesis by (simp add: ExMessage x_onInput_def ex_step_refl)
  next
    case (Some kind)
    have run: "kind = RUN_TASK \<Longrightarrow> tgt = ''RunTaskMessage''"
      and ack: "kind = STATUS_UPDATE_ACKNOWLEDGE \<Longrightarrow> tgt = ''StatusUpdateAcknowledgementMessage''"
      using Some by (auto simp: ex_messages_def split: if_splits)
    show ?thesis
    proof (cases kind)
      case RUN_TASK
      with dup run have "CheckFailed \<in> F \<or> x_aborted s \<or> \<not> x_connected s \<or>
          \<not> lhm_contains (x_tasks s) (id_value (ti_task_id (xp_task p)))"
        by (auto simp: duplicate_task_def ExMessage)
      with RUN_TASK Some s show ?thesis by (simp add: ExMessage x_onInput_def x_runTask_step)
    next
      case STATUS_UPDATE_ACKNOWLEDGE
      with ack Some s show ?thesis
        by (simp add: ExMessage x_onInput_def x_statusUpdateAcknowledgement_step acked_def)
    qed (use Some s in \<open>simp_all add: ExMessage x_onInput_def x_registered_step x_reconnect_step wild
      x_deliver_step x_shutdown_step\<close>)
  qed
qed

end

end
