(* ===== verification/Executor_Driver.thy ===== *)
theory Executor_Driver
  imports Executor_Process
begin

text \<open>
  \<open>MesosExecutorDriver\<close> (\<open>liburb/source/exec.cpp\<close>) on top of the process, and the executor side as a
  transition system, built in the same way as the scheduler side: the executor's code is a function
  from a callback and the output so far to the driver calls it makes, \<open>run_xcb n\<close> runs a callback
  with callbacks nested at most \<open>n\<close> deep, and \<open>x_handle\<close> handles one event to its end. \<open>join\<close> and
  \<open>run\<close> block the calling thread and change nothing; they are not among the calls.
\<close>

datatype ex_call =
    XStart
  | XStop
  | XAbort
  | XSendStatusUpdate TaskStatus
  | XSendFrameworkMessage string

type_synonym xfw = "ex_cb \<Rightarrow> ex_effect list \<Rightarrow> ex_call list"

subsection \<open>Driver calls\<close>

text \<open>\<open>start\<close> takes the three identifiers from the environment; a missing one stays unset.\<close>

definition x_driver_start :: "ex_world \<Rightarrow> ex_sys \<Rightarrow> ex_sys outcome" where
  "x_driver_start w s =
     require (\<not> x_process s)
       (let s = x_startRegistration (x_new_process (xw_framework_id w) (xw_executor_id w) (xw_slave_id w) s)
        in if x_status s \<noteq> DRIVER_NOT_STARTED then Inr s else Inr (s\<lparr>x_status := DRIVER_RUNNING\<rparr>))"

definition x_driver_stop :: "ex_sys \<Rightarrow> (ex_sys \<times> Status) outcome" where
  "x_driver_stop s =
     (if x_status s \<noteq> DRIVER_RUNNING \<and> x_status s \<noteq> DRIVER_ABORTED then Inr (s, x_status s)
      else require (x_process s)
             (let was_aborted = (x_status s = DRIVER_ABORTED); s = s\<lparr>x_status := DRIVER_STOPPED\<rparr>
              in Inr (s, if was_aborted then DRIVER_ABORTED else x_status s)))"

definition x_driver_sendStatusUpdate :: "ex_world \<Rightarrow> ex_callback \<Rightarrow> TaskStatus \<Rightarrow> ex_sys \<Rightarrow> ex_sys outcome" where
  "x_driver_sendStatusUpdate w exe st s =
     (if x_status s \<noteq> DRIVER_RUNNING then Inr s
      else require (x_process s) (x_sendStatusUpdate w exe st s))"

definition x_driver_sendFrameworkMessage :: "string \<Rightarrow> ex_sys \<Rightarrow> ex_sys outcome" where
  "x_driver_sendFrameworkMessage data s =
     (if x_status s \<noteq> DRIVER_RUNNING then Inr s
      else require (x_process s) (x_sendFrameworkMessage data s))"

fun x_drv_call :: "ex_world \<Rightarrow> ex_callback \<Rightarrow> ex_call \<Rightarrow> ex_sys \<Rightarrow> ex_sys outcome" where
  "x_drv_call w exe XStart s = x_driver_start w s"
| "x_drv_call w exe XStop s = andThen (x_driver_stop s) (\<lambda>(s, _). Inr s)"
| "x_drv_call w exe XAbort s = x_driver_abort s"
| "x_drv_call w exe (XSendStatusUpdate st) s = x_driver_sendStatusUpdate w exe st s"
| "x_drv_call w exe (XSendFrameworkMessage data) s = x_driver_sendFrameworkMessage data s"

fun run_xcb :: "ex_world \<Rightarrow> xfw \<Rightarrow> nat \<Rightarrow> ex_callback" where
  "run_xcb w u 0 cb s = Inl DepthExceeded"
| "run_xcb w u (Suc n) cb s = foldOutcome (x_drv_call w (run_xcb w u n)) (u cb (x_trace s)) s"

subsection \<open>The transition system\<close>

datatype ex_event =
    XInput ex_in
  | XExpire ex_timer nat
  | XCall ex_call

definition x_initial :: ex_sys where
  "x_initial =
     \<lparr>x_status = DRIVER_NOT_STARTED, x_process = False, x_killed = False, x_broker = broker_start,
      x_frameworkId = None, x_executorId = None, x_slaveId = None, x_channelsCreated = False,
      x_notifyChannel = [], x_heartbeat = None, x_updates = lhm_empty, x_tasks = lhm_empty,
      x_aborted = False, x_connected = False, x_pending = [], x_trace = [], x_draws = 0\<rparr>"

fun x_on_timer :: "ex_world \<Rightarrow> ex_timer \<Rightarrow> ex_sys \<Rightarrow> ex_sys outcome" where
  "x_on_timer w XRegistrationTimer s = x_doReliableRegistration w s"
| "x_on_timer w XHeartbeatTimer s = Inr (x_sendHeartbeat s)"
| "x_on_timer w KillTimer s = Inr (s\<lparr>x_killed := True\<rparr>)"

text \<open>An event that cannot happen in a state is \<open>None\<close>; nothing happens to a killed process.\<close>

definition x_handle :: "ex_world \<Rightarrow> ex_callback \<Rightarrow> ex_event \<Rightarrow> ex_sys \<Rightarrow> ex_sys outcome option" where
  "x_handle w exe ev s =
     (if x_killed s then None
      else case ev of
             XInput m \<Rightarrow>
               if x_channelsCreated s \<and> isRunning (x_broker s) then Some (x_onInput w exe m s) else None
           | XExpire t seconds \<Rightarrow>
               if (t, seconds) \<in> set (x_pending s)
               then Some (x_on_timer w t (s\<lparr>x_pending := remove1 (t, seconds) (x_pending s)\<rparr>)) else None
           | XCall c \<Rightarrow> Some (x_drv_call w exe c s))"

inductive x_reach :: "ex_world \<Rightarrow> xfw \<Rightarrow> nat \<Rightarrow> ex_sys \<Rightarrow> bool" for w u n where
  x_reach_initial: "x_reach w u n x_initial"
| x_reach_step: "x_reach w u n s \<Longrightarrow> x_handle w (run_xcb w u n) ev s = Some (Inr s') \<Longrightarrow> x_reach w u n s'"

text \<open>A run of events, each of which can happen and is handled without a failure.\<close>

fun x_run :: "ex_world \<Rightarrow> xfw \<Rightarrow> nat \<Rightarrow> ex_event list \<Rightarrow> ex_sys \<Rightarrow> ex_sys option" where
  "x_run w u n [] s = Some s"
| "x_run w u n (ev # evs) s =
     (case x_handle w (run_xcb w u n) ev s of
        Some (Inr s') \<Rightarrow> x_run w u n evs s'
      | _ \<Rightarrow> None)"

subsection \<open>The executor keeps the contract of callbacks\<close>

lemma x_driver_stop_good:
  assumes "ex_live w s"
  shows "within F (andThen (x_driver_stop s) (\<lambda>(s, _). Inr s)) (ex_good w s)"
  using assms status_ex_good [OF assms, of DRIVER_STOPPED]
  by (simp add: x_driver_stop_def Let_def ex_good_refl ex_live_iff)

lemma x_drv_call_good:
  assumes c: "executor_contract w F exe" and s: "ex_live w s" and start: "c = XStart \<longrightarrow> CheckFailed \<in> F"
  shows "within F (x_drv_call w exe c s) (ex_good w s)"
proof (cases c)
  case XStart
  with start s show ?thesis by (simp add: x_driver_start_def ex_live_iff)
next
  case XStop
  with x_driver_stop_good [OF s] show ?thesis by simp
next
  case XAbort
  with x_driver_abort_good [OF s] show ?thesis by simp
next
  case (XSendStatusUpdate st)
  with s executor_contract.x_sendStatusUpdate_good [OF c s] show ?thesis
    by (simp add: x_driver_sendStatusUpdate_def ex_good_refl ex_live_iff)
next
  case (XSendFrameworkMessage data)
  with s x_sendMessage_good [OF s executor_contract.wild [OF c]] show ?thesis
    by (simp add: x_driver_sendFrameworkMessage_def x_sendFrameworkMessage_def ex_good_refl ex_live_iff)
qed

definition no_start :: "xfw \<Rightarrow> bool" where
  "no_start u \<longleftrightarrow> (\<forall>cb tr. XStart \<notin> set (u cb tr))"

lemma run_xcb_contract:
  assumes "{WildChannel, DepthExceeded} \<subseteq> F" and "CheckFailed \<in> F \<or> no_start u"
  shows "executor_contract w F (run_xcb w u n)"
proof (induction n)
  case 0
  show ?case by unfold_locales (use assms in simp_all)
next
  case (Suc n)
  show ?case
  proof
    fix s cb
    assume "ex_live w s"
    then have "ex_good w s s" by (rule ex_good_refl)
    moreover have "within F (x_drv_call w (run_xcb w u n) c t) (ex_good w s)"
      if "c \<in> set (u cb (x_trace s))" and "ex_good w s t" for c t
    proof -
      have "c = XStart \<longrightarrow> CheckFailed \<in> F" using that(1) assms(2) by (auto simp: no_start_def)
      with that(2) show ?thesis
        by (intro within_good_trans [OF x_drv_call_good [OF Suc]]) (simp_all add: ex_good_def)
    qed
    ultimately show "within F (run_xcb w u (Suc n) cb s) (ex_good w s)"
      by (simp add: within_foldOutcome)
  qed (use assms in simp)
qed

interpretation xfwk: executor_contract w UNIV "run_xcb w u n" for w u n
  by (rule run_xcb_contract) simp_all

subsection \<open>Events\<close>

text \<open>The updates an event acknowledges, and the two events that make a check fail.\<close>

definition ev_acked :: "ex_event \<Rightarrow> string set" where
  "ev_acked ev = (case ev of XInput m \<Rightarrow> acked m | _ \<Rightarrow> {})"

definition ev_fails :: "ex_event \<Rightarrow> ex_sys \<Rightarrow> bool" where
  "ev_fails ev s \<longleftrightarrow>
     (case ev of
        XInput m \<Rightarrow> duplicate_task m s
      | XCall c \<Rightarrow> c = XStart \<and> x_process s
      | _ \<Rightarrow> False)"

definition kept :: "ex_world \<Rightarrow> string set \<Rightarrow> ex_sys \<Rightarrow> ex_sys \<Rightarrow> bool" where
  "kept w A s s' \<longleftrightarrow>
     ex_inv w s' \<and> x_draws s \<le> x_draws s' \<and> (x_process s \<longrightarrow> x_process s') \<and> (x_aborted s \<longrightarrow> x_aborted s') \<and>
     (\<forall>k. k \<notin> A \<and> k \<notin> uuid_of w ` {x_draws s..<x_draws s'} \<longrightarrow>
        lhm_get (x_updates s') k = lhm_get (x_updates s) k)"

lemma ex_step_kept: "ex_step w A s s' \<Longrightarrow> kept w A s s'"
  by (simp add: ex_step_def kept_def ex_live_def)

lemma keys_ordered_Nil [simp]: "keys_ordered w n []"
  by (simp add: keys_ordered_def)

lemma x_initial_inv: "ex_inv w x_initial"
  by (simp add: x_initial_def ex_inv_def)

lemma not_started_x_call:
  assumes "ex_inv w s" and "\<not> x_process s"
  shows "x_drv_call w exe c s = Inr (if c = XStart
    then (x_startRegistration (x_new_process (xw_framework_id w) (xw_executor_id w) (xw_slave_id w) s))
      \<lparr>x_status := DRIVER_RUNNING\<rparr> else s)"
  using assms
  by (cases c) (auto simp: ex_inv_def x_driver_start_def x_startRegistration_def x_new_process_def x_delay_def
      x_driver_stop_def x_driver_abort_def x_driver_sendStatusUpdate_def x_driver_sendFrameworkMessage_def)

lemma x_start_kept:
  assumes "ex_inv w s" and "\<not> x_process s"
  shows "kept w A s ((x_startRegistration (x_new_process f e i s))\<lparr>x_status := DRIVER_RUNNING\<rparr>)"
  using assms by (simp add: kept_def ex_inv_def x_startRegistration_def x_new_process_def x_delay_def)

lemma x_handle_kept:
  assumes c: "executor_contract w F exe" and s: "ex_inv w s" and h: "x_handle w exe ev s = Some r"
    and f: "CheckFailed \<in> F \<or> \<not> ev_fails ev s"
  shows "within F r (kept w (ev_acked ev) s)"
proof (cases ev)
  case (XInput m)
  with h s have l: "ex_live w s" and r: "r = x_onInput w exe m s"
    by (auto simp: x_handle_def ex_live_def ex_inv_def split: if_splits)
  have "within F r (ex_step w (acked m) s)"
    unfolding r using f XInput by (intro executor_contract.x_onInput_step [OF c l]) (auto simp: ev_fails_def)
  then show ?thesis by (rule within_mono) (simp add: XInput ev_acked_def ex_step_kept)
next
  case (XExpire t k)
  define s' where "s' = s\<lparr>x_pending := remove1 (t, k) (x_pending s)\<rparr>"
  from h XExpire s have l: "ex_live w s" and r: "r = x_on_timer w t s'"
    by (auto simp: x_handle_def ex_live_def ex_inv_def s'_def split: if_splits)
  have l': "ex_step w {} s s'" unfolding s'_def by (rule x_pending_step [OF l])
  then have "ex_live w s'" by (simp add: ex_step_def)
  then have "within F (x_on_timer w t s') (ex_step w {} s')"
    using executor_contract.wild [OF c]
    by (cases t) (simp_all add: x_doReliableRegistration_step x_sendHeartbeat_step x_killed_step)
  then have "within F r (kept w {} s')" unfolding r by (rule within_mono) (rule ex_step_kept)
  then show ?thesis by (rule within_mono) (simp add: kept_def s'_def XExpire ev_acked_def)
next
  case (XCall c')
  with h have r: "r = x_drv_call w exe c' s" by (auto simp: x_handle_def split: if_splits)
  show ?thesis
  proof (cases "x_process s")
    case True
    with s have "ex_live w s" by (simp add: ex_live_def)
    moreover have "c' = XStart \<longrightarrow> CheckFailed \<in> F" using f True by (auto simp: XCall ev_fails_def)
    ultimately have "within F r (ex_good w s)" unfolding r by (rule x_drv_call_good [OF c])
    then show ?thesis by (rule within_mono) (blast intro: ex_step_kept ex_good_step)
  next
    case False
    have "kept w A s s" for A using s by (simp add: kept_def)
    with False show ?thesis using x_start_kept [OF s False] by (simp add: r not_started_x_call [OF s False])
  qed
qed

lemma kept_trans:
  assumes "kept w A s t" and "kept w B t r"
  shows "kept w (A \<union> B) s r"
proof -
  have d: "x_draws s \<le> x_draws t" "x_draws t \<le> x_draws r" using assms by (simp_all add: kept_def)
  have "lhm_get (x_updates r) k = lhm_get (x_updates s) k"
    if "k \<notin> A \<union> B \<and> k \<notin> uuid_of w ` {x_draws s..<x_draws r}" for k
  proof -
    have "k \<notin> uuid_of w ` {x_draws s..<x_draws t}" "k \<notin> uuid_of w ` {x_draws t..<x_draws r}"
      using that d by auto
    with assms that show ?thesis by (simp add: kept_def)
  qed
  with assms d show ?thesis by (auto simp: kept_def)
qed

lemma x_run_kept:
  assumes "ex_inv w s" and "x_run w u n evs s = Some s'"
  shows "kept w (\<Union> (ev_acked ` set evs)) s s'"
  using assms
proof (induction evs arbitrary: s)
  case Nil
  then show ?case by (simp add: kept_def)
next
  case (Cons ev evs)
  from Cons.prems(2) obtain t where t: "x_handle w (run_xcb w u n) ev s = Some (Inr t)"
      "x_run w u n evs t = Some s'"
    by (auto split: option.splits sum.splits)
  have k: "kept w (ev_acked ev) s t"
    using x_handle_kept [OF xfwk.executor_contract_axioms Cons.prems(1) t(1)] by simp
  then have "ex_inv w t" by (simp add: kept_def)
  from kept_trans [OF k Cons.IH [OF this t(2)]] show ?case by simp
qed

lemma x_reach_inv: "x_reach w u n s \<Longrightarrow> ex_inv w s"
proof (induction rule: x_reach.induct)
  case (x_reach_step s ev s')
  from x_handle_kept [OF xfwk.executor_contract_axioms x_reach_step.IH x_reach_step.hyps(2)]
  show ?case by (simp add: kept_def)
qed (rule x_initial_inv)

end
