(* ===== verification/Executor_Properties.thy ===== *)
theory Executor_Properties
  imports Executor_Driver
begin

text \<open>
  The properties of the executor side, for every executor (a function from callbacks to driver
  calls), every answer of redis and every order of messages, timers and driver calls: the
  invariant, when a check fails, how deep callbacks nest, and that unacknowledged status updates
  survive until they are acknowledged and are sent again when the executor has to reconnect.
\<close>

subsection \<open>Callbacks nest at most twice\<close>

text \<open>
  An error callback is made only by a running driver, which it leaves aborted; an aborted or
  stopped driver ignores all calls but \<open>start\<close>, which fails its check.
\<close>

lemma quiet_call:
  assumes "x_process s" and "x_status s \<noteq> DRIVER_RUNNING"
  shows "within {CheckFailed} (x_drv_call w exe c s) (\<lambda>t. x_process t \<and> x_status t \<noteq> DRIVER_RUNNING)"
  using assms
  by (cases c) (auto simp: x_driver_start_def x_driver_stop_def x_driver_abort_def
      x_driver_sendStatusUpdate_def x_driver_sendFrameworkMessage_def)

lemma quiet_callback:
  assumes "x_process s" and "x_status s \<noteq> DRIVER_RUNNING"
  shows "within {CheckFailed} (run_xcb w u (Suc n) cb s) (\<lambda>t. x_process t \<and> x_status t \<noteq> DRIVER_RUNNING)"
  unfolding run_xcb.simps by (rule within_foldOutcome) (use assms in \<open>simp_all add: quiet_call\<close>)

lemma x_sendMessage_process:
  "x_process s \<Longrightarrow> within {CheckFailed, WildChannel} (x_sendMessage m s) x_process"
  by (cases m) (simp_all add: x_sendMessage_def x_write_def x_emit_def)

lemma shallow_call:
  assumes "x_process s"
  shows "within {CheckFailed, WildChannel} (x_drv_call w (run_xcb w u (Suc n)) c s) x_process"
proof (cases "x_status s = DRIVER_RUNNING")
  case False
  show ?thesis by (rule within_weaken [OF quiet_call [OF assms False]]) auto
next
  case True
  show ?thesis
  proof (cases c)
    case (XSendStatusUpdate st)
    let ?t = "s\<lparr>x_aborted := True, x_status := DRIVER_ABORTED\<rparr>"
    have "within {CheckFailed} (x_invoke (run_xcb w u (Suc n)) cb ?t)
        (\<lambda>t. x_process t \<and> x_status t \<noteq> DRIVER_RUNNING)" for cb
      unfolding x_invoke_def using assms by (intro quiet_callback) (simp_all add: x_emit_def)
    then have "within {CheckFailed, WildChannel} (x_invoke (run_xcb w u (Suc n)) cb ?t) x_process" for cb
      by (rule within_weaken) auto
    then show ?thesis
      using True assms x_sendMessage_process
      by (auto simp: XSendStatusUpdate x_driver_sendStatusUpdate_def x_sendStatusUpdate_def x_driver_abort_def
          x_abort_def Let_def simp del: run_xcb.simps)
  qed (use True assms in \<open>auto simp: x_driver_start_def x_driver_stop_def x_driver_abort_def x_abort_def
    x_driver_sendFrameworkMessage_def x_sendFrameworkMessage_def x_sendMessage_process Let_def\<close>)
qed

lemma shallow_contract: "executor_contract w {CheckFailed, WildChannel} (run_xcb w u (Suc (Suc n)))"
proof
  fix s cb
  assume s: "ex_live w s"
  then have p: "x_process s" by (simp add: ex_live_def)
  have "within {CheckFailed, WildChannel} (run_xcb w u (Suc (Suc n)) cb s) x_process"
    unfolding run_xcb.simps(2) [of w u "Suc n"] using shallow_call p by (rule within_foldOutcome)
  from within_conj [OF xfwk.exe_good [OF s] this]
  show "within {CheckFailed, WildChannel} (run_xcb w u (Suc (Suc n)) cb s) (ex_good w s)"
    by (rule within_weaken) auto
qed simp

subsection \<open>Runs\<close>

lemma x_run_reach: "x_reach w u n s \<Longrightarrow> x_run w u n evs s = Some s' \<Longrightarrow> x_reach w u n s'"
proof (induction evs arbitrary: s)
  case (Cons ev evs)
  from Cons.prems(2) obtain t where t: "x_handle w (run_xcb w u n) ev s = Some (Inr t)"
      "x_run w u n evs t = Some s'"
    by (auto split: option.splits sum.splits)
  from Cons.IH [OF x_reach_step [OF Cons.prems(1) t(1)] t(2)] show ?case .
qed simp

text \<open>An executor that makes no calls, in a world in which redis always answers.\<close>

definition x_quiet :: xfw where
  "x_quiet cb tr = []"

definition x_demo_world :: ex_world where
  "x_demo_world = \<lparr>xw_connect = (\<lambda>_ _. Some 7), xw_uuid = (\<lambda>n. (if n = 0 then ''u'' else ''v'') @ [CHR 0x00] @ replicate 14 (CHR ''x'')),
     xw_time = int, xw_fork = True, xw_master = Some ''urb://h'', xw_slave_id = Some ''s:r'',
     xw_framework_id = Some ''f1'', xw_executor_id = Some ''e1''\<rparr>"

definition x_demo_payload :: ex_payload where
  "x_demo_payload = \<lparr>xp_source = [],
     xp_executor_info = \<lparr>ei_executor_id = Some ''e1'', ei_framework_id = None, ei_other = []\<rparr>,
     xp_framework_info = \<lparr>fi_id = None, fi_user = ''me'', fi_name = ''demo'', fi_other = []\<rparr>,
     xp_framework_id = Some ''f1'', xp_slave_id = Some ''s:r'', xp_slave_info = [],
     xp_task = \<lparr>ti_task_id = Some ''t1'', ti_slave_id = Some ''s:r'', ti_executor = None,
       ti_command = Some ''true'', ti_labels = None, ti_other = []\<rparr>,
     xp_task_id = Some ''t1'', xp_uuid = ''u'', xp_data = []\<rparr>"

definition x_demo_status :: "string \<Rightarrow> TaskState \<Rightarrow> TaskStatus" where
  "x_demo_status task state = empty_status\<lparr>ts_task_id := Some task, ts_state := state\<rparr>"

text \<open>Start, registration, the launch of a task, and a first report.\<close>

definition x_demo_events :: "ex_event list" where
  "x_demo_events =
     [XCall XStart, XExpire XRegistrationTimer 0,
      XInput (ExMessage ''ExecutorRegisteredMessage'' x_demo_payload),
      XInput (ExMessage ''RunTaskMessage'' x_demo_payload),
      XCall (XSendStatusUpdate (x_demo_status ''t1'' TASK_RUNNING))]"

definition x_demo :: ex_sys where
  "x_demo = the (x_run x_demo_world x_quiet 2 x_demo_events x_initial)"

lemma x_demo_run: "x_run x_demo_world x_quiet 2 x_demo_events x_initial = Some x_demo"
proof -
  have "x_run x_demo_world x_quiet 2 x_demo_events x_initial \<noteq> None" by code_simp
  then show ?thesis by (simp add: x_demo_def option.the_def split: option.splits)
qed

lemma x_demo_reach: "x_reach x_demo_world x_quiet 2 x_demo"
  by (rule x_run_reach [OF x_reach_initial x_demo_run])

subsection \<open>Unacknowledged updates\<close>

lemma stored_uuid:
  assumes "ex_inv w s"
  shows "map (\<lambda>u. bytes_value (su_uuid u)) (lhm_values (x_updates s)) = lhm_keys (x_updates s)"
proof -
  have inv: "lhm_inv (x_updates s)" using assms by (simp add: ex_inv_def)
  have "bytes_value (su_uuid (snd e)) = fst e" if "e \<in> set (lhm_alist (x_updates s))" for e
  proof -
    have "distinct (map fst (lhm_alist (x_updates s)))"
      using inv by (simp add: lhm_inv_def flip: lhm_keys_alist)
    then have "lhm_get (x_updates s) (fst e) = Some (snd e)"
      using that by (simp add: lhm_get_alist [OF inv])
    with assms have "su_uuid (snd e) = Some (fst e)" by (auto simp: ex_inv_def update_ok_def)
    then show ?thesis by (simp add: bytes_value_def)
  qed
  then show ?thesis by (simp add: lhm_values_alist lhm_keys_alist)
qed

lemma get_in_values: "lhm_inv m \<Longrightarrow> lhm_get m k = Some v \<Longrightarrow> v \<in> set (lhm_values m)"
  by (auto simp: lhm_get_alist lhm_values_alist dest!: map_of_SomeD intro: rev_image_eqI)

lemma values_get:
  assumes "lhm_inv m" and "v \<in> set (lhm_values m)"
  shows "\<exists>k. lhm_get m k = Some v"
proof -
  from assms(2) obtain k where "(k, v) \<in> set (lhm_alist m)" by (auto simp: lhm_values_alist)
  moreover have "distinct (map fst (lhm_alist m))" using assms(1) by (simp add: lhm_inv_def flip: lhm_keys_alist)
  ultimately show ?thesis by (auto simp: lhm_get_alist [OF assms(1)])
qed

lemma kept_update:
  assumes "kept w A s s'" and "k \<notin> uuid_of w ` {x_draws s..<x_draws s'}" and "k \<notin> A"
    and "lhm_get (x_updates s) k = Some u"
  shows "lhm_get (x_updates s') k = Some u"
  using assms by (simp add: kept_def)

lemma reconnect_message: "map_of ex_messages ''ReconnectExecutorMessage'' = Some RECONNECT_EXECUTOR"
  by code_simp

text \<open>The state after a report of a running driver whose process has its channel.\<close>

definition x_reported :: "ex_world \<Rightarrow> TaskStatus \<Rightarrow> ex_sys \<Rightarrow> ex_sys" where
  "x_reported w st s =
     (if isRunning (x_broker s)
      then x_emit (XSent ''StatusUpdateMessage'' (StatusUpdateMessage (x_update w st s)) None) (x_record w st s)
      else x_record w st s)"

lemma x_reported_fields:
  "x_updates (x_reported w st s) = lhm_put (uuid_of w (x_draws s)) (x_update w st s) (x_updates s)"
  "x_draws (x_reported w st s) = Suc (x_draws s)" "x_status (x_reported w st s) = x_status s"
  "x_process (x_reported w st s) = x_process s" "x_killed (x_reported w st s) = x_killed s"
  "x_channelsCreated (x_reported w st s) = x_channelsCreated s"
  by (simp_all add: x_reported_def x_emit_def x_record_def)

lemma x_handle_report:
  assumes "x_status s = DRIVER_RUNNING" and "x_process s" and "\<not> x_killed s" and "x_channelsCreated s"
    and "ts_state st \<noteq> TASK_STAGING"
  shows "x_handle w exe (XCall (XSendStatusUpdate st)) s = Some (Inr (x_reported w st s))"
  using assms
  by (simp add: x_handle_def x_driver_sendStatusUpdate_def x_sendStatusUpdate_def x_sendMessage_def x_write_def
      x_reported_def x_record_def Let_def)

lemma x_update_task [simp]: "ts_task_id (su_status (x_update w st s)) = ts_task_id st"
  by (simp add: x_update_def Let_def)

subsection \<open>Properties\<close>

text \<open>
  C7. Every reachable state of the executor driver, its process, its broker and its timers satisfies
  the invariant: there is a process exactly when the driver was started, an aborted driver has an
  aborted process, a connected process has a channel, both maps of the process are consistent,
  the unacknowledged updates are stored under their own UUIDs in the order in which they were
  reported and carry the identity of this executor, and tasks are stored under their ids.
\<close>

theorem executor_invariant: "x_reach w u n s \<Longrightarrow> ex_inv w s"
  by (rule x_reach_inv)

theorem executor_invariant_witness: "ex_inv x_demo_world x_demo"
  by (rule executor_invariant [OF x_demo_reach])

text \<open>
  C6. No reported status update is lost before it is acknowledged: an update the process has stored is
  kept, unchanged, through every sequence of events that contains no acknowledgement of its UUID,
  and when the executor is then asked to reconnect it sends a registration with all stored updates, this
  one among them, in the order of their reports, and with all stored tasks. The condition is that no UUID
  generated on the way agrees with that of the update in the bytes the code keeps of it,
  those before the first zero byte.
\<close>

theorem unacknowledged_updates_resent:
  assumes "x_reach w u n s" and "lhm_get (x_updates s) k = Some upd" and "x_run w u n evs s = Some s'"
    and "k \<notin> uuid_of w ` {x_draws s..<x_draws s'}" and "k \<notin> \<Union> (ev_acked ` set evs)" and "\<not> x_aborted s'"
    and "x_handle w (run_xcb w u n) (XInput (ExMessage ''ReconnectExecutorMessage'' p)) s' = Some r"
  shows "upd \<in> set (lhm_values (x_updates s')) \<and>
    keys_ordered w (x_draws s') (map (\<lambda>u. bytes_value (su_uuid u)) (lhm_values (x_updates s'))) \<and>
    r = Inr (x_emit (XSent ''ReregisterExecutorMessage''
          (ReregisterExecutorMessage (x_executorId s') (x_frameworkId s')
            (lhm_values (x_updates s')) (lhm_values (x_tasks s')))
          (executorRunnerChannel (x_slaveId s'))) s')"
proof -
  have inv: "ex_inv w s" by (rule x_reach_inv [OF assms(1)])
  have k: "kept w (\<Union> (ev_acked ` set evs)) s s'" by (rule x_run_kept [OF inv assms(3)])
  then have inv': "ex_inv w s'" by (simp add: kept_def)
  have "upd \<in> set (lhm_values (x_updates s'))"
    using kept_update [OF k assms(4,5,2)] inv' by (intro get_in_values) (simp_all add: ex_inv_def)
  moreover have "keys_ordered w (x_draws s') (map (\<lambda>u. bytes_value (su_uuid u)) (lhm_values (x_updates s')))"
    using inv' by (simp add: stored_uuid [OF inv'] ex_inv_def)
  moreover from assms(7) have "x_channelsCreated s'" "isRunning (x_broker s')"
    "r = x_onInput w (run_xcb w u n) (ExMessage ''ReconnectExecutorMessage'' p) s'"
    by (auto simp: x_handle_def split: if_splits)
  ultimately show ?thesis
    using assms(6) by (simp add: x_onInput_def reconnect_message x_reconnect_def x_sendMessage_def x_write_def)
qed

theorem unacknowledged_updates_resent_witness:
  "\<exists>upd. lhm_get (x_updates x_demo) ''u'' = Some upd \<and>
     (\<exists>s'. x_run x_demo_world x_quiet 2 [XCall (XSendStatusUpdate (x_demo_status ''t1'' TASK_FAILED)),
         XInput (ExMessage ''ServiceDisconnectedMessage'' x_demo_payload)] x_demo = Some s' \<and>
       upd \<in> set (lhm_values (x_updates s')))"
proof -
  let ?evs = "[XCall (XSendStatusUpdate (x_demo_status ''t1'' TASK_FAILED)),
    XInput (ExMessage ''ServiceDisconnectedMessage'' x_demo_payload)]"
  have "lhm_get (x_updates x_demo) ''u'' \<noteq> None" by code_simp
  then obtain upd where upd: "lhm_get (x_updates x_demo) ''u'' = Some upd" by blast
  have "case x_run x_demo_world x_quiet 2 ?evs x_demo of
      Some s' \<Rightarrow> \<not> x_aborted s' \<and> ''u'' \<notin> uuid_of x_demo_world ` {x_draws x_demo..<x_draws s'} \<and>
        x_handle x_demo_world (run_xcb x_demo_world x_quiet 2)
          (XInput (ExMessage ''ReconnectExecutorMessage'' x_demo_payload)) s' \<noteq> None
    | None \<Rightarrow> False"
    by code_simp
  then obtain s' r where s': "x_run x_demo_world x_quiet 2 ?evs x_demo = Some s'"
    "''u'' \<notin> uuid_of x_demo_world ` {x_draws x_demo..<x_draws s'}" "\<not> x_aborted s'"
    "x_handle x_demo_world (run_xcb x_demo_world x_quiet 2)
      (XInput (ExMessage ''ReconnectExecutorMessage'' x_demo_payload)) s' = Some r"
    by (auto split: option.splits)
  have "''u'' \<notin> \<Union> (ev_acked ` set ?evs)" by (simp add: ev_acked_def acked_def)
  from unacknowledged_updates_resent [OF x_demo_reach upd s'(1,2) this s'(3,4)] upd s'(1)
  show ?thesis by blast
qed

text \<open>
  C8. For an executor that does not start its driver from a callback, the process dies in a failed check
  in exactly two cases: the driver is started a second time, or a connected process that is not
  aborted is asked to run a task whose id it still stores.
\<close>

theorem executor_checks:
  assumes "no_start u" and "x_reach w u n s" and "x_handle w (run_xcb w u n) ev s = Some r"
  shows "r = Inl CheckFailed \<longleftrightarrow> ev_fails ev s"
proof -
  have inv: "ex_inv w s" by (rule x_reach_inv [OF assms(2)])
  have c: "executor_contract w {WildChannel, DepthExceeded} (run_xcb w u n)"
    using assms(1) by (intro run_xcb_contract) simp_all
  have "r \<noteq> Inl CheckFailed" if "\<not> ev_fails ev s"
    using x_handle_kept [OF c inv assms(3)] that by (cases r) auto
  moreover have "r = Inl CheckFailed" if f: "ev_fails ev s"
  proof (cases ev)
    case (XInput m)
    obtain tgt p where m: "m = ExMessage tgt p" by (cases m)
    have "map_of ex_messages ''RunTaskMessage'' = Some RUN_TASK" by code_simp
    with f assms(3) show ?thesis
      by (auto simp: XInput m ev_fails_def duplicate_task_def x_handle_def x_onInput_def x_runTask_def split: if_splits)
  qed (use f assms(3) in \<open>auto simp: ev_fails_def x_handle_def x_driver_start_def split: if_splits\<close>)
  ultimately show ?thesis by blast
qed

theorem executor_checks_witness:
  "x_handle x_demo_world (run_xcb x_demo_world x_quiet 2)
     (XInput (ExMessage ''RunTaskMessage'' x_demo_payload)) x_demo = Some (Inl CheckFailed)"
proof -
  let ?ev = "XInput (ExMessage ''RunTaskMessage'' x_demo_payload)"
  have "no_start x_quiet" by (simp add: no_start_def x_quiet_def)
  moreover have "x_handle x_demo_world (run_xcb x_demo_world x_quiet 2) ?ev x_demo \<noteq> None"
    "ev_fails ?ev x_demo"
    by code_simp+
  ultimately show ?thesis using executor_checks [OF _ x_demo_reach, of ?ev] by fastforce
qed

text \<open>
  C9. Callbacks into the executor nest at most twice, whatever the executor does in them: with room for
  two levels no event of a reachable state, and no event of any state that satisfies the
  invariant, exceeds the depth.
\<close>

theorem executor_callback_depth:
  assumes "ex_inv w s"
  shows "x_handle w (run_xcb w u (Suc (Suc n))) ev s \<noteq> Some (Inl DepthExceeded)"
proof
  assume "x_handle w (run_xcb w u (Suc (Suc n))) ev s = Some (Inl DepthExceeded)"
  from x_handle_kept [OF shallow_contract assms this] show False by simp
qed

theorem executor_callback_depth_witness:
  "x_handle x_demo_world (run_xcb x_demo_world (\<lambda>cb tr. [XSendStatusUpdate (x_demo_status ''t1'' TASK_STAGING)]) 2)
     (XInput (ExMessage ''KillTaskMessage'' x_demo_payload)) x_demo \<noteq> Some (Inl DepthExceeded)"
  using executor_callback_depth [OF x_reach_inv [OF x_demo_reach], of _ 0] unfolding numeral_2_eq_2 by blast

text \<open>
  C10. An acknowledgement removes exactly the update with its UUID, and the task it names exactly when
  that update reported the task finished; an unknown UUID changes nothing, although the code looks it
  up with an operator that enters a default.
\<close>

theorem acknowledgement_functional:
  assumes "ex_inv w s" and "x_connected s" and "\<not> x_aborted s"
  shows "returns (x_statusUpdateAcknowledgement slave fid task uuid s) (\<lambda>s'.
    lhm_alist (x_updates s') = filter (\<lambda>e. fst e \<noteq> uuid) (lhm_alist (x_updates s)) \<and>
    lhm_alist (x_tasks s') =
      (if map_option (\<lambda>u. ts_state (su_status u)) (lhm_get (x_updates s) uuid) = Some TASK_FINISHED
       then filter (\<lambda>e. fst e \<noteq> id_value task) (lhm_alist (x_tasks s)) else lhm_alist (x_tasks s)) \<and>
    s' = s\<lparr>x_updates := x_updates s', x_tasks := x_tasks s'\<rparr>)"
proof -
  have inv: "lhm_inv (x_updates s)" "lhm_inv (x_tasks s)" using assms(1) by (simp_all add: ex_inv_def)
  show ?thesis
  proof (cases "lhm_get (x_updates s) uuid")
    case None
    then have "uuid \<notin> fst ` set (lhm_alist (x_updates s))"
      by (simp add: lhm_get_alist [OF inv(1)] map_of_eq_None_iff)
    then have "filter (\<lambda>e. fst e \<noteq> uuid) (alist_put uuid v (lhm_alist (x_updates s))) =
        filter (\<lambda>e. fst e \<noteq> uuid) (lhm_alist (x_updates s))" for v
      by (simp add: alist_put_new)
    with None assms inv show ?thesis
      by (simp add: x_statusUpdateAcknowledgement_def updates_at_def lhm_alist_erase lhm_inv_put lhm_alist_put
          empty_update_def empty_status_def)
  next
    case (Some u)
    with assms inv show ?thesis
      by (simp add: x_statusUpdateAcknowledgement_def updates_at_def lhm_alist_erase)
  qed
qed

theorem acknowledgement_functional_witness:
  "returns (x_statusUpdateAcknowledgement None None (Some ''t1'') ''u'' x_demo) (\<lambda>s'.
     lhm_alist (x_updates s') = [] \<and> length (lhm_alist (x_tasks s')) = 1)"
proof -
  have "x_connected x_demo" "\<not> x_aborted x_demo" by code_simp+
  from acknowledgement_functional [OF x_reach_inv [OF x_demo_reach] this, of None None "Some ''t1''" "''u''"]
  show ?thesis
  proof (rule returns_mono, elim conjE)
    fix s'
    assume *: "lhm_alist (x_updates s') = filter (\<lambda>e. fst e \<noteq> ''u'') (lhm_alist (x_updates x_demo))"
      "lhm_alist (x_tasks s') =
      (if map_option (\<lambda>u. ts_state (su_status u)) (lhm_get (x_updates x_demo) ''u'') = Some TASK_FINISHED
       then filter (\<lambda>e. fst e \<noteq> id_value (Some ''t1'')) (lhm_alist (x_tasks x_demo)) else lhm_alist (x_tasks x_demo))"
    have "filter (\<lambda>e. fst e \<noteq> ''u'') (lhm_alist (x_updates x_demo)) = []" by code_simp
    moreover have "map_option (\<lambda>u. ts_state (su_status u)) (lhm_get (x_updates x_demo) ''u'') = Some TASK_RUNNING"
      "length (lhm_alist (x_tasks x_demo)) = 1"
      by code_simp+
    ultimately show "lhm_alist (x_updates s') = [] \<and> length (lhm_alist (x_tasks s')) = 1" using * by auto
  qed
qed

text \<open>
  The code keeps a UUID only up to its first zero byte. Two updates whose UUIDs start with a zero
  byte therefore share a key: the second one replaces the first, which nobody acknowledged
  and which no later reconnection sends again.
\<close>

theorem zero_uuid_loses_update:
  assumes "x_reach w u n s" and "x_status s = DRIVER_RUNNING" and "x_channelsCreated s" and "\<not> x_killed s"
    and "xw_uuid w (x_draws s) = CHR 0x00 # r1" and "xw_uuid w (Suc (x_draws s)) = CHR 0x00 # r2"
    and "ts_state a \<noteq> TASK_STAGING" and "ts_state b \<noteq> TASK_STAGING" and "ts_task_id a \<noteq> ts_task_id b"
  shows "\<exists>s1 s2. x_run w u n [XCall (XSendStatusUpdate a)] s = Some s1 \<and>
    x_update w a s \<in> set (lhm_values (x_updates s1)) \<and>
    x_run w u n [XCall (XSendStatusUpdate b)] s1 = Some s2 \<and>
    x_update w a s \<notin> set (lhm_values (x_updates s2))"
proof -
  let ?s1 = "x_reported w a s" and ?s2 = "x_reported w b (x_reported w a s)"
  have key: "uuid_of w (x_draws s) = []" "uuid_of w (Suc (x_draws s)) = []"
    using assms(5,6) by (simp_all add: uuid_of_def c_string_def)
  have inv: "ex_inv w s" by (rule x_reach_inv [OF assms(1)])
  then have p: "x_process s" and i0: "lhm_inv (x_updates s)" using assms(2) by (simp_all add: ex_inv_def)
  have h1: "x_handle w (run_xcb w u n) (XCall (XSendStatusUpdate a)) s = Some (Inr ?s1)"
    using assms p by (intro x_handle_report)
  have h2: "x_handle w (run_xcb w u n) (XCall (XSendStatusUpdate b)) ?s1 = Some (Inr ?s2)"
    using assms p by (intro x_handle_report) (simp_all add: x_reported_fields)
  have inv2: "ex_inv w ?s2" by (rule x_reach_inv [OF x_reach_step [OF x_reach_step [OF assms(1) h1] h2]])
  then have i2: "lhm_inv (x_updates ?s2)" by (simp add: ex_inv_def)
  have g2: "lhm_get (x_updates ?s2) [] = Some (x_update w b ?s1)"
    using i0 by (simp add: x_reported_fields key lmap.get_put lhm_inv_put)
  have "x_update w a s \<in> set (lhm_values (x_updates ?s1))"
    using i0 by (intro get_in_values [of _ "[]"]) (simp_all add: x_reported_fields key lhm_inv_put lmap.get_put)
  moreover have "x_update w a s \<notin> set (lhm_values (x_updates ?s2))"
  proof
    assume "x_update w a s \<in> set (lhm_values (x_updates ?s2))"
    then obtain k where k: "lhm_get (x_updates ?s2) k = Some (x_update w a s)"
      using values_get [OF i2] by blast
    with inv2 have "update_ok ?s2 k (x_update w a s)" by (simp add: ex_inv_def)
    then have "su_uuid (x_update w a s) = Some k" by (simp add: update_ok_def)
    then have "k = []" using key(1) x_update_uuid [of w a s] by (simp add: bytes_value_def)
    with k g2 have "x_update w b ?s1 = x_update w a s" by simp
    then have "ts_task_id (su_status (x_update w b ?s1)) = ts_task_id (su_status (x_update w a s))" by simp
    with assms(9) show False by simp
  qed
  ultimately show ?thesis
    by (intro exI [of _ ?s1] exI [of _ ?s2]) (simp add: h1 h2 del: run_xcb.simps)
qed

theorem zero_uuid_loses_update_witness:
  "let w = x_demo_world\<lparr>xw_uuid := \<lambda>n. CHR 0x00 # replicate 15 (CHR ''x'')\<rparr>;
       s = the (x_run w x_quiet 2 [XCall XStart, XExpire XRegistrationTimer 0] x_initial)
   in \<exists>s1 s2. x_run w x_quiet 2 [XCall (XSendStatusUpdate (x_demo_status ''a'' TASK_RUNNING))] s = Some s1 \<and>
        x_run w x_quiet 2 [XCall (XSendStatusUpdate (x_demo_status ''b'' TASK_RUNNING))] s1 = Some s2 \<and>
        x_update w (x_demo_status ''a'' TASK_RUNNING) s \<notin> set (lhm_values (x_updates s2))"
proof -
  let ?w = "x_demo_world\<lparr>xw_uuid := \<lambda>n. CHR 0x00 # replicate 15 (CHR ''x'')\<rparr>"
  let ?evs = "[XCall XStart, XExpire XRegistrationTimer 0]"
  let ?s = "the (x_run ?w x_quiet 2 ?evs x_initial)"
  have "x_run ?w x_quiet 2 ?evs x_initial \<noteq> None" by code_simp
  then have "x_run ?w x_quiet 2 ?evs x_initial = Some ?s" by simp
  then have r: "x_reach ?w x_quiet 2 ?s" by (rule x_run_reach [OF x_reach_initial])
  have s: "x_status ?s = DRIVER_RUNNING" "x_channelsCreated ?s" "\<not> x_killed ?s" by code_simp+
  have "xw_uuid ?w (x_draws ?s) = CHR 0x00 # replicate 15 (CHR ''x'')"
    "xw_uuid ?w (Suc (x_draws ?s)) = CHR 0x00 # replicate 15 (CHR ''x'')" by simp_all
  from zero_uuid_loses_update [OF r s this, of "x_demo_status ''a'' TASK_RUNNING" "x_demo_status ''b'' TASK_RUNNING"]
  show ?thesis by (auto simp: x_demo_status_def Let_def)
qed

end
