(* ===== verification/Scalar_Text.thy ===== *)
theory Scalar_Text
  imports Values
begin

text \<open>
  The text of a scalar (\<open>liburb/source/values.cpp\<close>, \<open>operator<<\<close> on \<open>Value::Scalar\<close>). The stream writes the
  double with 15 significant digits, in the format of \<open>%.15g\<close>: the digits of the value rounded to
  that precision, without trailing zeros, with an exponent only below \<open>10\<^sup>-\<^sup>4\<close> and from \<open>10\<^sup>1\<^sup>5\<close> on.
\<close>

subsection \<open>Printing a double\<close>

text \<open>The exponent of the leading decimal digit.\<close>

definition ilog10 :: "rat \<Rightarrow> int" where
  "ilog10 x =
     (if 1 \<le> x then int (length (show_nat (nat \<lfloor>x\<rfloor>))) - 1
      else - int (length (show_nat (nat (\<lceil>1 / x\<rceil> - 1)))))"

text \<open>The first 15 digits as a number, and the exponent.\<close>

definition significant :: "rat \<Rightarrow> nat \<times> int" where
  "significant x =
     (let e = ilog10 x; m = nat (round_even (x * 10 powi (14 - e)))
      in if m = 10 ^ 15 then (10 ^ 14, e + 1) else (m, e))"

definition strip_zeros :: "string \<Rightarrow> string" where
  "strip_zeros s = rev (dropWhile (\<lambda>c. c = CHR ''0'') (rev s))"

definition point :: "string \<Rightarrow> string \<Rightarrow> string" where
  "point whole fraction = (if fraction = [] then whole else whole @ ''.'' @ fraction)"

definition show_positive :: "nat \<times> int \<Rightarrow> string" where
  "show_positive =
     (\<lambda>(m, e). let ds = show_nat m
        in if 0 \<le> e \<and> e < 15 then point (take (nat e + 1) ds) (strip_zeros (drop (nat e + 1) ds))
           else if - 4 \<le> e \<and> e < 0 then point ''0'' (strip_zeros (replicate (nat (- e) - 1) (CHR ''0'') @ ds))
           else let x = show_nat (nat \<bar>e\<bar>)
                in point (take 1 ds) (strip_zeros (drop 1 ds)) @ (if e < 0 then ''e-'' else ''e+'') @
                   (if length x < 2 then CHR ''0'' # x else x))"

definition show_double :: "rat \<Rightarrow> string" where
  "show_double x =
     (if x = 0 then ''0'' else if x < 0 then CHR ''-'' # show_positive (significant (- x))
      else show_positive (significant x))"

definition print_scalar :: "rat \<Rightarrow> string" where
  "print_scalar x = show_double (scalar_printed x)"

subsection \<open>Digits\<close>

lemma show_nat_length:
  "n < 10 ^ length (show_nat n)" "0 < n \<Longrightarrow> 10 ^ (length (show_nat n) - 1) \<le> n"
proof (induction n rule: show_nat.induct)
  case (1 n)
  let ?k = "length (show_nat (n div 10))"
  have k: "1 \<le> ?k" by (simp add: Suc_le_eq)
  { case 1
    show ?case
    proof (cases "n < 10")
      case True
      then show ?thesis by (simp add: show_nat.simps [of n])
    next
      case False
      then have "n div 10 < 10 ^ ?k" using "1.IH"(1) by simp
      then have "n < 10 * 10 ^ ?k" by linarith
      with False show ?thesis by (simp add: show_nat.simps [of n])
    qed }
  { case 2
    show ?case
    proof (cases "n < 10")
      case True
      with 2 show ?thesis by (simp add: show_nat.simps [of n])
    next
      case False
      then have "10 ^ (?k - 1) \<le> n div 10" using "1.IH"(2) by simp
      then have "10 * 10 ^ (?k - 1) \<le> n" by linarith
      moreover have "(10 :: nat) * 10 ^ (?k - 1) = 10 ^ ?k" using k by (simp flip: power_Suc)
      ultimately show ?thesis using False by (simp add: show_nat.simps [of n])
    qed }
qed

lemma zero_char: "char_of (48 :: nat) = CHR ''0''"
  by code_simp

lemma show_nat_shift: "0 < n \<Longrightarrow> show_nat (n * 10 ^ k) = show_nat n @ replicate k (CHR ''0'')"
proof (induction k)
  case (Suc k)
  have "show_nat (n * 10 ^ Suc k) = show_nat (n * 10 ^ k) @ ''0''"
    using Suc.prems zero_char by (subst show_nat.simps) simp
  with Suc show ?case by (simp add: replicate_append_same)
qed simp

lemma digits_le:
  assumes "0 < n" and "n < 10 ^ k"
  shows "length (show_nat n) \<le> k"
proof -
  have "10 ^ (length (show_nat n) - 1) < (10 :: nat) ^ k" using show_nat_length(2) [OF assms(1)] assms(2) by linarith
  then have "length (show_nat n) - 1 < k" by simp
  then show ?thesis by linarith
qed

subsection \<open>The leading digit\<close>

lemma ilog10_bounds:
  assumes "0 < x"
  shows "10 powi (ilog10 x) \<le> x" and "x < 10 powi (ilog10 x + 1)"
proof -
  have "10 powi (ilog10 x) \<le> x \<and> x < 10 powi (ilog10 x + 1)"
  proof (cases "1 \<le> x")
    case True
    define f where "f = nat \<lfloor>x\<rfloor>"
    let ?l = "length (show_nat f)"
    have f: "of_nat f \<le> x" "x < of_nat (f + 1)" "1 \<le> f"
      using True by (simp_all add: f_def le_nat_iff) linarith
    have l: "1 \<le> ?l" "ilog10 x = int (?l - 1)" using True by (simp_all add: ilog10_def f_def Suc_le_eq of_nat_diff)
    have "10 ^ (?l - 1) \<le> f" "f + 1 \<le> 10 ^ ?l" using show_nat_length [of f] f(3) by simp_all
    then have "(10 :: rat) ^ (?l - 1) \<le> of_nat f" "(of_nat (f + 1) :: rat) \<le> 10 ^ ?l"
      using of_nat_mono [of "10 ^ (?l - 1)" f, where 'a = rat] of_nat_mono [of "f + 1" "10 ^ ?l", where 'a = rat] by simp_all
    with f have "10 ^ (?l - 1) \<le> x" "x < 10 ^ ?l" by linarith+
    moreover obtain k where "?l = Suc k" using l(1) by (cases ?l) simp_all
    ultimately show ?thesis using l(2) by (simp add: power_int_def nat_add_distrib)
  next
    case False
    define c where "c = nat (\<lceil>1 / x\<rceil> - 1)"
    let ?l = "length (show_nat c)"
    have "1 < 1 / x" using False assms by simp
    then have "2 \<le> \<lceil>1 / x\<rceil>" by linarith
    then have c: "of_nat c < 1 / x" "1 / x \<le> of_nat (c + 1)" "1 \<le> c" by (simp_all add: c_def le_nat_iff) linarith+
    have l: "1 \<le> ?l" "ilog10 x = - int ?l" using False by (simp_all add: ilog10_def c_def Suc_le_eq)
    have "10 ^ (?l - 1) \<le> c" "c + 1 \<le> 10 ^ ?l" using show_nat_length [of c] c(3) by simp_all
    then have "(10 :: rat) ^ (?l - 1) \<le> of_nat c" "(of_nat (c + 1) :: rat) \<le> 10 ^ ?l"
      using of_nat_mono [of "10 ^ (?l - 1)" c, where 'a = rat] of_nat_mono [of "c + 1" "10 ^ ?l", where 'a = rat] by simp_all
    with c have "10 ^ (?l - 1) < 1 / x" "1 / x \<le> 10 ^ ?l" by linarith+
    then have "x < 1 / 10 ^ (?l - 1)" "1 / 10 ^ ?l \<le> x" using assms by (simp_all add: field_simps)
    moreover obtain k where k: "?l = Suc k" using l(1) by (cases ?l) simp_all
    have "ilog10 x = - int (Suc k)" "ilog10 x + 1 = - int k" using l(2) k by simp_all
    then have "10 powi ilog10 x = (1 :: rat) / 10 ^ Suc k" "10 powi (ilog10 x + 1) = (1 :: rat) / 10 ^ k"
      by (simp_all only: power_int_minus power_int_of_nat inverse_eq_divide)
    ultimately show ?thesis by (simp add: k)
  qed
  then show "10 powi (ilog10 x) \<le> x" "x < 10 powi (ilog10 x + 1)" by simp_all
qed

lemma round_even_unique: "\<bar>y - of_int z\<bar> < 1 / 2 \<Longrightarrow> round_even y = z"
  using round_even_error [of y] by linarith

lemma powi_increasing: "a \<le> b \<Longrightarrow> (10 :: rat) powi a \<le> 10 powi b"
  by (rule power_int_increasing) simp_all

lemma relative_error:
  assumes "0 < n" and "n \<le> 2 ^ 49"
  shows "\<bar>convertToFloating (int n) - of_nat n / 1000\<bar> \<le> 4 / 2 ^ 53 * (of_nat n / 1000)"
proof (cases "1000 \<le> n")
  case True
  have "\<bar>int n\<bar> \<le> 2 ^ 50" using assms(2) by simp
  from convertToFloating_error [OF this]
  have "\<bar>convertToFloating (int n) - of_nat n / 1000\<bar> \<le> (of_nat n / 1000 + 3) / 2 ^ 53" by simp
  also have "\<dots> \<le> 4 / 2 ^ 53 * (of_nat n / 1000)"
    using True of_nat_mono [of 1000 n, where 'a = rat] by (simp add: field_simps)
  finally show ?thesis .
next
  case False
  define x :: rat where "x = of_nat n / 1000"
  have x: "0 \<le> x" by (simp add: x_def)
  have "quot (int n) 1000 = 0" "rem (int n) 1000 = int n" using False by (simp_all add: quot_def rem_def)
  moreover have "fround (of_nat n) = of_nat n" using fround_of_int [of "int n"] False by simp
  ultimately have c: "convertToFloating (int n) = fround (fround x)"
    by (simp add: convertToFloating_def x_def fround_def [of 0])
  have f: "\<bar>fround x - x\<bar> \<le> x / 2 ^ 53" using fround_error [of x] x by simp
  then have "\<bar>fround x\<bar> \<le> x * (1 + 1 / 2 ^ 53)" using x by (auto simp: abs_if algebra_simps split: if_splits)
  from fround_error_le [OF this] f have "\<bar>fround (fround x) - x\<bar> \<le> x * (1 + 1 / 2 ^ 53) / 2 ^ 53 + x / 2 ^ 53" by linarith
  also have "\<dots> \<le> 4 / 2 ^ 53 * x" using x by (simp add: field_simps)
  finally show ?thesis by (simp add: c x_def)
qed

lemma scaled_round:
  assumes "0 \<le> p" and "\<bar>a - x\<bar> \<le> c * x" and "x * p = of_nat N" and "c * of_nat N < 1 / 2"
  shows "round_even (a * p) = int N"
proof (rule round_even_unique)
  have "\<bar>a * p - of_int (int N)\<bar> = \<bar>(a - x) * p\<bar>" using assms(3) by (simp add: left_diff_distrib)
  also have "\<dots> \<le> c * x * p" using assms(1,2) by (simp add: abs_mult mult_right_mono)
  also have "\<dots> = c * of_nat N" using assms(3) by simp
  finally show "\<bar>a * p - of_int (int N)\<bar> < 1 / 2" using assms(4) by simp
qed

lemma significant_near:
  fixes a :: rat
  assumes n: "0 < n" "n \<le> 2 ^ 49" and near: "\<bar>a - of_nat n / 1000\<bar> \<le> 4 / 2 ^ 53 * (of_nat n / 1000)"
  shows "significant a = (n * 10 ^ (15 - length (show_nat n)), int (length (show_nat n)) - 4)"
proof -
  define x :: rat and D and E where "x = of_nat n / 1000" and "D = length (show_nat n)" and "E = int D - 4"
  have d: "n < 10 ^ D" "10 ^ (D - 1) \<le> n" "1 \<le> D" using show_nat_length [of n] n(1) by (simp_all add: D_def Suc_le_eq)
  have D: "D \<le> 15" using digits_le [OF n(1), of 15] n(2) by (simp add: D_def)
  have x: "0 < x" using n(1) by (simp add: x_def)
  have err: "\<bar>a - x\<bar> \<le> 4 / 2 ^ 53 * x" using near by (simp add: x_def)
  then have near: "x * (1 - 4 / 2 ^ 53) \<le> a" "a \<le> x * (1 + 4 / 2 ^ 53)" 
    by (auto simp: abs_if algebra_simps split: if_splits)
  have "0 < x * (1 - 4 / 2 ^ 53)" using x by simp
  with near(1) have a: "0 < a" by linarith
  define k where "k = 15 - D"
  have k: "D + k = 15" "D - 1 + (k + 1) = 15" using D d(3) by (simp_all add: k_def)
  have "14 - E = int (k + 3)" "15 - E = int (k + 4)" using D by (simp_all add: E_def k_def)
  then have scale: "10 powi (14 - E) = (10 :: rat) ^ (k + 3)" "10 powi (15 - E) = (10 :: rat) ^ (k + 4)"
    "10 powi (E + 1) = (10 :: rat) ^ D / 1000" "10 powi E = (10 :: rat) ^ (D - 1) / 1000"
    using d(3) by (simp_all only: power_int_of_nat)
      (simp_all add: E_def power_int_diff power_int_def nat_diff_distrib power_diff field_simps)
  have lo: "10 powi E \<le> x" and hi: "x \<le> 10 powi (E + 1) - 1 / 1000"
    using of_nat_mono [OF d(2), where 'a = rat] of_nat_mono [of "n + 1" "10 ^ D", where 'a = rat] d(1)
    by (simp_all add: scale x_def field_simps)
  have "4 / 2 ^ 53 * x \<le> 1 / 4000" using of_nat_mono [OF n(2), where 'a = rat] by (simp add: x_def)
  with err hi have up: "a < 10 powi (E + 1)" by linarith
  define e where "e = ilog10 a"
  have e: "10 powi e \<le> a" "a < 10 powi (e + 1)" using ilog10_bounds [OF a] by (simp_all add: e_def)
  have "e \<le> E" using up e(1) powi_increasing [of "E + 1" e] by linarith
  moreover have "E - 1 \<le> e"
  proof (rule ccontr)
    assume "\<not> E - 1 \<le> e"
    then have "a < 10 powi (E - 1)" using e(2) powi_increasing [of "e + 1" "E - 1"] by linarith
    also have "\<dots> = 10 powi E / 10" by (simp add: power_int_diff)
    finally show False using lo near(1) x by simp
  qed
  ultimately consider "e = E" | "e = E - 1" by linarith
  then show ?thesis
  proof cases
    case 1
    let ?N = "n * 10 ^ k"
    have "?N < 10 ^ D * 10 ^ k" using d(1) by simp
    then have N: "?N < 10 ^ 15" by (simp only: k flip: power_add)
    have s: "x * 10 powi (14 - E) = of_nat ?N" by (simp add: scale x_def power_add)
    have "4 / 2 ^ 53 * of_nat ?N < (1 / 2 :: rat)" using of_nat_less_iff [of ?N "10 ^ 15", where 'a = rat] N by simp
    then have "round_even (a * 10 powi (14 - E)) = int ?N" by (intro scaled_round [OF _ err s]) simp_all
    then have r: "nat (round_even (a * 10 powi (14 - E))) = ?N" by (simp only: nat_int)
    show ?thesis unfolding significant_def Let_def e_def [symmetric] 1 r using N by (simp add: D_def E_def k_def)
  next
    case 2
    let ?M = "n * 10 ^ (k + 1)"
    have s: "x * 10 powi (15 - E) = of_nat ?M" by (simp add: scale x_def power_add)
    have "10 ^ (D - 1) * 10 ^ (k + 1) \<le> ?M" using d(2) by simp
    then have "10 ^ 15 \<le> ?M" by (simp only: k flip: power_add)
    moreover have "?M \<le> 10 ^ 15"
    proof -
      have "of_nat ?M * (1 - 4 / 2 ^ 53) = x * (1 - 4 / 2 ^ 53) * 10 powi (15 - E)"
        unfolding s [symmetric] by (simp only: ac_simps)
      also have "\<dots> \<le> a * 10 powi (15 - E)" using near(1) by (rule mult_right_mono) simp
      also have "\<dots> < 10 powi E * 10 powi (15 - E)" using e(2) 2 by simp
      also have "\<dots> = 10 ^ 15" by (simp flip: power_int_add)
      finally have "(of_nat ?M :: rat) < of_nat (10 ^ 15 + 1)" by simp
      then show ?thesis by (simp only: of_nat_less_iff)
    qed
    ultimately have M: "?M = 10 ^ 15" by (rule antisym [rotated])
    have "round_even (a * 10 powi (15 - E)) = int ?M" by (rule scaled_round [OF _ err s]) (simp_all only: M, simp_all)
    moreover have "14 - (E - 1) = 15 - E" by simp
    ultimately have r: "nat (round_even (a * 10 powi (14 - (E - 1)))) = 10 ^ 15" by (simp only: nat_int M)
    have "n * 10 ^ k = 10 ^ 14" using M by simp
    then show ?thesis unfolding significant_def Let_def e_def [symmetric] 2 r by (simp add: D_def E_def k_def)
  qed
qed

subsection \<open>The text of thousandths\<close>

definition decimal :: "nat \<Rightarrow> string" where
  "decimal n =
     (let ds = show_nat n; k = length ds
      in if 3 < k then point (take (k - 3) ds) (strip_zeros (drop (k - 3) ds))
         else point ''0'' (strip_zeros (replicate (3 - k) (CHR ''0'') @ ds)))"

lemma strip_zeros_append [simp]: "strip_zeros (s @ replicate k (CHR ''0'')) = strip_zeros s"
  by (simp add: strip_zeros_def dropWhile_append3 dropWhile_append)

lemma show_double_decimal:
  assumes "0 < n" and "n \<le> 2 ^ 49"
  shows "show_double (convertToFloating (int n)) = decimal n"
proof -
  let ?ds = "show_nat n" and ?D = "length (show_nat n)" and ?a = "convertToFloating (int n)"
  note near = relative_error [OF assms]
  have "0 < of_nat n / (1000 :: rat)" using assms by simp
  then have "0 < ?a" using near by (auto simp: abs_if split: if_splits)
  then have s: "show_double ?a = show_positive (n * 10 ^ (15 - ?D), int ?D - 4)"
    using significant_near [OF assms near] by (simp add: show_double_def)
  have ds: "show_nat (n * 10 ^ (15 - ?D)) = ?ds @ replicate (15 - ?D) (CHR ''0'')" using assms by (simp add: show_nat_shift)
  have "?D \<le> 15" using digits_le [OF assms(1), of 15] assms(2) by simp
  show ?thesis
  proof (cases "3 < ?D")
    case True
    have "nat (int ?D - 4) + 1 = ?D - 3" using True by simp
    with True \<open>?D \<le> 15\<close> show ?thesis
      by (simp add: s show_positive_def ds decimal_def Let_def)
  next
    case False
    have "1 \<le> ?D" by (simp add: Suc_le_eq)
    with False have "nat (- (int ?D - 4)) - 1 = 3 - ?D" "- 4 \<le> int ?D - 4" "int ?D - 4 < 0" by simp_all
    then show ?thesis
      using False strip_zeros_append [of "replicate (3 - ?D) (CHR ''0'') @ ?ds"]
      by (simp add: s show_positive_def ds decimal_def Let_def)
  qed
qed

subsection \<open>Reading it back\<close>

text \<open>A decimal numeral: digits, and optionally a point and more digits; and the number it denotes.\<close>

definition whole :: "string \<Rightarrow> string" where
  "whole s = takeWhile (\<lambda>c. c \<noteq> CHR ''.'') s"

definition fraction :: "string \<Rightarrow> string" where
  "fraction s = drop (length (whole s) + 1) s"

definition is_decimal :: "string \<Rightarrow> bool" where
  "is_decimal s \<longleftrightarrow>
     whole s \<noteq> [] \<and> list_all (\<lambda>c. digit c \<noteq> None) (whole s @ fraction s) \<and>
     (CHR ''.'' \<in> set s \<longrightarrow> fraction s \<noteq> [])"

definition decimal_value :: "string \<Rightarrow> rat" where
  "decimal_value s = of_nat (read_nat 0 (whole s)) + of_nat (read_nat 0 (fraction s)) / 10 ^ length (fraction s)"

text \<open>What the parser relies on for doubles: a decimal numeral within their range is read as the nearest double.\<close>

definition casts_decimals :: "numifier \<Rightarrow> bool" where
  "casts_decimals nm \<longleftrightarrow> (\<forall>s. is_decimal s \<and> decimal_value s \<le> 2 ^ 1023 \<longrightarrow> cast_double nm s = Some (fround (decimal_value s)))"

lemma read_nat_append:
  "list_all (\<lambda>c. digit c \<noteq> None) s \<Longrightarrow> read_nat acc s = acc * 10 ^ length s + read_nat 0 s"
proof (induction s arbitrary: acc)
  case (Cons c s)
  then obtain d where "digit c = Some d" by auto
  with Cons.IH [of "10 * acc + d"] Cons.IH [of d] Cons.prems show ?case by (simp add: algebra_simps)
qed simp

lemma digit_zero: "digit (CHR ''0'') = Some 0"
  by code_simp

lemma read_nat_zeros:
  assumes "list_all (\<lambda>c. digit c \<noteq> None) s"
  shows "read_nat 0 (s @ replicate k (CHR ''0'')) = read_nat 0 s * 10 ^ k"
proof -
  have "read_nat acc (replicate k (CHR ''0'')) = acc * 10 ^ k" for acc
    by (induction k arbitrary: acc) (simp_all add: digit_zero)
  then show ?thesis using read_nat_append_digit [of s 0] assms by (simp add: list_all_iff)
qed

lemma strip_zeros_split: "\<exists>k. s = strip_zeros s @ replicate k (CHR ''0'')"
proof (induction s rule: rev_induct)
  case (snoc c s)
  then obtain k where k: "s = strip_zeros s @ replicate k (CHR ''0'')" ..
  show ?case
  proof (cases "c = CHR ''0''")
    case True
    then have "strip_zeros (s @ [c]) = strip_zeros s" by (simp add: strip_zeros_def)
    moreover have "s @ [c] = strip_zeros s @ replicate (Suc k) (CHR ''0'')"
      using True by (subst k) (simp add: replicate_append_same)
    ultimately show ?thesis by (intro exI [of _ "Suc k"]) simp
  next
    case False
    then have "strip_zeros (s @ [c]) = s @ [c]" by (simp add: strip_zeros_def)
    then show ?thesis by (intro exI [of _ 0]) simp
  qed
qed (simp add: strip_zeros_def)

lemma digits_show_nat [simp]: "list_all (\<lambda>c. digit c \<noteq> None) (show_nat n)"
  using show_nat_digits [of _ n] by (simp add: list_all_iff)

lemma point_digit: "list_all (\<lambda>c. digit c \<noteq> None) s \<Longrightarrow> CHR ''.'' \<notin> set s"
proof -
  have "digit (CHR ''.'') = None" by code_simp
  then show "list_all (\<lambda>c. digit c \<noteq> None) s \<Longrightarrow> CHR ''.'' \<notin> set s" by (auto simp: list_all_iff)
qed

lemma point_parts:
  assumes "CHR ''.'' \<notin> set w"
  shows "whole (point w f) = w" and "fraction (point w f) = f"
proof -
  have "takeWhile (\<lambda>c. c \<noteq> CHR ''.'') w = w" using assms by (auto simp: takeWhile_eq_all_conv)
  moreover have "takeWhile (\<lambda>c. c \<noteq> CHR ''.'') (w @ ''.'' @ f) = w" using assms by (subst takeWhile_append2) auto
  ultimately show "whole (point w f) = w" "fraction (point w f) = f"
    by (simp_all add: whole_def fraction_def point_def del: takeWhile_eq_all_conv)
qed

lemma decimal_point:
  assumes w: "list_all (\<lambda>c. digit c \<noteq> None) w" "w \<noteq> []" and f: "list_all (\<lambda>c. digit c \<noteq> None) f"
  shows "is_decimal (point w (strip_zeros f))"
    and "decimal_value (point w (strip_zeros f)) = of_nat (read_nat 0 w) + of_nat (read_nat 0 f) / 10 ^ length f"
proof -
  obtain k where k: "f = strip_zeros f @ replicate k (CHR ''0'')" using strip_zeros_split ..
  have z: "list_all (\<lambda>c. digit c \<noteq> None) (strip_zeros f)" using f by (subst (asm) k) simp
  note parts = point_parts [OF point_digit [OF w(1)], of "strip_zeros f"]
  have "CHR ''.'' \<in> set (point w (strip_zeros f)) \<Longrightarrow> strip_zeros f \<noteq> []"
    using point_digit [OF w(1)] by (auto simp: point_def)
  with w z show "is_decimal (point w (strip_zeros f))" by (simp add: is_decimal_def parts)
  have "read_nat 0 f = read_nat 0 (strip_zeros f) * 10 ^ k" using read_nat_zeros [OF z, of k] k by simp
  moreover have "length f = length (strip_zeros f) + k" by (subst k) simp
  ultimately show "decimal_value (point w (strip_zeros f)) = of_nat (read_nat 0 w) + of_nat (read_nat 0 f) / 10 ^ length f"
    by (simp add: decimal_value_def parts power_add)
qed

lemma decimal_correct:
  assumes "0 < n"
  shows "is_decimal (decimal n)" and "decimal_value (decimal n) = of_nat n / 1000"
proof -
  let ?ds = "show_nat n" and ?k = "length (show_nat n)"
  have "is_decimal (decimal n) \<and> decimal_value (decimal n) = of_nat n / 1000"
  proof (cases "3 < ?k")
    case True
    let ?w = "take (?k - 3) ?ds" and ?f = "drop (?k - 3) ?ds"
    have d: "list_all (\<lambda>c. digit c \<noteq> None) ?w" "list_all (\<lambda>c. digit c \<noteq> None) ?f" "?w \<noteq> []" "length ?f = 3"
      using True digits_show_nat [of n] by (auto simp: list_all_iff dest: in_set_takeD in_set_dropD)
    have "n = read_nat 0 (?w @ ?f)" by (simp add: read_show_nat)
    also have "\<dots> = read_nat (read_nat 0 ?w) ?f" using d(1) by (intro read_nat_append_digit) (simp add: list_all_iff)
    also have "\<dots> = read_nat 0 ?w * 1000 + read_nat 0 ?f" using read_nat_append [OF d(2), of "read_nat 0 ?w"] d(4) by simp
    finally have "of_nat n / (1000 :: rat) = of_nat (read_nat 0 ?w) + of_nat (read_nat 0 ?f) / 1000"
      by (simp add: field_simps flip: of_nat_mult of_nat_add)
    with decimal_point [OF d(1,3,2)] d(4) True show ?thesis by (simp add: decimal_def Let_def)
  next
    case False
    let ?f = "replicate (3 - ?k) (CHR ''0'') @ ?ds"
    have "list_all (\<lambda>c. digit c \<noteq> None) ?f" using digits_show_nat [of n] digit_zero by (auto simp: list_all_iff)
    moreover have "read_nat 0 (replicate (3 - ?k) (CHR ''0'')) = 0" using read_nat_zeros [of "[]" "3 - ?k"] by simp
    then have "read_nat 0 ?f = n"
      using read_nat_append_digit [of "replicate (3 - ?k) (CHR ''0'')" 0 ?ds] digit_zero by (simp add: read_show_nat)
    moreover have "read_nat 0 ''0'' = 0" by (simp add: digit_zero)
    ultimately show ?thesis
      using decimal_point [of "''0''" ?f] False digit_zero by (simp add: decimal_def Let_def)
  qed
  then show "is_decimal (decimal n)" "decimal_value (decimal n) = of_nat n / 1000" by simp_all
qed

lemma decimal_charset:
  assumes s: "is_decimal s" and c: "c \<in> set s"
  shows "digit c \<noteq> None \<or> c = CHR ''.''"
proof (cases "dropWhile (\<lambda>c. c \<noteq> CHR ''.'') s")
  case Nil
  then have "whole s = s" by (simp add: whole_def dropWhile_eq_Nil_conv)
  with s c show ?thesis by (auto simp: is_decimal_def list_all_iff)
next
  case (Cons d ds)
  then have split: "s = whole s @ d # ds" unfolding whole_def by (metis takeWhile_dropWhile_id)
  have d: "d = CHR ''.''" using Cons by (simp add: dropWhile_eq_Cons_conv)
  have "fraction s = ds" unfolding fraction_def by (subst (2) split) simp
  moreover have "c \<in> set (whole s) \<or> c = d \<or> c \<in> set ds" using c by (subst (asm) split) auto
  ultimately show ?thesis using s d by (auto simp: is_decimal_def list_all_iff)
qed

lemma values_parse_decimal:
  assumes "casts_decimals nm" and s: "is_decimal s" and "decimal_value s \<le> 2 ^ 1023"
  shows "values_parse nm s = Inr (Inr (VScalar (fround (decimal_value s))))"
proof -
  have absent: "c \<notin> set s" if "digit c = None" "c \<noteq> CHR ''.''" for c
    using decimal_charset [OF s] that by blast
  have no: "digit c = None" if "c \<in> set '' {}[]()''" for c using that by (auto simp: digit_def)
  have "filter (\<lambda>c. c \<noteq> CHR '' '') s = s" using absent [of "CHR '' ''"] by (auto simp: no filter_id_conv)
  then have temp: "replace s '' '' [] = s" by (simp add: replace_char_filter)
  have "s \<noteq> []" using s by (auto simp: is_decimal_def whole_def)
  moreover have "checkBracketsMatching s (CHR ''{'') (CHR ''}'')" "checkBracketsMatching s (CHR ''['') (CHR '']'')"
    "checkBracketsMatching s (CHR ''('') (CHR '')'')"
    by (intro brackets_absent absent; simp add: no)+
  moreover have "find_sub ''['' s = None" "find_sub ''{'' s = None" by (intro find_sub_absent absent; simp add: no)+
  moreover have "numify_double nm s = Some (fround (decimal_value s))"
    using assms by (simp add: numify_double_def numify_def casts_decimals_def)
  ultimately show ?thesis by (simp add: values_parse_def temp Let_def)
qed

lemma print_scalar_decimal:
  assumes "0 \<le> x" and "convertToFixed x \<le> 2 ^ 49"
  shows "print_scalar x = (if convertToFixed x = 0 then ''0'' else decimal (nat (convertToFixed x)))"
proof (cases "convertToFixed x = 0")
  case True
  moreover have "convertToFloating 0 = 0" by code_simp
  ultimately show ?thesis by (simp add: print_scalar_def scalar_printed_def show_double_def)
next
  case False
  then show ?thesis
    using show_double_decimal [of "nat (convertToFixed x)"] convertToFixed_nonneg [OF assms(1)] assms(2)
    by (simp add: print_scalar_def scalar_printed_def nat_le_iff)
qed

lemma print_scalar_is_decimal: "0 \<le> x \<Longrightarrow> convertToFixed x \<le> 2 ^ 49 \<Longrightarrow> is_decimal (print_scalar x)"
proof -
  have "is_decimal ''0''" by code_simp
  moreover assume "0 \<le> x" "convertToFixed x \<le> 2 ^ 49"
  ultimately show ?thesis
    using print_scalar_decimal [of x] decimal_correct(1) [of "nat (convertToFixed x)"] convertToFixed_nonneg [of x] by auto
qed

text \<open>The text of a scalar of at most \<open>2 ^ 49\<close> thousandths reads back as an equal scalar.\<close>

lemma scalar_text:
  assumes nm: "casts_decimals nm" and x: "0 \<le> x" "convertToFixed x \<le> 2 ^ 49"
  shows "\<exists>y. values_parse nm (print_scalar x) = Inr (Inr (VScalar y)) \<and> scalar_eq y x \<and> 0 \<le> y"
proof -
  define n where "n = nat (convertToFixed x)"
  have n: "convertToFixed x = int n" "n \<le> 2 ^ 49" using convertToFixed_nonneg [OF x(1)] x(2) by (auto simp: n_def nat_le_iff)
  show ?thesis
  proof (cases "n = 0")
    case True
    have p: "print_scalar x = ''0''" using True n(1) print_scalar_decimal [OF x] by simp
    have "is_decimal ''0''" "decimal_value ''0'' = 0" by code_simp+
    from values_parse_decimal [OF nm this(1)] this(2) have "values_parse nm (print_scalar x) = Inr (Inr (VScalar 0))"
      by (simp add: p fround_def)
    moreover have "convertToFixed 0 = 0" by code_simp
    ultimately show ?thesis using True n(1) by (simp add: scalar_eq_def)
  next
    case False
    then have p: "print_scalar x = decimal n" using n print_scalar_decimal [OF x] by simp
    have "of_nat n \<le> (2 ^ 49 :: rat)" using n(2) by (metis of_nat_le_iff of_nat_numeral of_nat_power)
    also have "\<dots> \<le> 2 ^ 1023" by (rule power_increasing) simp_all
    finally have b: "(of_nat n / 1000 :: rat) \<le> 2 ^ 1023" by simp
    have "\<bar>fround (of_nat n / 1000) - of_int (int n) / 1000\<bar> \<le> \<bar>of_int (int n) / 1000\<bar> / 2 ^ 53"
      using fround_error [of "of_nat n / 1000"] by simp
    also have "\<dots> \<le> (\<bar>of_int (int n)\<bar> / 1000 + 3) / 2 ^ 53" by (simp add: divide_right_mono)
    finally have "convertToFixed (fround (of_nat n / 1000)) = int n" using n(2) by (intro fixed_close) simp_all
    moreover have "0 < n" using False by simp
    note values_parse_decimal [OF nm decimal_correct(1) [OF \<open>0 < n\<close>], unfolded decimal_correct(2) [OF \<open>0 < n\<close>], OF b]
    ultimately show ?thesis using n(1) by (simp add: p scalar_eq_def fround_nonneg)
  qed
qed

subsection \<open>Properties\<close>

text \<open>
  C35. Printed values are read back: the text of any list of ranges parses, without a failed check, to its
  coalesced form, which is the list itself when it is sorted and separated; the text of a
  set parses to the same items in the same order, as long as each item is one token; and the text
  of a scalar of at most \<open>2 ^ 49\<close> thousandths parses to a scalar that compares equal.
\<close>

theorem values_roundtrip:
  assumes "casts_numerals nm" and "casts_decimals nm" and "list_all item_ok xs" and "0 \<le> x" and "convertToFixed x \<le> 2 ^ 49"
  shows "values_parse nm (print_ranges rs) = Inr (Inr (VRanges (merged rs))) \<and>
    (canonical rs \<longrightarrow> values_parse nm (print_ranges rs) = Inr (Inr (VRanges rs))) \<and>
    values_parse nm (print_set xs) = Inr (Inr (VSet xs)) \<and>
    (\<exists>y. values_parse nm (print_scalar x) = Inr (Inr (VScalar y)) \<and> scalar_eq y x)"
  using values_parse_ranges [OF assms(1), of rs] values_parse_set [OF assms(3)] scalar_text [OF assms(2,4,5)]
  by (auto simp: merged_canonical)

definition decimal_numifier :: numifier where
  "decimal_numifier =
     \<lparr>cast_uint64 = (\<lambda>s. Some (of_nat (read_nat 0 s))),
      cast_double = (\<lambda>s. if is_decimal s then Some (fround (decimal_value s)) else None), hex_double = (\<lambda>_. None)\<rparr>"

lemma decimal_numifier_ok: "casts_numerals decimal_numifier" "casts_decimals decimal_numifier"
  by (simp_all add: casts_numerals_def casts_decimals_def decimal_numifier_def read_show_nat)

lemma print_two_and_half: "print_scalar (5 / 2) = ''2.5''"
proof -
  have "convertToFixed (5 / 2) = 2500" by code_simp
  moreover have "char_of (50 :: nat) = CHR ''2''" "char_of (53 :: nat) = CHR ''5''" by code_simp+
  then have "show_nat 2500 = ''2500''" by (simp add: show_nat.simps zero_char)
  then have "decimal 2500 = ''2.5''" by (simp add: decimal_def strip_zeros_def point_def)
  ultimately show ?thesis using show_double_decimal [of 2500] by (simp add: print_scalar_def scalar_printed_def)
qed

theorem values_roundtrip_witness:
  "values_parse decimal_numifier ''[1-5, 8-9]'' = Inr (Inr (VRanges [mk_range 1 5, mk_range 8 9])) \<and>
   values_parse decimal_numifier ''{a, b}'' = Inr (Inr (VSet [''a'', ''b''])) \<and>
   (\<exists>y. values_parse decimal_numifier ''2.5'' = Inr (Inr (VScalar y)) \<and> scalar_eq y (5 / 2))"
proof -
  have "list_all item_ok [''a'', ''b'']" by (simp add: item_ok_def)
  moreover have "canonical [mk_range 1 5, mk_range 8 9]" by code_simp
  moreover have "print_ranges [mk_range 1 5, mk_range 8 9] = ''[1-5, 8-9]''" "print_set [''a'', ''b''] = ''{a, b}''"
    by code_simp+
  moreover note print_two_and_half
  moreover have "0 \<le> (5 / 2 :: rat)" "convertToFixed (5 / 2) \<le> 2 ^ 49" by code_simp+
  ultimately show ?thesis
    using values_roundtrip [OF decimal_numifier_ok, of "[''a'', ''b'']" "5 / 2" "[mk_range 1 5, mk_range 8 9]"]
    by (simp add: merged_canonical)
qed

end
