(* ===== verification/Attributes.thy ===== *)
theory Attributes
  imports Scalar_Text
begin

text \<open>
  The attributes of an agent (\<open>liburb/source/attributes.cpp\<close>, \<open>mesos/attributes.hpp\<close>): parsing of the command line,
  validity, lookup, comparison and the printer. \<open>LOG(FATAL)\<close> ends the process like a failed check. A value
  of the enumeration \<open>Value::Type\<close> is always one of its constants, so \<open>Type_IsValid\<close> holds.
\<close>

record Attribute =
  a_name :: "string option"
  a_type :: "Value_Type option"
  a_scalar :: "rat option"
  a_ranges :: "Ranges option"
  a_set :: "item_set option"
  a_text :: "string option"

type_synonym Attributes = "Attribute list"

text \<open>The accessors of the message class give the default of the type for a field that is not set.\<close>

definition attr_name :: "Attribute \<Rightarrow> string" where
  "attr_name a = (case a_name a of None \<Rightarrow> [] | Some n \<Rightarrow> n)"

definition attr_type :: "Attribute \<Rightarrow> Value_Type" where
  "attr_type a = (case a_type a of None \<Rightarrow> SCALAR | Some t \<Rightarrow> t)"

definition attr_scalar :: "Attribute \<Rightarrow> rat" where
  "attr_scalar a = (case a_scalar a of None \<Rightarrow> 0 | Some x \<Rightarrow> x)"

definition attr_ranges :: "Attribute \<Rightarrow> Ranges" where
  "attr_ranges a = (case a_ranges a of None \<Rightarrow> [] | Some rs \<Rightarrow> rs)"

definition attr_set :: "Attribute \<Rightarrow> item_set" where
  "attr_set a = (case a_set a of None \<Rightarrow> [] | Some xs \<Rightarrow> xs)"

definition attr_text :: "Attribute \<Rightarrow> string" where
  "attr_text a = (case a_text a of None \<Rightarrow> [] | Some s \<Rightarrow> s)"

subsection \<open>Operations\<close>

definition print_attribute :: "Attribute \<Rightarrow> string" where
  "print_attribute a = attr_name a @ ''='' @
     (case attr_type a of
        SCALAR \<Rightarrow> print_scalar (attr_scalar a)
      | RANGES \<Rightarrow> print_ranges (attr_ranges a)
      | SET \<Rightarrow> print_set (attr_set a)
      | TEXT \<Rightarrow> attr_text a)"

fun get_attribute :: "Attributes \<Rightarrow> Attribute \<Rightarrow> Attribute option" where
  "get_attribute [] that = None"
| "get_attribute (a # attributes) that =
     (if attr_name a = attr_name that \<and> attr_type a = attr_type that then Some a else get_attribute attributes that)"

fun attributes_eq_loop :: "Attributes \<Rightarrow> Attributes \<Rightarrow> bool outcome" where
  "attributes_eq_loop that [] = Inr True"
| "attributes_eq_loop that (a # attributes) =
     (case get_attribute that a of
        None \<Rightarrow> Inr False
      | Some b \<Rightarrow>
          (case attr_type a of
             SCALAR \<Rightarrow> if \<not> scalar_eq (attr_scalar a) (attr_scalar b) then Inr False else attributes_eq_loop that attributes
           | RANGES \<Rightarrow> andThen (ranges_eq (attr_ranges a) (attr_ranges b)) (\<lambda>e.
               if \<not> e then Inr False else attributes_eq_loop that attributes)
           | TEXT \<Rightarrow> if attr_text a \<noteq> attr_text b then Inr False else attributes_eq_loop that attributes
           | SET \<Rightarrow> Inl CheckFailed))"

definition attributes_eq :: "Attributes \<Rightarrow> Attributes \<Rightarrow> bool outcome" where
  "attributes_eq this that = (if length this \<noteq> length that then Inr False else attributes_eq_loop that this)"

definition empty_attribute :: Attribute where
  "empty_attribute =
     \<lparr>a_name = None, a_type = None, a_scalar = None, a_ranges = None, a_set = None, a_text = None\<rparr>"

definition parse_attribute :: "numifier \<Rightarrow> string \<Rightarrow> string \<Rightarrow> Attribute outcome" where
  "parse_attribute nm name text =
     andThen (values_parse nm text) (\<lambda>result.
       case result of
         Inl e \<Rightarrow> Inl CheckFailed
       | Inr v \<Rightarrow>
           let a = empty_attribute\<lparr>a_name := Some name\<rparr>
           in (case v of
                 VRanges rs \<Rightarrow> Inr (a\<lparr>a_type := Some RANGES, a_ranges := Some rs\<rparr>)
               | VText s \<Rightarrow> Inr (a\<lparr>a_type := Some TEXT, a_text := Some s\<rparr>)
               | VScalar x \<Rightarrow> Inr (a\<lparr>a_type := Some SCALAR, a_scalar := Some x\<rparr>)
               | VSet _ \<Rightarrow> Inl CheckFailed))"

definition add_attribute :: "Attribute \<Rightarrow> Attributes \<Rightarrow> Attributes" where
  "add_attribute a attributes = attributes @ [a]"

definition attribute_step :: "numifier \<Rightarrow> string \<Rightarrow> Attributes \<Rightarrow> Attributes outcome" where
  "attribute_step nm token attributes =
     (let pairs = split token '':'' (Some 2)
      in if length pairs \<noteq> 2 \<or> pairs ! 0 = [] \<or> pairs ! 1 = [] then Inl CheckFailed
         else andThen (parse_attribute nm (pairs ! 0) (pairs ! 1)) (\<lambda>a. Inr (add_attribute a attributes)))"

definition parse_attributes :: "numifier \<Rightarrow> string \<Rightarrow> Attributes outcome" where
  "parse_attributes nm s = foldOutcome (attribute_step nm) (tokenize s ('';'' @ [CHR 0x0A]) None) []"

definition isValid_attribute :: "Attribute \<Rightarrow> bool" where
  "isValid_attribute a =
     (if a_name a = None \<or> attr_name a = [] \<or> a_type a = None then False
      else case attr_type a of
             SCALAR \<Rightarrow> a_scalar a \<noteq> None
           | RANGES \<Rightarrow> a_ranges a \<noteq> None
           | TEXT \<Rightarrow> a_text a \<noteq> None
           | SET \<Rightarrow> False)"

fun get_attribute_scalar :: "Attributes \<Rightarrow> string \<Rightarrow> rat \<Rightarrow> rat" where
  "get_attribute_scalar [] name scalar = scalar"
| "get_attribute_scalar (a # attributes) name scalar =
     (if attr_name a = name \<and> attr_type a = SCALAR then attr_scalar a else get_attribute_scalar attributes name scalar)"

fun get_attribute_ranges :: "Attributes \<Rightarrow> string \<Rightarrow> Ranges \<Rightarrow> Ranges" where
  "get_attribute_ranges [] name ranges = ranges"
| "get_attribute_ranges (a # attributes) name ranges =
     (if attr_name a = name \<and> attr_type a = RANGES then attr_ranges a else get_attribute_ranges attributes name ranges)"

fun get_attribute_text :: "Attributes \<Rightarrow> string \<Rightarrow> string \<Rightarrow> string" where
  "get_attribute_text [] name text = text"
| "get_attribute_text (a # attributes) name text =
     (if attr_name a = name \<and> attr_type a = TEXT then attr_text a else get_attribute_text attributes name text)"

subsection \<open>Attributes as maps\<close>

text \<open>A lookup by name and type, and what it means that two attributes have the same value.\<close>

definition attr_key :: "Attribute \<Rightarrow> string \<times> Value_Type" where
  "attr_key a = (attr_name a, attr_type a)"

definition attr_map :: "Attributes \<Rightarrow> string \<times> Value_Type \<rightharpoonup> Attribute" where
  "attr_map as = map_of (map (\<lambda>a. (attr_key a, a)) as)"

definition attr_same :: "Attribute \<Rightarrow> Attribute \<Rightarrow> bool" where
  "attr_same a b =
     (case attr_type a of
        SCALAR \<Rightarrow> convertToFixed (attr_scalar a) = convertToFixed (attr_scalar b)
      | RANGES \<Rightarrow> ranges_set (attr_ranges a) = ranges_set (attr_ranges b)
      | TEXT \<Rightarrow> attr_text a = attr_text b
      | SET \<Rightarrow> False)"

definition attr_ok :: "Attribute \<Rightarrow> bool" where
  "attr_ok a \<longleftrightarrow> attr_type a \<noteq> SET \<and> list_all valid_range (attr_ranges a)"

lemma get_attribute_map: "get_attribute as that = attr_map as (attr_key that)"
  by (induction as) (simp_all add: attr_map_def attr_key_def)

lemma attr_map_key: "attr_map as k = Some b \<Longrightarrow> b \<in> set as \<and> attr_key b = k"
  by (auto simp: attr_map_def dest!: map_of_SomeD)

lemma attr_map_mem: "distinct (map attr_key as) \<Longrightarrow> a \<in> set as \<Longrightarrow> attr_map as (attr_key a) = Some a"
  unfolding attr_map_def by (rule map_of_is_SomeI) (auto simp: o_def)

lemma attr_map_dom: "dom (attr_map as) = attr_key ` set as"
  by (simp add: attr_map_def dom_map_of_conv_image_fst image_image)

lemma attributes_eq_loop_spec:
  assumes "list_all attr_ok left" and "list_all attr_ok right"
  shows "attributes_eq_loop right left =
    Inr (\<forall>a \<in> set left. \<exists>b. attr_map right (attr_key a) = Some b \<and> attr_same a b)"
  using assms(1)
proof (induction left)
  case (Cons a left)
  show ?case
  proof (cases "attr_map right (attr_key a)")
    case (Some b)
    then have "b \<in> set right" by (simp add: attr_map_key)
    with assms(2) Cons.prems have v: "attr_type a \<noteq> SET" "ranges_eq (attr_ranges a) (attr_ranges b) = Inr (ranges_set (attr_ranges a) = ranges_set (attr_ranges b))"
      by (simp_all add: attr_ok_def list_all_iff ranges_eq_sets)
    with Some Cons show ?thesis
      by (cases "attr_type a") (simp_all add: get_attribute_map attr_same_def scalar_eq_def)
  qed (simp add: get_attribute_map)
qed simp

lemma attr_map_cover:
  assumes "distinct (map attr_key left)" and "distinct (map attr_key right)" and "length left = length right"
    and "\<forall>a \<in> set left. attr_map right (attr_key a) \<noteq> None"
  shows "attr_key ` set left = attr_key ` set right"
proof (rule card_subset_eq)
  show "finite (attr_key ` set right)" by simp
  show "attr_key ` set left \<subseteq> attr_key ` set right" using assms(4) attr_map_dom [of right] by blast
  show "card (attr_key ` set left) = card (attr_key ` set right)"
    using assms(1-3) distinct_card [of "map attr_key left"] distinct_card [of "map attr_key right"] by simp
qed

lemma rel_map_iff:
  assumes d: "distinct (map attr_key left)" "distinct (map attr_key right)"
  shows "(\<forall>k. rel_option attr_same (attr_map left k) (attr_map right k)) \<longleftrightarrow>
    length left = length right \<and> (\<forall>a \<in> set left. \<exists>b. attr_map right (attr_key a) = Some b \<and> attr_same a b)"
    (is "?m \<longleftrightarrow> ?l \<and> ?s")
proof
  assume m: ?m
  have "attr_map left k = None \<longleftrightarrow> attr_map right k = None" for k using spec [OF m, of k] by (auto elim: option.rel_cases)
  then have "dom (attr_map left) = dom (attr_map right)" unfolding dom_def by simp
  then have "attr_key ` set left = attr_key ` set right" by (simp add: attr_map_dom)
  then have ?l using distinct_card [OF d(1)] distinct_card [OF d(2)] by simp
  moreover have ?s
  proof
    fix a
    assume "a \<in> set left"
    from m attr_map_mem [OF d(1) this] show "\<exists>b. attr_map right (attr_key a) = Some b \<and> attr_same a b"
      by (metis option_rel_Some1)
  qed
  ultimately show "?l \<and> ?s" ..
next
  assume s: "?l \<and> ?s"
  show ?m
  proof
    fix k
    show "rel_option attr_same (attr_map left k) (attr_map right k)"
    proof (cases "attr_map left k")
      case None
      then have "k \<notin> attr_key ` set left" using attr_map_dom [of left] by blast
      moreover have "attr_key ` set left = attr_key ` set right" by (rule attr_map_cover [OF d]) (use s in auto)
      ultimately have "attr_map right k = None" using attr_map_dom [of right] by blast
      with None show ?thesis by simp
    next
      case (Some a)
      then show ?thesis using attr_map_key [OF Some] s by auto
    qed
  qed
qed

lemma get_attribute_values:
  "get_attribute_scalar as n x = (case attr_map as (n, SCALAR) of None \<Rightarrow> x | Some a \<Rightarrow> attr_scalar a)"
  "get_attribute_ranges as n rs = (case attr_map as (n, RANGES) of None \<Rightarrow> rs | Some a \<Rightarrow> attr_ranges a)"
  "get_attribute_text as n s = (case attr_map as (n, TEXT) of None \<Rightarrow> s | Some a \<Rightarrow> attr_text a)"
  by (induction as) (simp_all add: attr_map_def attr_key_def)

subsection \<open>What parsing reads\<close>

definition attr_value :: "Attribute \<Rightarrow> Value" where
  "attr_value a =
     (case attr_type a of
        SCALAR \<Rightarrow> VScalar (attr_scalar a) | RANGES \<Rightarrow> VRanges (attr_ranges a) | SET \<Rightarrow> VSet (attr_set a)
      | TEXT \<Rightarrow> VText (attr_text a))"

text \<open>A token is a name, the first colon, and the text of a value that is not a set.\<close>

definition reads :: "numifier \<Rightarrow> string \<Rightarrow> Attribute \<Rightarrow> bool" where
  "reads nm token a \<longleftrightarrow> isValid_attribute a \<and>
     (\<exists>text. token = attr_name a @ '':'' @ text \<and> CHR '':'' \<notin> set (attr_name a) \<and> text \<noteq> [] \<and>
       values_parse nm text = Inr (Inr (attr_value a)))"

lemma colon_unique: "c \<notin> set n \<Longrightarrow> c \<notin> set m \<Longrightarrow> n @ c # v = m @ c # w \<Longrightarrow> n = m \<and> v = w"
proof (induction n arbitrary: m)
  case Nil
  then show ?case by (cases m) auto
next
  case (Cons x n)
  then show ?case by (cases m) auto
qed

lemma split_absent:
  assumes "CHR '':'' \<notin> set t"
  shows "split t '':'' (Some 2) = [t]"
proof -
  have "find_idx (\<lambda>c. c \<in> set '':'') t = None" using assms by (auto simp: find_idx_None)
  then have "find_first_of '':'' t 0 = None" by (simp add: find_first_of_def)
  then show ?thesis by (simp add: split_def split_loop.simps [of t] substr_from_def)
qed

lemma split_colon:
  assumes "CHR '':'' \<notin> set n"
  shows "split (n @ '':'' @ v) '':'' (Some 2) = [n, v]"
proof -
  let ?t = "n @ '':'' @ v"
  have "find_idx (\<lambda>c. c \<in> set '':'') ?t = Some (length n)"
    using assms nth_mem by (fastforce simp: find_idx_Some_iff nth_append)
  then have f: "find_first_of '':'' ?t 0 = Some (length n)" by (simp add: find_first_of_def)
  have "split_loop ?t '':'' (Some 2) [n] (Suc (length n)) = [n, v]"
    by (subst split_loop.simps) (simp add: reached_def substr_from_def split: option.split)
  with f show ?thesis
    unfolding split_def by (subst split_loop.simps) (simp add: reached_def substr_def)
qed

lemma parse_attribute_spec:
  assumes "values_parse nm text = Inr (Inr v)" and "value_type v \<noteq> SET" and "n \<noteq> []"
  shows "\<exists>a. parse_attribute nm n text = Inr a \<and> isValid_attribute a \<and> attr_name a = n \<and> attr_value a = v"
  using assms
  by (cases v) (simp_all add: parse_attribute_def empty_attribute_def isValid_attribute_def attr_value_def
      attr_name_def attr_type_def attr_scalar_def attr_ranges_def attr_text_def)

lemma parse_attribute_fails:
  assumes "\<nexists>v. values_parse nm text = Inr (Inr v) \<and> value_type v \<noteq> SET"
  shows "parse_attribute nm n text = Inl CheckFailed"
proof -
  obtain x where x: "values_parse nm text = Inr x" using values_parse_returns ..
  show ?thesis
  proof (cases x)
    case (Inr v)
    with x assms have "value_type v = SET" by simp
    then show ?thesis using x Inr by (cases v) (simp_all add: parse_attribute_def)
  qed (simp add: parse_attribute_def x)
qed

lemma valid_value: "isValid_attribute a \<Longrightarrow> value_type (attr_value a) \<noteq> SET \<and> attr_name a \<noteq> []"
  by (auto simp: isValid_attribute_def attr_value_def split: if_splits Value_Type.splits)

lemma attribute_step_spec:
  "(\<exists>a. attribute_step nm token as = Inr (as @ [a]) \<and> reads nm token a) \<or>
   (attribute_step nm token as = Inl CheckFailed \<and> (\<nexists>a. reads nm token a))"
proof (cases "CHR '':'' \<in> set token")
  case True
  then obtain n v where t: "token = n @ '':'' @ v" "CHR '':'' \<notin> set n" by (auto dest: split_list_first)
  have r: "attr_name a = n \<and> w = v" if "token = attr_name a @ '':'' @ w" "CHR '':'' \<notin> set (attr_name a)" for a w
    using that t colon_unique [of "CHR '':''" "attr_name a" n w v] by simp
  have s: "attribute_step nm token as = (if n = [] \<or> v = [] then Inl CheckFailed
      else andThen (parse_attribute nm n v) (\<lambda>a. Inr (as @ [a])))"
    using split_colon [OF t(2), of v] by (simp add: attribute_step_def t(1) add_attribute_def)
  show ?thesis
  proof (cases "n \<noteq> [] \<and> v \<noteq> [] \<and> (\<exists>x. values_parse nm v = Inr (Inr x) \<and> value_type x \<noteq> SET)")
    case True
    then obtain x where "values_parse nm v = Inr (Inr x)" "value_type x \<noteq> SET" by blast
    with True obtain a where "parse_attribute nm n v = Inr a" "isValid_attribute a" "attr_name a = n" "attr_value a = x"
      using parse_attribute_spec by blast
    with True \<open>values_parse nm v = Inr (Inr x)\<close> t s show ?thesis by (auto simp: reads_def)
  next
    case False
    then have "attribute_step nm token as = Inl CheckFailed" using s parse_attribute_fails [of nm v n] by auto
    moreover have "\<not> reads nm token a" for a
    proof
      assume a: "reads nm token a"
      then obtain w where w: "token = attr_name a @ '':'' @ w" "CHR '':'' \<notin> set (attr_name a)" "w \<noteq> []"
        "values_parse nm w = Inr (Inr (attr_value a))" "isValid_attribute a" unfolding reads_def by blast
      with r [OF w(1,2)] valid_value [OF w(5)] False show False by blast
    qed
    ultimately show ?thesis by blast
  qed
next
  case False
  then have "\<not> reads nm token a" for a by (auto simp: reads_def)
  with False show ?thesis by (simp add: attribute_step_def split_absent)
qed

lemma attribute_fold_spec:
  "case foldOutcome (attribute_step nm) tokens acc of
     Inl f \<Rightarrow> f = CheckFailed \<and> (\<exists>t \<in> set tokens. \<nexists>a. reads nm t a)
   | Inr as \<Rightarrow> \<exists>bs. as = acc @ bs \<and> list_all2 (reads nm) tokens bs"
proof (induction tokens arbitrary: acc)
  case (Cons t tokens)
  consider a where "attribute_step nm t acc = Inr (acc @ [a])" "reads nm t a"
    | "attribute_step nm t acc = Inl CheckFailed" "\<nexists>a. reads nm t a"
    using attribute_step_spec [of nm t acc] by blast
  then show ?case
  proof cases
    case 1
    then show ?thesis using Cons.IH [of "acc @ [a]"] by (auto split: sum.splits)
  qed simp
qed simp

subsection \<open>Properties\<close>

text \<open>
  Attributes are a map: the lookups by name give the value of the first attribute of the name and the type, or
  the default. Where no name and type occurs twice, comparison fails no check and decides whether
  both sides have the same names and types with equal values.
\<close>

theorem attributes_as_maps:
  assumes "list_all attr_ok left" and "list_all attr_ok right"
    and "distinct (map attr_key left)" and "distinct (map attr_key right)"
  shows "attributes_eq left right = Inr (\<forall>k. rel_option attr_same (attr_map left k) (attr_map right k)) \<and>
    get_attribute left a = attr_map left (attr_key a) \<and>
    get_attribute_scalar left n x = (case attr_map left (n, SCALAR) of None \<Rightarrow> x | Some a \<Rightarrow> attr_scalar a) \<and>
    get_attribute_ranges left n rs = (case attr_map left (n, RANGES) of None \<Rightarrow> rs | Some a \<Rightarrow> attr_ranges a) \<and>
    get_attribute_text left n s = (case attr_map left (n, TEXT) of None \<Rightarrow> s | Some a \<Rightarrow> attr_text a)"
proof -
  have "attributes_eq left right = Inr (length left = length right \<and>
      (\<forall>a \<in> set left. \<exists>b. attr_map right (attr_key a) = Some b \<and> attr_same a b))"
    by (simp add: attributes_eq_def attributes_eq_loop_spec [OF assms(1,2)])
  then show ?thesis unfolding rel_map_iff [OF assms(3,4)] get_attribute_map get_attribute_values by blast
qed

definition text_attribute :: "string \<Rightarrow> string \<Rightarrow> Attribute" where
  "text_attribute n s = empty_attribute\<lparr>a_name := Some n, a_type := Some TEXT, a_text := Some s\<rparr>"

definition ranges_attribute :: "string \<Rightarrow> Ranges \<Rightarrow> Attribute" where
  "ranges_attribute n rs = empty_attribute\<lparr>a_name := Some n, a_type := Some RANGES, a_ranges := Some rs\<rparr>"

theorem attributes_as_maps_witness:
  "attributes_eq [text_attribute ''rack'' ''a'', ranges_attribute ''ports'' [mk_range 1 5]]
     [ranges_attribute ''ports'' [mk_range 1 3, mk_range 4 5], text_attribute ''rack'' ''a''] = Inr True \<and>
   (\<forall>k. rel_option attr_same
     (attr_map [text_attribute ''rack'' ''a'', ranges_attribute ''ports'' [mk_range 1 5]] k)
     (attr_map [ranges_attribute ''ports'' [mk_range 1 3, mk_range 4 5], text_attribute ''rack'' ''a''] k))"
proof -
  let ?l = "[text_attribute ''rack'' ''a'', ranges_attribute ''ports'' [mk_range 1 5]]"
  let ?r = "[ranges_attribute ''ports'' [mk_range 1 3, mk_range 4 5], text_attribute ''rack'' ''a'']"
  have "list_all attr_ok ?l" "list_all attr_ok ?r" "distinct (map attr_key ?l)" "distinct (map attr_key ?r)"
    "attributes_eq ?l ?r = Inr True" by code_simp+
  with attributes_as_maps [of ?l ?r] show ?thesis by simp
qed

text \<open>
  Parsing of attributes either reads every token between semicolons and line ends as a valid attribute, whose
  name is the text before the first colon and whose value is what the rest parses to, or it takes
  the process down because some token does not read so.
\<close>

theorem parse_attributes_spec:
  "case parse_attributes nm s of
     Inl f \<Rightarrow> f = CheckFailed \<and> (\<exists>t \<in> set (Strings.fields (\<lambda>c. c \<in> {CHR '';'', CHR 0x0A}) s). \<nexists>a. reads nm t a)
   | Inr as \<Rightarrow> list_all2 (reads nm) (Strings.fields (\<lambda>c. c \<in> {CHR '';'', CHR 0x0A}) s) as"
  using attribute_fold_spec [where nm = nm and tokens = "tokenize s ('';'' @ [CHR 0x0A]) None" and acc = "[]"]
  by (simp add: parse_attributes_def tokenize_fields split: sum.splits)

text \<open>
  Comparison looks at the first attribute of a name and type only, so it is neither reflexive nor symmetric
  for attributes that repeat a name.
\<close>

theorem attributes_eq_repeated:
  "attributes_eq [text_attribute ''a'' ''x'', text_attribute ''a'' ''y''] [text_attribute ''a'' ''x'', text_attribute ''a'' ''y''] = Inr False \<and>
   attributes_eq [text_attribute ''a'' ''x'', text_attribute ''a'' ''x''] [text_attribute ''a'' ''x'', text_attribute ''b'' ''y''] = Inr True \<and>
   attributes_eq [text_attribute ''a'' ''x'', text_attribute ''b'' ''y''] [text_attribute ''a'' ''x'', text_attribute ''a'' ''x''] = Inr False"
  by code_simp

end
