(* ===== verification/Type_Utils.thy ===== *)
theory Type_Utils
  imports Prelude "HOL-Library.Word"
begin

text \<open>
  Comparison of protocol buffers (\<open>liburb/source/type_utils.cpp\<close>). A message is a record of its
  fields; an optional field is an option, and reading an absent one gives its default, as the generated
  accessors do. The fields the comparisons do not read are left out.

  Repeated fields whose order does not matter are compared by size and by a search, for each
  element of the left side, of an equal element in the right side.
\<close>

subsection \<open>Optional and repeated fields\<close>

definition str :: "string option \<Rightarrow> string" where
  "str x = (case x of None \<Rightarrow> [] | Some s \<Rightarrow> s)"

text \<open>The test of an optional message: both have it or neither, and then they are equal.\<close>

fun opt_eq :: "('a \<Rightarrow> 'a \<Rightarrow> bool) \<Rightarrow> 'a option \<Rightarrow> 'a option \<Rightarrow> bool" where
  "opt_eq eq None None = True"
| "opt_eq eq (Some a) (Some b) = eq a b"
| "opt_eq eq _ _ = False"

definition unordered_eq :: "('a \<Rightarrow> 'a \<Rightarrow> bool) \<Rightarrow> 'a list \<Rightarrow> 'a list \<Rightarrow> bool" where
  "unordered_eq eq left right =
     (length left = length right \<and> list_all (\<lambda>l. list_ex (\<lambda>r. eq l r) right) left)"

definition ordered_eq :: "('a \<Rightarrow> 'a \<Rightarrow> bool) \<Rightarrow> 'a list \<Rightarrow> 'a list \<Rightarrow> bool" where
  "ordered_eq eq left right =
     (length left = length right \<and> list_all (\<lambda>i. eq (left ! i) (right ! i)) [0..<length left])"

subsection \<open>Labels\<close>

record Label =
  label_key :: string
  label_value :: "string option"

type_synonym Labels = "Label list"

definition label_eq :: "Label \<Rightarrow> Label \<Rightarrow> bool" where
  "label_eq left right = (label_key left = label_key right \<and> str (label_value left) = str (label_value right))"

definition labels_eq :: "Labels \<Rightarrow> Labels \<Rightarrow> bool" where
  "labels_eq = unordered_eq label_eq"

subsection \<open>Commands\<close>

record URI =
  uri_value :: string
  uri_executable :: "bool option"
  uri_extract :: "bool option"

definition uri_eq :: "URI \<Rightarrow> URI \<Rightarrow> bool" where
  "uri_eq left right =
     (uri_value left = uri_value right \<and>
      (uri_executable left = Some True) = (uri_executable right = Some True) \<and>
      (uri_extract left \<noteq> Some False) = (uri_extract right \<noteq> Some False))"

record Variable =
  var_name :: string
  var_value :: "string option"

definition variable_eq :: "Variable \<Rightarrow> Variable \<Rightarrow> bool" where
  "variable_eq left right = (var_name left = var_name right \<and> str (var_value left) = str (var_value right))"

type_synonym Environment = "Variable list"

definition environment_eq :: "Environment \<Rightarrow> Environment \<Rightarrow> bool" where
  "environment_eq = unordered_eq variable_eq"

definition repeated :: "'a list option \<Rightarrow> 'a list" where
  "repeated x = (case x of None \<Rightarrow> [] | Some xs \<Rightarrow> xs)"

record CommandInfo =
  cmd_uris :: "URI list"
  cmd_environment :: "Environment option"
  cmd_shell :: "bool option"
  cmd_value :: "string option"
  cmd_arguments :: "string list"
  cmd_user :: "string option"

definition command_eq :: "CommandInfo \<Rightarrow> CommandInfo \<Rightarrow> bool" where
  "command_eq left right =
     (unordered_eq uri_eq (cmd_uris left) (cmd_uris right) \<and>
      ordered_eq (=) (cmd_arguments left) (cmd_arguments right) \<and>
      environment_eq (repeated (cmd_environment left)) (repeated (cmd_environment right)) \<and>
      str (cmd_value left) = str (cmd_value right) \<and>
      str (cmd_user left) = str (cmd_user right) \<and>
      (cmd_shell left \<noteq> Some False) = (cmd_shell right \<noteq> Some False))"

datatype ContainerID = ContainerID string "ContainerID option"

fun container_id_eq :: "ContainerID \<Rightarrow> ContainerID \<Rightarrow> bool" where
  "container_id_eq (ContainerID v (Some p)) (ContainerID w (Some q)) \<longleftrightarrow> v = w \<and> container_id_eq p q"
| "container_id_eq (ContainerID v p) (ContainerID w q) \<longleftrightarrow> v = w \<and> (p \<noteq> None) = (q \<noteq> None)"

record Credential =
  cred_principal :: string
  cred_secret :: "string option"

definition credential_eq :: "Credential \<Rightarrow> Credential \<Rightarrow> bool" where
  "credential_eq left right =
     (cred_principal left = cred_principal right \<and> str (cred_secret left) = str (cred_secret right))"

subsection \<open>Containers\<close>

datatype Volume_Mode = RW | RO

record Volume =
  vol_mode :: Volume_Mode
  container_path :: string
  host_path :: "string option"

definition volume_eq :: "Volume \<Rightarrow> Volume \<Rightarrow> bool" where
  "volume_eq left right =
     (container_path left = container_path right \<and> str (host_path left) = str (host_path right) \<and>
      vol_mode left = vol_mode right)"

record PortMapping =
  pm_host_port :: "32 word"
  pm_container_port :: "32 word"
  pm_protocol :: "string option"

definition port_mapping_eq :: "PortMapping \<Rightarrow> PortMapping \<Rightarrow> bool" where
  "port_mapping_eq left right =
     (pm_host_port left = pm_host_port right \<and> pm_container_port left = pm_container_port right \<and>
      str (pm_protocol left) = str (pm_protocol right))"

record Parameter =
  param_key :: string
  param_value :: string

definition parameter_eq :: "Parameter \<Rightarrow> Parameter \<Rightarrow> bool" where
  "parameter_eq left right = (param_key left = param_key right \<and> param_value left = param_value right)"

datatype Network = HOST | BRIDGE | NONE | USER

record DockerInfo =
  docker_image :: string
  docker_network :: "Network option"
  docker_port_mappings :: "PortMapping list"
  docker_privileged :: "bool option"
  docker_parameters :: "Parameter list"
  docker_force_pull_image :: "bool option"

definition no_docker :: DockerInfo where
  "no_docker =
     \<lparr>docker_image = [], docker_network = None, docker_port_mappings = [], docker_privileged = None,
      docker_parameters = [], docker_force_pull_image = None\<rparr>"

definition network :: "DockerInfo \<Rightarrow> Network" where
  "network d = (case docker_network d of None \<Rightarrow> HOST | Some n \<Rightarrow> n)"

definition docker_eq :: "DockerInfo \<Rightarrow> DockerInfo \<Rightarrow> bool" where
  "docker_eq left right =
     (unordered_eq port_mapping_eq (docker_port_mappings left) (docker_port_mappings right) \<and>
      unordered_eq parameter_eq (docker_parameters left) (docker_parameters right) \<and>
      docker_image left = docker_image right \<and> network left = network right \<and>
      (docker_privileged left = Some True) = (docker_privileged right = Some True) \<and>
      (docker_force_pull_image left = Some True) = (docker_force_pull_image right = Some True))"

datatype Container_Type = DOCKER | MESOS

record ContainerInfo =
  ctr_type :: Container_Type
  ctr_volumes :: "Volume list"
  ctr_hostname :: "string option"
  ctr_docker :: "DockerInfo option"

definition docker :: "ContainerInfo \<Rightarrow> DockerInfo" where
  "docker c = (case ctr_docker c of None \<Rightarrow> no_docker | Some d \<Rightarrow> d)"

definition container_eq :: "ContainerInfo \<Rightarrow> ContainerInfo \<Rightarrow> bool" where
  "container_eq left right =
     (unordered_eq volume_eq (ctr_volumes left) (ctr_volumes right) \<and>
      ctr_type left = ctr_type right \<and> str (ctr_hostname left) = str (ctr_hostname right) \<and>
      docker_eq (docker left) (docker right))"

subsection \<open>Discovery\<close>

datatype Visibility = FRAMEWORK | CLUSTER | EXTERNAL

record Port =
  port_number :: "32 word"
  port_name :: "string option"
  port_protocol :: "string option"
  port_visibility :: "Visibility option"

definition visibility :: "Visibility option \<Rightarrow> Visibility" where
  "visibility v = (case v of None \<Rightarrow> FRAMEWORK | Some v \<Rightarrow> v)"

definition port_eq :: "Port \<Rightarrow> Port \<Rightarrow> bool" where
  "port_eq left right =
     (port_number left = port_number right \<and> str (port_name left) = str (port_name right) \<and>
      str (port_protocol left) = str (port_protocol right) \<and>
      visibility (port_visibility left) = visibility (port_visibility right))"

definition ports_eq :: "Port list \<Rightarrow> Port list \<Rightarrow> bool" where
  "ports_eq = unordered_eq port_eq"

record DiscoveryInfo =
  disc_visibility :: Visibility
  disc_name :: "string option"
  disc_environment :: "string option"
  disc_location :: "string option"
  disc_version :: "string option"
  disc_ports :: "Port list option"
  disc_labels :: "Labels option"

definition discovery_eq :: "DiscoveryInfo \<Rightarrow> DiscoveryInfo \<Rightarrow> bool" where
  "discovery_eq left right =
     (disc_visibility left = disc_visibility right \<and> str (disc_name left) = str (disc_name right) \<and>
      str (disc_environment left) = str (disc_environment right) \<and>
      str (disc_location left) = str (disc_location right) \<and>
      str (disc_version left) = str (disc_version right) \<and>
      ports_eq (repeated (disc_ports left)) (repeated (disc_ports right)) \<and>
      labels_eq (repeated (disc_labels left)) (repeated (disc_labels right)))"

subsection \<open>Comparison without order\<close>

lemma opt_eq_map: "(\<And>a b. x = Some a \<Longrightarrow> y = Some b \<Longrightarrow> eq a b \<longleftrightarrow> f a = f b) \<Longrightarrow> opt_eq eq x y \<longleftrightarrow> map_option f x = map_option f y"
  by (cases x; cases y) auto

lemma opt_eq_equal [simp]: "opt_eq (=) x y \<longleftrightarrow> x = y"
  by (cases x; cases y) auto

lemma ordered_eq_map:
  assumes "\<And>a b. a \<in> set left \<Longrightarrow> b \<in> set right \<Longrightarrow> eq a b \<longleftrightarrow> f a = f b"
  shows "ordered_eq eq left right \<longleftrightarrow> map f left = map f right"
  using assms unfolding ordered_eq_def list_eq_iff_nth_eq by (auto simp: list_all_iff)

text \<open>
  When the comparison of elements is equality of an image and the images of each side are
  distinct, comparison without order is equality of the sets of images.
\<close>

lemma unordered_eq_set:
  assumes eq: "\<And>a b. eq a b \<longleftrightarrow> f a = f b"
    and l: "distinct (map f left)" and r: "distinct (map f right)"
  shows "unordered_eq eq left right \<longleftrightarrow> f ` set left = f ` set right"
proof
  assume *: "unordered_eq eq left right"
  then have "f ` set left \<subseteq> f ` set right"
    by (auto simp: unordered_eq_def list_all_iff list_ex_iff eq)
  moreover have "card (f ` set left) = card (f ` set right)"
    using * distinct_card [OF l] distinct_card [OF r] by (simp add: unordered_eq_def)
  ultimately show "f ` set left = f ` set right" by (simp add: card_subset_eq)
next
  assume *: "f ` set left = f ` set right"
  then have "length left = length right"
    using distinct_card [OF l] distinct_card [OF r] by simp
  with * show "unordered_eq eq left right" by (auto simp: unordered_eq_def list_all_iff list_ex_iff eq)
qed

lemma unordered_eq_refl: "(\<And>a. eq a a) \<Longrightarrow> unordered_eq eq xs xs"
  by (auto simp: unordered_eq_def list_all_iff list_ex_iff)

definition label_norm :: "Label \<Rightarrow> string \<times> string" where
  "label_norm l = (label_key l, str (label_value l))"

lemma label_eq_norm: "label_eq a b \<longleftrightarrow> label_norm a = label_norm b"
  by (auto simp: label_eq_def label_norm_def)

lemma labels_eq_set:
  "distinct (map label_norm left) \<Longrightarrow> distinct (map label_norm right) \<Longrightarrow>
   labels_eq left right \<longleftrightarrow> label_norm ` set left = label_norm ` set right"
  unfolding labels_eq_def by (rule unordered_eq_set [OF label_eq_norm])

end
