(* ===== verification/Resource.thy ===== *)
theory Resource
  imports Values Roles Type_Utils
begin

text \<open>
  One resource (\<open>liburb/source/resources.cpp\<close>): the message \<open>Resource\<close>, its comparison, the tests
  \<open>addable\<close>, \<open>subtractable\<close> and \<open>contains\<close> that decide what may be combined, the arithmetic, the
  validation of both reservation formats and the static predicates.

  A glog \<open>CHECK\<close> is \<open>require\<close>, so that code that runs into one on a resource in the wrong format
  is a value \<open>Inl CheckFailed\<close>. The comparison of ranges coalesces copies of its arguments, which is
  why comparisons are outcomes too. \<open>icl\<close> is the interval set of boost.
\<close>

subsection \<open>Data\<close>

datatype Reservation_Type = RESERVATION_UNKNOWN | STATIC | DYNAMIC

record ReservationInfo =
  rsv_type :: "Reservation_Type option"
  rsv_role :: "string option"
  rsv_principal :: "string option"
  rsv_labels :: "Labels option"

datatype Source_Type = SOURCE_UNKNOWN | PATH | MOUNT

text \<open>A \<open>Path\<close> or a \<open>Mount\<close> is its optional root.\<close>

record Source =
  src_type :: Source_Type
  src_path :: "string option option"
  src_mount :: "string option option"

record Persistence =
  pers_id :: string
  pers_principal :: "string option"

record DiskInfo =
  disk_persistence :: "Persistence option"
  disk_volume :: "Volume option"
  disk_source :: "Source option"

text \<open>An \<open>AllocationInfo\<close> is its optional role.\<close>

record Resource =
  r_provider_id :: "string option"
  r_name :: string
  r_type :: Value_Type
  r_scalar :: "rat option"
  r_ranges :: "Ranges option"
  r_set :: "item_set option"
  r_role :: "string option"
  r_allocation_info :: "string option option"
  r_reservation :: "ReservationInfo option"
  r_reservations :: "ReservationInfo list"
  r_disk :: "DiskInfo option"
  r_revocable :: bool
  r_shared :: bool

text \<open>The accessors of the generated classes, with the defaults of \<open>mesos.proto\<close>.\<close>

definition scalar :: "Resource \<Rightarrow> rat" where
  "scalar r = (case r_scalar r of None \<Rightarrow> 0 | Some v \<Rightarrow> v)"

definition ranges :: "Resource \<Rightarrow> Ranges" where
  "ranges r = repeated (r_ranges r)"

definition items :: "Resource \<Rightarrow> item_set" where
  "items r = repeated (r_set r)"

definition res_role :: "Resource \<Rightarrow> string" where
  "res_role r = (case r_role r of None \<Rightarrow> ''*'' | Some s \<Rightarrow> s)"

definition reservation_type :: "ReservationInfo \<Rightarrow> Reservation_Type" where
  "reservation_type r = (case rsv_type r of None \<Rightarrow> RESERVATION_UNKNOWN | Some t \<Rightarrow> t)"

definition reservation_role :: "ReservationInfo \<Rightarrow> string" where
  "reservation_role r = str (rsv_role r)"

definition root :: "string option option \<Rightarrow> string option" where
  "root p = (case p of None \<Rightarrow> None | Some s \<Rightarrow> s)"

definition has_persistence :: "Resource \<Rightarrow> bool" where
  "has_persistence r = (case r_disk r of None \<Rightarrow> False | Some d \<Rightarrow> disk_persistence d \<noteq> None)"

definition is_mount :: "DiskInfo \<Rightarrow> bool" where
  "is_mount d = (case disk_source d of None \<Rightarrow> False | Some s \<Rightarrow> src_type s = MOUNT)"

subsection \<open>Comparison\<close>

definition allocation_info_eq :: "string option \<Rightarrow> string option \<Rightarrow> bool" where
  "allocation_info_eq = opt_eq (=)"

definition reservation_info_eq :: "ReservationInfo \<Rightarrow> ReservationInfo \<Rightarrow> bool" where
  "reservation_info_eq left right =
     (reservation_type left = reservation_type right \<and> reservation_role left = reservation_role right \<and>
      opt_eq (=) (rsv_principal left) (rsv_principal right) \<and>
      opt_eq labels_eq (rsv_labels left) (rsv_labels right))"

definition path_eq :: "string option \<Rightarrow> string option \<Rightarrow> bool" where
  "path_eq = opt_eq (=)"

definition mount_eq :: "string option \<Rightarrow> string option \<Rightarrow> bool" where
  "mount_eq left right = (opt_eq (=) left right \<and> str left = str right)"

definition source_eq :: "Source \<Rightarrow> Source \<Rightarrow> bool" where
  "source_eq left right =
     (src_type left = src_type right \<and>
      (src_path left \<noteq> None \<longrightarrow> path_eq (root (src_path left)) (root (src_path right))) \<and>
      (src_mount left \<noteq> None \<longrightarrow> mount_eq (root (src_mount left)) (root (src_mount right))))"

definition disk_eq :: "DiskInfo \<Rightarrow> DiskInfo \<Rightarrow> bool" where
  "disk_eq left right =
     (opt_eq source_eq (disk_source left) (disk_source right) \<and>
      opt_eq (\<lambda>p q. pers_id p = pers_id q) (disk_persistence left) (disk_persistence right))"

definition resource_eq :: "Resource \<Rightarrow> Resource \<Rightarrow> bool outcome" where
  "resource_eq left right =
     (if r_name left = r_name right \<and> r_type left = r_type right \<and>
         opt_eq allocation_info_eq (r_allocation_info left) (r_allocation_info right) \<and>
         ordered_eq reservation_info_eq (r_reservations left) (r_reservations right) \<and>
         opt_eq disk_eq (r_disk left) (r_disk right) \<and>
         r_revocable left = r_revocable right \<and>
         opt_eq (=) (r_provider_id left) (r_provider_id right) \<and>
         r_shared left = r_shared right
      then case r_type left of
             SCALAR \<Rightarrow> Inr (scalar_eq (scalar left) (scalar right))
           | RANGES \<Rightarrow> ranges_eq (ranges left) (ranges right)
           | SET \<Rightarrow> Inr (set_eq (items left) (items right))
           | TEXT \<Rightarrow> Inr False
      else Inr False)"

subsection \<open>What may be combined\<close>

definition addable :: "Resource \<Rightarrow> Resource \<Rightarrow> bool outcome" where
  "addable left right =
     (if r_shared left \<noteq> r_shared right then Inr False
      else if r_shared left then resource_eq left right
      else Inr
        (r_name left = r_name right \<and> r_type left = r_type right \<and>
         opt_eq allocation_info_eq (r_allocation_info left) (r_allocation_info right) \<and>
         ordered_eq reservation_info_eq (r_reservations left) (r_reservations right) \<and>
         opt_eq (\<lambda>d e. disk_eq d e \<and> \<not> is_mount d \<and> disk_persistence d = None) (r_disk left) (r_disk right) \<and>
         r_revocable left = r_revocable right \<and>
         opt_eq (=) (r_provider_id left) (r_provider_id right)))"

definition subtractable :: "Resource \<Rightarrow> Resource \<Rightarrow> bool outcome" where
  "subtractable left right =
     (if r_shared left \<noteq> r_shared right then Inr False
      else if r_shared left then resource_eq left right
      else if \<not> (r_name left = r_name right \<and> r_type left = r_type right \<and>
                 opt_eq allocation_info_eq (r_allocation_info left) (r_allocation_info right) \<and>
                 ordered_eq reservation_info_eq (r_reservations left) (r_reservations right) \<and>
                 opt_eq disk_eq (r_disk left) (r_disk right)) then Inr False
      else andThen
             (case r_disk left of
                None \<Rightarrow> Inr True
              | Some d \<Rightarrow>
                  andThen (if is_mount d then resource_eq left right else Inr True)
                    (\<lambda>e. if \<not> e then Inr False
                         else if disk_persistence d \<noteq> None then resource_eq left right else Inr True))
             (\<lambda>disks. Inr
                (disks \<and> r_revocable left = r_revocable right \<and>
                 opt_eq (=) (r_provider_id left) (r_provider_id right))))"

definition resource_contains :: "Resource \<Rightarrow> Resource \<Rightarrow> bool outcome" where
  "resource_contains left right =
     andThen (subtractable left right)
       (\<lambda>b. if \<not> b then Inr False
            else case r_type left of
                   SCALAR \<Rightarrow> Inr (scalar_le (scalar right) (scalar left))
                 | RANGES \<Rightarrow> ranges_le (ranges right) (ranges left)
                 | SET \<Rightarrow> Inr (set_le (items right) (items left))
                 | TEXT \<Rightarrow> Inr False)"

subsection \<open>Arithmetic\<close>

definition resource_add_to :: "Resource \<Rightarrow> Resource \<Rightarrow> Resource outcome" where
  "resource_add_to left right =
     (case r_type left of
        SCALAR \<Rightarrow> Inr (left\<lparr>r_scalar := Some (scalar_add (scalar left) (scalar right))\<rparr>)
      | RANGES \<Rightarrow> andThen (ranges_add_to (ranges left) (ranges right))
                    (\<lambda>rs. Inr (left\<lparr>r_ranges := Some rs\<rparr>))
      | SET \<Rightarrow> Inr (left\<lparr>r_set := Some (set_add_to (items left) (items right))\<rparr>)
      | TEXT \<Rightarrow> Inr left)"

definition resource_sub_from :: "'i icl \<Rightarrow> Resource \<Rightarrow> Resource \<Rightarrow> Resource outcome" where
  "resource_sub_from icl left right =
     (case r_type left of
        SCALAR \<Rightarrow> Inr (left\<lparr>r_scalar := Some (scalar_sub (scalar left) (scalar right))\<rparr>)
      | RANGES \<Rightarrow> Inr (left\<lparr>r_ranges := Some (ranges_sub_from icl (ranges left) (ranges right))\<rparr>)
      | SET \<Rightarrow> Inr (left\<lparr>r_set := Some (set_sub_from (items left) (items right))\<rparr>)
      | TEXT \<Rightarrow> Inr left)"

subsection \<open>Predicates\<close>

text \<open>The two checks that open each predicate: the resource is in the format after reservation refinement.\<close>

definition check_format :: "Resource \<Rightarrow> 'a outcome \<Rightarrow> 'a outcome" where
  "check_format r x = require (r_role r = None) (require (r_reservation r = None) x)"

definition isEmpty :: "Resource \<Rightarrow> bool outcome" where
  "isEmpty r = check_format r (Inr
     (case r_type r of
        SCALAR \<Rightarrow> scalar_eq (scalar r) 0
      | RANGES \<Rightarrow> length (ranges r) = 0
      | SET \<Rightarrow> length (items r) = 0
      | TEXT \<Rightarrow> False))"

definition isPersistentVolume :: "Resource \<Rightarrow> bool outcome" where
  "isPersistentVolume r = check_format r (Inr (has_persistence r))"

definition isUnreserved :: "Resource \<Rightarrow> bool outcome" where
  "isUnreserved r = check_format r (Inr (length (r_reservations r) = 0))"

definition reservationRole :: "Resource \<Rightarrow> string outcome" where
  "reservationRole r = require (length (r_reservations r) > 0) (Inr (reservation_role (last (r_reservations r))))"

definition isReserved :: "Resource \<Rightarrow> string option \<Rightarrow> bool outcome" where
  "isReserved r role = check_format r
     (andThen (isUnreserved r) (\<lambda>u.
        if u then Inr False
        else case role of
               None \<Rightarrow> Inr True
             | Some role \<Rightarrow> andThen (reservationRole r) (\<lambda>s. Inr (role = s))))"

definition isAllocatableTo :: "Resource \<Rightarrow> string \<Rightarrow> bool outcome" where
  "isAllocatableTo r role = check_format r
     (andThen (isUnreserved r) (\<lambda>u.
        if u then Inr True
        else andThen (reservationRole r) (\<lambda>s. Inr (role = s \<or> isStrictSubroleOf role s))))"

definition isDynamicallyReserved :: "Resource \<Rightarrow> bool outcome" where
  "isDynamicallyReserved r = check_format r
     (andThen (isReserved r None) (\<lambda>b.
        Inr (b \<and> reservation_type (last (r_reservations r)) = DYNAMIC)))"

definition isRevocable :: "Resource \<Rightarrow> bool outcome" where
  "isRevocable r = check_format r (Inr (r_revocable r))"

definition isShared :: "Resource \<Rightarrow> bool outcome" where
  "isShared r = check_format r (Inr (r_shared r))"

definition hasRefinedReservations :: "Resource \<Rightarrow> bool outcome" where
  "hasRefinedReservations r = check_format r (Inr (length (r_reservations r) > 1))"

subsection \<open>Validation\<close>

datatype resource_error =
    EmptyName | InvalidScalar | NegativeScalar | InvalidRanges | InvertedRange | OverlappingRanges
  | InvalidSet | DuplicatedItems | UnsupportedType | DiskInfoSet string | UnsupportedSource
  | InvalidRole role_error | TypeSet | RoleSet | StarDynamic | TypeNotSet | RoleNotSet | StarReserved
  | RefinedStatic | NotRefinement string string | RoleMismatch | StaticWithReservation
  | RoleWithoutReservation | PrincipalMismatch | LabelsMismatch | UnknownReservation
  | RefinedWithRole | RefinedWithReservation | NotShareable string | OnlyVolumesShared | NegativeCount

definition orElse :: "'e option \<Rightarrow> 'e option \<Rightarrow> 'e option" where
  "orElse a b = (case a of None \<Rightarrow> b | Some e \<Rightarrow> Some e)"

fun validate_ranges :: "Ranges \<Rightarrow> resource_error option" where
  "validate_ranges [] = None"
| "validate_ranges (r # rest) =
     (if range_begin r > range_end r then Some InvertedRange
      else if list_ex (\<lambda>q. range_begin r \<le> range_begin q \<and> range_begin q \<le> range_end r) rest
        then Some OverlappingRanges
      else validate_ranges rest)"

fun validate_items :: "item_set \<Rightarrow> resource_error option" where
  "validate_items [] = None"
| "validate_items (item # rest) =
     (if list_ex (\<lambda>i. item = i) rest then Some DuplicatedItems else validate_items rest)"

definition validate_value :: "Resource \<Rightarrow> resource_error option" where
  "validate_value r =
     (case r_type r of
        SCALAR \<Rightarrow>
          if r_scalar r = None \<or> r_ranges r \<noteq> None \<or> r_set r \<noteq> None then Some InvalidScalar
          else if scalar r < 0 then Some NegativeScalar else None
      | RANGES \<Rightarrow>
          if r_scalar r \<noteq> None \<or> r_ranges r = None \<or> r_set r \<noteq> None then Some InvalidRanges
          else validate_ranges (ranges r)
      | SET \<Rightarrow>
          if r_scalar r \<noteq> None \<or> r_ranges r \<noteq> None \<or> r_set r = None then Some InvalidSet
          else validate_items (items r)
      | TEXT \<Rightarrow> Some UnsupportedType)"

definition validate_disk :: "Resource \<Rightarrow> resource_error option" where
  "validate_disk r =
     (case r_disk r of
        None \<Rightarrow> None
      | Some disk \<Rightarrow>
          if r_name r \<noteq> ''disk'' then Some (DiskInfoSet (r_name r))
          else case disk_source disk of
                 None \<Rightarrow> None
               | Some source \<Rightarrow> (case src_type source of
                                   PATH \<Rightarrow> None | MOUNT \<Rightarrow> None
                                 | SOURCE_UNKNOWN \<Rightarrow> Some UnsupportedSource))"

definition validate_pre :: "Resource \<Rightarrow> resource_error option" where
  "validate_pre r =
     (case validate_role (res_role r) of
        Some e \<Rightarrow> Some (InvalidRole e)
      | None \<Rightarrow>
          (case r_reservation r of
             None \<Rightarrow> None
           | Some reservation \<Rightarrow>
               if rsv_type reservation \<noteq> None then Some TypeSet
               else if rsv_role reservation \<noteq> None then Some RoleSet
               else if res_role r = ''*'' then Some StarDynamic else None))"

fun validate_reservations :: "ReservationInfo list \<Rightarrow> resource_error option" where
  "validate_reservations [] = None"
| "validate_reservations (reservation # rest) =
     (if rsv_type reservation = None then Some TypeNotSet
      else if rsv_role reservation = None then Some RoleNotSet
      else case validate_role (reservation_role reservation) of
             Some e \<Rightarrow> Some (InvalidRole e)
           | None \<Rightarrow> if reservation_role reservation = ''*'' then Some StarReserved
                     else validate_reservations rest)"

fun validate_refined :: "string \<Rightarrow> ReservationInfo list \<Rightarrow> resource_error option" where
  "validate_refined ancestor [] = None"
| "validate_refined ancestor (reservation # rest) =
     (if reservation_type reservation = STATIC then Some RefinedStatic
      else let descendant = reservation_role reservation
           in if \<not> isStrictSubroleOf descendant ancestor then Some (NotRefinement descendant ancestor)
              else validate_refined descendant rest)"

text \<open>The fields of the old format next to a single reservation.\<close>

definition validate_single :: "Resource \<Rightarrow> ReservationInfo \<Rightarrow> resource_error option" where
  "validate_single r reservation =
     (if r_role r \<noteq> None \<and> res_role r \<noteq> reservation_role reservation then Some RoleMismatch
      else case reservation_type reservation of
             STATIC \<Rightarrow> if r_reservation r \<noteq> None then Some StaticWithReservation else None
           | DYNAMIC \<Rightarrow>
               if (r_role r \<noteq> None) \<noteq> (r_reservation r \<noteq> None) then Some RoleWithoutReservation
               else (case r_reservation r of
                       None \<Rightarrow> None
                     | Some old \<Rightarrow>
                         if str (rsv_principal old) \<noteq> str (rsv_principal reservation) then Some PrincipalMismatch
                         else if \<not> labels_eq (repeated (rsv_labels old)) (repeated (rsv_labels reservation))
                           then Some LabelsMismatch
                         else None)
           | RESERVATION_UNKNOWN \<Rightarrow> Some UnknownReservation)"

text \<open>The checks \<open>CHECK_GT\<close> on the number of reservations repeat the conditions of their branches.\<close>

definition validate_post :: "Resource \<Rightarrow> resource_error option" where
  "validate_post r =
     orElse (validate_reservations (r_reservations r))
       (orElse (validate_refined (reservation_role (hd (r_reservations r))) (tl (r_reservations r)))
         (if length (r_reservations r) = 1 then validate_single r (hd (r_reservations r))
          else if r_role r \<noteq> None then Some RefinedWithRole
          else if r_reservation r \<noteq> None then Some RefinedWithReservation else None))"

definition validate_shared :: "Resource \<Rightarrow> resource_error option" where
  "validate_shared r =
     (if r_shared r
      then if r_name r \<noteq> ''disk'' then Some (NotShareable (r_name r))
           else if r_disk r = None \<or> \<not> has_persistence r then Some OnlyVolumesShared else None
      else None)"

definition validate :: "Resource \<Rightarrow> resource_error option" where
  "validate r =
     (if r_name r = [] then Some EmptyName
      else orElse (validate_value r)
        (orElse (validate_disk r)
          (orElse (if length (r_reservations r) = 0 then validate_pre r else validate_post r)
            (validate_shared r))))"

fun validate_all :: "Resource list \<Rightarrow> (Resource \<times> resource_error) option" where
  "validate_all [] = None"
| "validate_all (r # rs) = (case validate r of Some e \<Rightarrow> Some (r, e) | None \<Rightarrow> validate_all rs)"

end
