(* ===== verification/Stock.thy ===== *)
theory Stock
  imports Resource
begin

text \<open>
  What a list of resources amounts to. \<open>sound\<close> is the condition under which the operations on one
  resource behave as arithmetic on quantities; \<open>res_key\<close> gathers everything the comparisons read
  except the quantity. A \<open>stock\<close> holds, for every name at once, the thousandths of the scalars, the
  numbers of the ranges and the items of the sets; stocks add up, so that the totals
  of lists of resources are sums.
\<close>

subsection \<open>Well-formed resources\<close>

definition wf_reservation :: "ReservationInfo \<Rightarrow> bool" where
  "wf_reservation r = (case rsv_labels r of None \<Rightarrow> True | Some ls \<Rightarrow> distinct (map label_norm ls))"

definition wf_source :: "Source \<Rightarrow> bool" where
  "wf_source s =
     ((src_path s \<noteq> None) = (src_type s = PATH) \<and> (src_mount s \<noteq> None) = (src_type s = MOUNT))"

definition wf_disk :: "DiskInfo \<Rightarrow> bool" where
  "wf_disk d = (case disk_source d of None \<Rightarrow> True | Some s \<Rightarrow> wf_source s)"

definition wf_resource :: "Resource \<Rightarrow> bool" where
  "wf_resource r \<longleftrightarrow>
     list_all wf_reservation (r_reservations r) \<and>
     (case r_reservation r of None \<Rightarrow> True | Some v \<Rightarrow> wf_reservation v) \<and>
     (case r_disk r of None \<Rightarrow> True | Some d \<Rightarrow> wf_disk d) \<and>
     list_all (\<lambda>q. range_end q \<noteq> - 1) (ranges r)"

definition post_format :: "Resource \<Rightarrow> bool" where
  "post_format r \<longleftrightarrow> r_role r = None \<and> r_reservation r = None"

definition value_ok :: "Resource \<Rightarrow> bool" where
  "value_ok r =
     (case r_type r of
        SCALAR \<Rightarrow> 0 \<le> scalar r
      | RANGES \<Rightarrow> list_all valid_range (ranges r)
      | SET \<Rightarrow> distinct (items r)
      | TEXT \<Rightarrow> False)"

definition sound :: "Resource \<Rightarrow> bool" where
  "sound r \<longleftrightarrow>
     post_format r \<and> value_ok r \<and> list_all wf_reservation (r_reservations r) \<and>
     (case r_disk r of None \<Rightarrow> True | Some d \<Rightarrow> wf_disk d)"

lemma validate_ranges_valid:
  "validate_ranges rs = None \<Longrightarrow> list_all (\<lambda>q. range_end q \<noteq> - 1) rs \<Longrightarrow> list_all valid_range rs"
  by (induction rs) (auto simp: valid_range_def split: if_splits)

lemma validate_items_distinct: "validate_items xs = None \<longleftrightarrow> distinct xs"
  by (induction xs) auto

lemma orElse_None [simp]: "orElse a b = None \<longleftrightarrow> a = None \<and> b = None"
  by (cases a) (auto simp: orElse_def)

lemma validate_sound:
  assumes "validate r = None" and "post_format r" and "wf_resource r"
  shows "sound r"
proof -
  have "validate_value r = None" using assms(1) by (simp add: validate_def split: if_splits)
  then have "value_ok r"
    using assms(3) unfolding value_ok_def wf_resource_def
    by (auto simp: validate_value_def validate_items_distinct split: Value_Type.splits if_splits
        intro: validate_ranges_valid)
  with assms(2,3) show ?thesis by (simp add: sound_def wf_resource_def)
qed

subsection \<open>Keys\<close>

definition rsv_key :: "ReservationInfo \<Rightarrow> Reservation_Type \<times> string \<times> string option \<times> (string \<times> string) set option" where
  "rsv_key r =
     (reservation_type r, reservation_role r, rsv_principal r,
      map_option (\<lambda>ls. label_norm ` set ls) (rsv_labels r))"

definition src_key :: "Source \<Rightarrow> Source_Type \<times> string option \<times> string option" where
  "src_key s = (src_type s, root (src_path s), root (src_mount s))"

definition disk_key :: "DiskInfo \<Rightarrow> (Source_Type \<times> string option \<times> string option) option \<times> string option" where
  "disk_key d = (map_option src_key (disk_source d), map_option pers_id (disk_persistence d))"

definition res_key where
  "res_key r =
     ((r_name r, r_type r, r_allocation_info r, map rsv_key (r_reservations r)),
      (map_option disk_key (r_disk r), r_revocable r, r_provider_id r, r_shared r))"

definition exclusive :: "Resource \<Rightarrow> bool" where
  "exclusive r = (case r_disk r of None \<Rightarrow> False | Some d \<Rightarrow> is_mount d \<or> disk_persistence d \<noteq> None)"

definition same_value :: "Resource \<Rightarrow> Resource \<Rightarrow> bool" where
  "same_value left right =
     (case r_type left of
        SCALAR \<Rightarrow> convertToFixed (scalar left) = convertToFixed (scalar right)
      | RANGES \<Rightarrow> ranges_set (ranges left) = ranges_set (ranges right)
      | SET \<Rightarrow> items left = items right
      | TEXT \<Rightarrow> False)"

definition value_le :: "Resource \<Rightarrow> Resource \<Rightarrow> bool" where
  "value_le left right =
     (case r_type left of
        SCALAR \<Rightarrow> convertToFixed (scalar left) \<le> convertToFixed (scalar right)
      | RANGES \<Rightarrow> ranges_set (ranges left) \<subseteq> ranges_set (ranges right)
      | SET \<Rightarrow> set (items left) \<subseteq> set (items right)
      | TEXT \<Rightarrow> False)"

lemma reservation_info_eq_key:
  "wf_reservation l \<Longrightarrow> wf_reservation r \<Longrightarrow> reservation_info_eq l r \<longleftrightarrow> rsv_key l = rsv_key r"
  unfolding reservation_info_eq_def rsv_key_def
  by (subst opt_eq_map [where f = "\<lambda>ls. label_norm ` set ls"])
    (auto simp: wf_reservation_def labels_eq_set)

lemma source_eq_key: "wf_source l \<Longrightarrow> wf_source r \<Longrightarrow> source_eq l r \<longleftrightarrow> src_key l = src_key r"
  by (auto simp: source_eq_def src_key_def wf_source_def path_eq_def mount_eq_def root_def split: option.splits)

lemma disk_eq_key: "wf_disk l \<Longrightarrow> wf_disk r \<Longrightarrow> disk_eq l r \<longleftrightarrow> disk_key l = disk_key r"
  unfolding disk_eq_def disk_key_def
  by (subst opt_eq_map [where f = src_key], simp add: wf_disk_def source_eq_key)
    (subst opt_eq_map [where f = pers_id], simp_all)

lemma reservations_eq_key:
  assumes "list_all wf_reservation ls" and "list_all wf_reservation rs"
  shows "ordered_eq reservation_info_eq ls rs \<longleftrightarrow> map rsv_key ls = map rsv_key rs"
  using assms by (intro ordered_eq_map reservation_info_eq_key) (auto simp: list_all_iff)

subsection \<open>What the comparisons decide\<close>

lemma sound_parts:
  assumes "sound r"
  shows "list_all wf_reservation (r_reservations r)" and "\<And>d. r_disk r = Some d \<Longrightarrow> wf_disk d"
    and "value_ok r" and "r_role r = None" and "r_reservation r = None"
  using assms by (auto simp: sound_def post_format_def)

lemma key_conditions:
  assumes "sound l" and "sound r"
  shows "r_name l = r_name r \<and> r_type l = r_type r \<and>
      opt_eq allocation_info_eq (r_allocation_info l) (r_allocation_info r) \<and>
      ordered_eq reservation_info_eq (r_reservations l) (r_reservations r) \<and>
      opt_eq disk_eq (r_disk l) (r_disk r) \<and>
      r_revocable l = r_revocable r \<and> opt_eq (=) (r_provider_id l) (r_provider_id r) \<and>
      r_shared l = r_shared r \<longleftrightarrow> res_key l = res_key r"
proof -
  have "ordered_eq reservation_info_eq (r_reservations l) (r_reservations r) \<longleftrightarrow>
      map rsv_key (r_reservations l) = map rsv_key (r_reservations r)"
    using assms by (intro reservations_eq_key) (auto dest: sound_parts)
  moreover have "opt_eq disk_eq (r_disk l) (r_disk r) \<longleftrightarrow> map_option disk_key (r_disk l) = map_option disk_key (r_disk r)"
    using assms by (intro opt_eq_map disk_eq_key) (auto dest: sound_parts)
  moreover have "opt_eq allocation_info_eq (r_allocation_info l) (r_allocation_info r) \<longleftrightarrow>
      r_allocation_info l = r_allocation_info r"
    by (simp add: allocation_info_eq_def opt_eq_map [where f = "\<lambda>x. x"] option.map_ident)
  ultimately show ?thesis by (simp add: res_key_def)
qed

lemma value_compare:
  assumes "value_ok l" and "value_ok r" and "r_type l = r_type r"
  shows "(case r_type l of
      SCALAR \<Rightarrow> Inr (scalar_eq (scalar l) (scalar r))
    | RANGES \<Rightarrow> ranges_eq (ranges l) (ranges r)
    | SET \<Rightarrow> Inr (set_eq (items l) (items r))
    | TEXT \<Rightarrow> Inr False) = Inr (same_value l r)"
  using assms
  by (simp add: value_ok_def same_value_def scalar_eq_def ranges_eq_sets set_eq_list split: Value_Type.splits)

lemma resource_eq_key:
  assumes "sound l" and "sound r"
  shows "resource_eq l r = Inr (res_key l = res_key r \<and> same_value l r)"
proof (cases "res_key l = res_key r")
  case True
  then have "r_type l = r_type r" by (simp add: res_key_def)
  with True show ?thesis
    unfolding resource_eq_def key_conditions [OF assms]
    using value_compare [OF sound_parts(3) [OF assms(1)] sound_parts(3) [OF assms(2)]] by simp
next
  case False
  then show ?thesis unfolding resource_eq_def key_conditions [OF assms] by simp
qed

lemma exclusive_disk_key:
  assumes "disk_key d = disk_key e"
  shows "is_mount d = is_mount e" and "disk_persistence d = None \<longleftrightarrow> disk_persistence e = None"
proof -
  have s: "map_option src_key (disk_source d) = map_option src_key (disk_source e)"
    and p: "map_option pers_id (disk_persistence d) = map_option pers_id (disk_persistence e)"
    using assms by (simp_all add: disk_key_def)
  from s show "is_mount d = is_mount e"
    by (cases "disk_source d"; cases "disk_source e") (simp_all add: is_mount_def src_key_def)
  from p show "disk_persistence d = None \<longleftrightarrow> disk_persistence e = None" by (metis map_option_is_None)
qed

lemma exclusive_key:
  assumes "res_key l = res_key r"
  shows "exclusive l = exclusive r"
proof -
  have "map_option disk_key (r_disk l) = map_option disk_key (r_disk r)"
    using assms by (simp add: res_key_def)
  then consider "r_disk l = None" "r_disk r = None"
    | d e where "r_disk l = Some d" "r_disk r = Some e" "disk_key d = disk_key e"
    by (cases "r_disk l"; cases "r_disk r") auto
  then show ?thesis
  proof cases
    case (2 d e)
    then show ?thesis using exclusive_disk_key [OF 2(3)] by (simp add: exclusive_def)
  qed (simp add: exclusive_def)
qed

lemma shared_key: "res_key l = res_key r \<Longrightarrow> r_shared l = r_shared r"
  by (simp add: res_key_def)

lemma addable_key:
  assumes "sound l" and "sound r"
  shows "addable l r =
    Inr (res_key l = res_key r \<and> (if r_shared l then same_value l r else \<not> exclusive l))"
proof (cases "r_shared l = r_shared r \<and> \<not> r_shared l")
  case True
  have "opt_eq (\<lambda>d e. disk_eq d e \<and> \<not> is_mount d \<and> disk_persistence d = None) (r_disk l) (r_disk r) \<longleftrightarrow>
      opt_eq disk_eq (r_disk l) (r_disk r) \<and> \<not> exclusive l"
    by (cases "r_disk l"; cases "r_disk r") (auto simp: exclusive_def)
  then show ?thesis
    using True key_conditions [OF assms] by (auto simp: addable_def)
next
  case False
  then show ?thesis
    using resource_eq_key [OF assms] shared_key [of l r] by (auto simp: addable_def)
qed

lemma subtractable_key:
  assumes "sound l" and "sound r"
  shows "subtractable l r =
    Inr (res_key l = res_key r \<and> (r_shared l \<or> exclusive l \<longrightarrow> same_value l r))"
proof (cases "r_shared l = r_shared r \<and> \<not> r_shared l")
  case True
  show ?thesis
  proof (cases "res_key l = res_key r")
    case k: True
    note c = iffD2 [OF key_conditions [OF assms] k]
    from c True show ?thesis
      by (cases "r_disk l") (simp_all add: subtractable_def resource_eq_key [OF assms] k exclusive_def ex_bool_eq)
  next
    case k: False
    note c = key_conditions [OF assms]
    from True k c show ?thesis
      by (cases "r_disk l") (auto simp: subtractable_def resource_eq_key [OF assms])
  qed
next
  case False
  then show ?thesis
    using resource_eq_key [OF assms] shared_key [of l r] by (auto simp: subtractable_def)
qed

lemma resource_contains_key:
  assumes "sound l" and "sound r"
  shows "resource_contains l r =
    Inr (res_key l = res_key r \<and> (r_shared l \<or> exclusive l \<longrightarrow> same_value l r) \<and> value_le r l)"
proof (cases "r_type l = r_type r")
  case True
  with sound_parts(3) [OF assms(1)] sound_parts(3) [OF assms(2)]
  have "(case r_type l of
      SCALAR \<Rightarrow> Inr (scalar_le (scalar r) (scalar l))
    | RANGES \<Rightarrow> ranges_le (ranges r) (ranges l)
    | SET \<Rightarrow> Inr (set_le (items r) (items l))
    | TEXT \<Rightarrow> Inr False) = Inr (value_le r l)"
    by (simp add: value_ok_def value_le_def scalar_le_def ranges_le_sets set_le_subset split: Value_Type.splits)
  then show ?thesis
    unfolding resource_contains_def subtractable_key [OF assms] by auto
next
  case False
  then have "res_key l \<noteq> res_key r" by (auto simp: res_key_def)
  then show ?thesis unfolding resource_contains_def subtractable_key [OF assms] by simp
qed

lemma isEmpty_sound:
  "sound r \<Longrightarrow> isEmpty r = Inr (case r_type r of
      SCALAR \<Rightarrow> convertToFixed (scalar r) = 0 | RANGES \<Rightarrow> ranges r = [] | SET \<Rightarrow> items r = [] | TEXT \<Rightarrow> False)"
proof -
  assume "sound r"
  moreover have "convertToFixed 0 = 0" by code_simp
  ultimately show ?thesis
    by (simp add: isEmpty_def check_format_def sound_def post_format_def scalar_eq_def split: Value_Type.splits)
qed

subsection \<open>Stocks\<close>

datatype stock = Stock (stk_scalar: "string \<Rightarrow> nat") (stk_numbers: "(string \<times> uint64) set") (stk_items: "(string \<times> string) set")

instantiation stock :: comm_monoid_add
begin

definition zero_stock :: stock where
  "zero_stock = Stock (\<lambda>_. 0) {} {}"

definition plus_stock :: "stock \<Rightarrow> stock \<Rightarrow> stock" where
  "plus_stock a b =
     Stock (\<lambda>n. stk_scalar a n + stk_scalar b n) (stk_numbers a \<union> stk_numbers b) (stk_items a \<union> stk_items b)"

instance
  by standard (auto simp: zero_stock_def plus_stock_def intro: stock.expand)

end

lemma stock_sel [simp]:
  "stk_scalar 0 n = 0" "stk_numbers 0 = {}" "stk_items 0 = {}"
  "stk_scalar (a + b) n = stk_scalar a n + stk_scalar b n"
  "stk_numbers (a + b) = stk_numbers a \<union> stk_numbers b"
  "stk_items (a + b) = stk_items a \<union> stk_items b"
  by (simp_all add: zero_stock_def plus_stock_def)

lemma stock_eqI:
  "(\<And>n. stk_scalar a n = stk_scalar b n) \<Longrightarrow> stk_numbers a = stk_numbers b \<Longrightarrow> stk_items a = stk_items b \<Longrightarrow> a = b"
  by (cases a; cases b) auto

definition fits :: "stock \<Rightarrow> bool" where
  "fits s \<longleftrightarrow> (\<forall>n. stk_scalar s n \<le> 2 ^ 50)"

lemma fits_add: "fits (a + b) \<Longrightarrow> fits a" "fits (a + b) \<Longrightarrow> fits b"
  unfolding fits_def stock_sel using add_leD1 add_leD2 by blast+

text \<open>Two stocks without a number or an item in common.\<close>

definition stk_apart :: "stock \<Rightarrow> stock \<Rightarrow> bool" where
  "stk_apart a b \<longleftrightarrow> stk_numbers a \<inter> stk_numbers b = {} \<and> stk_items a \<inter> stk_items b = {}"

lemma stk_apart_cancel:
  assumes "a + b = b" and "stk_apart a b"
  shows "a = 0"
proof (rule stock_eqI)
  show "stk_scalar a n = stk_scalar 0 n" for n using arg_cong [OF assms(1), of "\<lambda>s. stk_scalar s n"] by simp
  show "stk_numbers a = stk_numbers 0" "stk_items a = stk_items 0"
    using arg_cong [OF assms(1), of stk_numbers] arg_cong [OF assms(1), of stk_items] assms(2)
    by (auto simp: stk_apart_def)
qed

definition amount :: "Resource \<Rightarrow> stock" where
  "amount r =
     (case r_type r of
        SCALAR \<Rightarrow> Stock (\<lambda>n. if n = r_name r then nat (convertToFixed (scalar r)) else 0) {} {}
      | RANGES \<Rightarrow> Stock (\<lambda>_. 0) ({r_name r} \<times> ranges_set (ranges r)) {}
      | SET \<Rightarrow> Stock (\<lambda>_. 0) {} ({r_name r} \<times> set (items r))
      | TEXT \<Rightarrow> 0)"

lemma amount_empty:
  assumes "sound r"
  shows "isEmpty r = Inr (amount r = 0)"
proof -
  have v: "value_ok r" using assms by (rule sound_parts)
  show ?thesis
  proof (cases "r_type r")
    case SCALAR
    then have "0 \<le> convertToFixed (scalar r)" using v by (simp add: value_ok_def convertToFixed_nonneg)
    with SCALAR show ?thesis
      by (auto simp: isEmpty_sound [OF assms] amount_def zero_stock_def fun_eq_iff dest: spec [of _ "r_name r"])
  next
    case RANGES
    then show ?thesis
      using v by (simp add: isEmpty_sound [OF assms] amount_def zero_stock_def value_ok_def ranges_set_empty)
  next
    case SET
    then show ?thesis by (simp add: isEmpty_sound [OF assms] amount_def zero_stock_def)
  next
    case TEXT
    then show ?thesis using v by (simp add: value_ok_def)
  qed
qed

lemma same_amount:
  assumes "res_key l = res_key r" and "same_value l r"
  shows "amount l = amount r"
proof -
  have "r_name l = r_name r" "r_type l = r_type r" using assms(1) by (simp_all add: res_key_def)
  with assms(2) show ?thesis by (cases "r_type l") (simp_all add: amount_def same_value_def cong: if_cong)
qed

lemma same_value_le: "same_value l r \<Longrightarrow> r_type l = r_type r \<Longrightarrow> value_le r l"
  by (simp add: same_value_def value_le_def split: Value_Type.splits)

text \<open>A change of the quantity alone.\<close>

lemma sound_update:
  assumes "sound r"
  shows "sound (r\<lparr>r_scalar := a\<rparr>) = value_ok (r\<lparr>r_scalar := a\<rparr>)"
    and "sound (r\<lparr>r_ranges := b\<rparr>) = value_ok (r\<lparr>r_ranges := b\<rparr>)"
    and "sound (r\<lparr>r_set := c\<rparr>) = value_ok (r\<lparr>r_set := c\<rparr>)"
  using assms by (auto simp: sound_def post_format_def)

lemma key_update [simp]:
  "res_key (r\<lparr>r_scalar := a\<rparr>) = res_key r"
  "res_key (r\<lparr>r_ranges := b\<rparr>) = res_key r"
  "res_key (r\<lparr>r_set := c\<rparr>) = res_key r"
  by (simp_all add: res_key_def)

lemma accessor_update [simp]:
  "scalar (r\<lparr>r_scalar := Some v\<rparr>) = v" "ranges (r\<lparr>r_ranges := Some rs\<rparr>) = rs" "items (r\<lparr>r_set := Some xs\<rparr>) = xs"
  by (simp_all add: scalar_def ranges_def items_def repeated_def)

lemma resource_add_amount:
  assumes s: "sound l" "sound r" and k: "res_key l = res_key r" and f: "fits (amount l + amount r)"
  shows "returns (resource_add_to l r)
    (\<lambda>x. sound x \<and> res_key x = res_key l \<and> amount x = amount l + amount r)"
proof -
  have n: "r_name l = r_name r" "r_type l = r_type r" using k by (simp_all add: res_key_def)
  have v: "value_ok l" "value_ok r" using s by (auto dest: sound_parts)
  show ?thesis
  proof (cases "r_type l")
    case SCALAR
    let ?l = "convertToFixed (scalar l)" and ?r = "convertToFixed (scalar r)"
    have pos: "0 \<le> ?l" "0 \<le> ?r" using v n SCALAR by (auto simp: value_ok_def convertToFixed_nonneg)
    have "nat ?l + nat ?r \<le> 2 ^ 50"
      using f n SCALAR by (auto simp: fits_def amount_def dest: spec [of _ "r_name r"])
    then have "nat (?l + ?r) \<le> 2 ^ 50" using pos by (simp add: nat_add_distrib)
    then have b: "\<bar>?l + ?r\<bar> \<le> 2 ^ 50" using pos by (simp add: nat_le_iff)
    with SCALAR n v s pos show ?thesis
      by (auto simp: resource_add_to_def sound_update value_ok_def amount_def scalar_add_def
          convertToFloating_nonneg fixed_floating nat_add_distrib intro!: stock_eqI)
  next
    case RANGES
    with n v have "list_all valid_range (ranges l @ ranges r)" by (simp add: value_ok_def)
    from valid_merged [OF this] RANGES n v s show ?thesis
      by (auto simp: resource_add_to_def ranges_add_to_merged sound_update value_ok_def amount_def
          ranges_set_merged intro!: stock_eqI)
  next
    case SET
    with n v have d: "distinct (items l)" "distinct (items r)" by (simp_all add: value_ok_def)
    with SET n v s show ?thesis
      by (auto simp: resource_add_to_def set_add_to_distinct sound_update value_ok_def amount_def intro!: stock_eqI)
  qed (use v in \<open>simp add: value_ok_def\<close>)
qed

lemma resource_sub_amount:
  assumes icl: "interval_set icl elements icl_inv"
    and s: "sound l" "sound r" and k: "res_key l = res_key r" and f: "fits (amount l)"
    and le: "value_le r l"
  shows "returns (resource_sub_from icl l r)
    (\<lambda>x. sound x \<and> res_key x = res_key l \<and> amount x + amount r = amount l \<and> stk_apart (amount x) (amount r))"
proof -
  have n: "r_name l = r_name r" "r_type l = r_type r" using k by (simp_all add: res_key_def)
  have v: "value_ok l" "value_ok r" using s by (auto dest: sound_parts)
  show ?thesis
  proof (cases "r_type l")
    case SCALAR
    let ?l = "convertToFixed (scalar l)" and ?r = "convertToFixed (scalar r)"
    have pos: "0 \<le> ?l" "0 \<le> ?r" "?r \<le> ?l"
      using v n SCALAR le by (auto simp: value_ok_def value_le_def convertToFixed_nonneg)
    have "nat ?l \<le> 2 ^ 50"
      using f n SCALAR by (auto simp: fits_def amount_def dest: spec [of _ "r_name r"])
    with pos have b: "\<bar>?l - ?r\<bar> \<le> 2 ^ 50" by (simp add: nat_le_iff)
    with SCALAR n v s pos show ?thesis
      by (auto simp: resource_sub_from_def sound_update value_ok_def amount_def scalar_sub_def
          convertToFloating_nonneg fixed_floating stk_apart_def simp flip: nat_add_distrib
          intro!: stock_eqI)
  next
    case RANGES
    with n v have "list_all valid_range (ranges l)" "list_all valid_range (ranges r)" by (simp_all add: value_ok_def)
    from interval_set.ranges_sub_from_spec [OF icl this] RANGES n v s le show ?thesis
      by (auto simp: resource_sub_from_def sound_update value_ok_def value_le_def amount_def canonical_def
          stk_apart_def
          intro!: stock_eqI)
  next
    case SET
    with n v have "distinct (items l)" by (simp add: value_ok_def)
    from set_sub_from_distinct [OF this] SET n v s le show ?thesis
      by (auto simp: resource_sub_from_def sound_update value_ok_def value_le_def amount_def stk_apart_def
          intro!: stock_eqI)
  qed (use v in \<open>simp add: value_ok_def\<close>)
qed

text \<open>Without inclusion the difference is still well-formed or a negative scalar.\<close>

lemma resource_sub_any:
  assumes icl: "interval_set icl elements icl_inv"
    and s: "sound l" "sound r" and k: "res_key l = res_key r" and f: "fits (amount l)" "fits (amount r)"
  shows "returns (resource_sub_from icl l r)
    (\<lambda>x. res_key x = res_key l \<and> (r_type x = SCALAR \<and> scalar x < 0 \<or>
      sound x \<and> (\<forall>n. stk_scalar (amount x) n \<le> stk_scalar (amount l) n)))"
proof -
  have n: "r_name l = r_name r" "r_type l = r_type r" using k by (simp_all add: res_key_def)
  have v: "value_ok l" "value_ok r" using s by (auto dest: sound_parts)
  show ?thesis
  proof (cases "r_type l")
    case SCALAR
    let ?l = "convertToFixed (scalar l)" and ?r = "convertToFixed (scalar r)"
    have pos: "0 \<le> ?l" "0 \<le> ?r" using v n SCALAR by (auto simp: value_ok_def convertToFixed_nonneg)
    have "nat ?l \<le> 2 ^ 50" "nat ?r \<le> 2 ^ 50"
      using f n SCALAR by (auto simp: fits_def amount_def dest: spec [of _ "r_name r"])
    with pos have b: "\<bar>?l - ?r\<bar> \<le> 2 ^ 50" "- (2 ^ 50) \<le> ?l - ?r" by (simp_all add: nat_le_iff)
    show ?thesis
    proof (cases "?l - ?r < 0")
      case True
      with SCALAR convertToFloating_neg [OF _ b(2)] show ?thesis
        by (simp add: resource_sub_from_def scalar_sub_def)
    next
      case False
      with b SCALAR s show ?thesis
        using pos by (auto simp: resource_sub_from_def sound_update value_ok_def scalar_sub_def amount_def
            convertToFloating_nonneg fixed_floating)
    qed
  next
    case RANGES
    with n v have "list_all valid_range (ranges l)" "list_all valid_range (ranges r)" by (simp_all add: value_ok_def)
    from interval_set.ranges_sub_from_spec [OF icl this] RANGES s show ?thesis
      by (auto simp: resource_sub_from_def sound_update value_ok_def canonical_def amount_def)
  next
    case SET
    with n v have "distinct (items l)" by (simp add: value_ok_def)
    from set_sub_from_distinct [OF this] SET s show ?thesis
      by (auto simp: resource_sub_from_def sound_update value_ok_def amount_def)
  qed (use v in \<open>simp add: value_ok_def\<close>)
qed

end
