(* ===== verification/Resources.thy ===== *)
theory Resources
  imports Stock
begin

text \<open>
  The class \<open>Resources\<close> (\<open>liburb/source/resources.cpp\<close> and \<open>mesos/include/mesos/resources.hpp\<close>): a vector of
  \<open>Resource_\<close> objects, each a resource with a counter of its shared copies, and the operations
  on it. \<open>Resource_\<close> is the record \<open>Resource'\<close>. The counter is an unbounded integer; the C++
  \<open>int\<close> would overflow at \<open>2 ^ 31\<close> copies of one volume.

  Loops over the vector that stop at the first match are recursions over the list, and
  \<open>foreach\<close> loops that accumulate are \<open>foldOutcome\<close>.
\<close>

record Resource' =
  resource :: Resource
  sharedCount :: "int option"

type_synonym Resources = "Resource' list"

subsection \<open>\<open>Resource_\<close>\<close>

definition wrap :: "Resource \<Rightarrow> Resource'" where
  "wrap r = \<lparr>resource = r, sharedCount = (if r_shared r then Some 1 else None)\<rparr>"

definition isShared' :: "Resource' \<Rightarrow> bool" where
  "isShared' r = (sharedCount r \<noteq> None)"

definition count' :: "Resource' \<Rightarrow> int" where
  "count' r = (case sharedCount r of None \<Rightarrow> 0 | Some n \<Rightarrow> n)"

definition validate' :: "Resource' \<Rightarrow> resource_error option" where
  "validate' r = (if isShared' r \<and> count' r < 0 then Some NegativeCount else validate (resource r))"

definition isEmpty' :: "Resource' \<Rightarrow> bool outcome" where
  "isEmpty' r = (if isShared' r \<and> count' r = 0 then Inr True else isEmpty (resource r))"

definition contains' :: "Resource' \<Rightarrow> Resource' \<Rightarrow> bool outcome" where
  "contains' r that =
     (if isShared' r \<noteq> isShared' that then Inr False
      else if isShared' r
        then if count' r \<ge> count' that then resource_eq (resource r) (resource that) else Inr False
      else resource_contains (resource r) (resource that))"

definition add_to' :: "Resource' \<Rightarrow> Resource' \<Rightarrow> Resource' outcome" where
  "add_to' r that =
     (if \<not> isShared' r
      then andThen (resource_add_to (resource r) (resource that)) (\<lambda>x. Inr (r\<lparr>resource := x\<rparr>))
      else require (sharedCount that \<noteq> None) (Inr (r\<lparr>sharedCount := Some (count' r + count' that)\<rparr>)))"

definition sub_from' :: "'i icl \<Rightarrow> Resource' \<Rightarrow> Resource' \<Rightarrow> Resource' outcome" where
  "sub_from' icl r that =
     (if \<not> isShared' r
      then andThen (resource_sub_from icl (resource r) (resource that)) (\<lambda>x. Inr (r\<lparr>resource := x\<rparr>))
      else require (sharedCount that \<noteq> None) (Inr (r\<lparr>sharedCount := Some (count' r - count' that)\<rparr>)))"

definition equal' :: "Resource' \<Rightarrow> Resource' \<Rightarrow> bool outcome" where
  "equal' r that =
     (if isShared' r \<noteq> isShared' that then Inr False
      else if isShared' r \<and> count' r \<noteq> count' that then Inr False
      else resource_eq (resource r) (resource that))"

subsection \<open>Addition and subtraction\<close>

fun add_loop :: "Resource' \<Rightarrow> Resources \<Rightarrow> Resources outcome" where
  "add_loop that [] = Inr [that]"
| "add_loop that (r # rs) =
     andThen (addable (resource r) (resource that)) (\<lambda>found.
       if found then andThen (add_to' r that) (\<lambda>r. Inr (r # rs))
       else andThen (add_loop that rs) (\<lambda>rs. Inr (r # rs)))"

definition add :: "Resource' \<Rightarrow> Resources \<Rightarrow> Resources outcome" where
  "add that rs = andThen (isEmpty' that) (\<lambda>e. if e then Inr rs else add_loop that rs)"

text \<open>\<open>resources[i] = resources.back(); resources.pop_back();\<close>\<close>

definition remove_at :: "nat \<Rightarrow> 'a list \<Rightarrow> 'a list" where
  "remove_at i rs = butlast (rs[i := last rs])"

definition negative :: "Resource' \<Rightarrow> bool" where
  "negative r =
     (isShared' r \<and> count' r < 0 \<or> r_type (resource r) = SCALAR \<and> scalar (resource r) < 0)"

text \<open>The first argument of the loop is the part of the vector before the index.\<close>

fun subtract_loop :: "'i icl \<Rightarrow> Resource' \<Rightarrow> Resources \<Rightarrow> Resources \<Rightarrow> Resources outcome" where
  "subtract_loop icl that front [] = Inr front"
| "subtract_loop icl that front (r # rs) =
     andThen (subtractable (resource r) (resource that)) (\<lambda>found.
       if found
       then andThen (sub_from' icl r that) (\<lambda>r.
              andThen (if negative r then Inr True else isEmpty' r) (\<lambda>gone.
                Inr (if gone then remove_at (length front) (front @ r # rs) else front @ r # rs)))
       else subtract_loop icl that (front @ [r]) rs)"

definition subtract :: "'i icl \<Rightarrow> Resource' \<Rightarrow> Resources \<Rightarrow> Resources outcome" where
  "subtract icl that rs = andThen (isEmpty' that) (\<lambda>e. if e then Inr rs else subtract_loop icl that [] rs)"

definition plus_resource' :: "Resource' \<Rightarrow> Resources \<Rightarrow> Resources outcome" where
  "plus_resource' that rs = (if validate' that = None then add that rs else Inr rs)"

definition plus_resource :: "Resource \<Rightarrow> Resources \<Rightarrow> Resources outcome" where
  "plus_resource that rs = plus_resource' (wrap that) rs"

definition plus_resources :: "Resources \<Rightarrow> Resources \<Rightarrow> Resources outcome" where
  "plus_resources rs that = foldOutcome add that rs"

definition minus_resource' :: "'i icl \<Rightarrow> Resource' \<Rightarrow> Resources \<Rightarrow> Resources outcome" where
  "minus_resource' icl that rs = (if validate' that = None then subtract icl that rs else Inr rs)"

definition minus_resource :: "'i icl \<Rightarrow> Resource \<Rightarrow> Resources \<Rightarrow> Resources outcome" where
  "minus_resource icl that rs = minus_resource' icl (wrap that) rs"

definition minus_resources :: "'i icl \<Rightarrow> Resources \<Rightarrow> Resources \<Rightarrow> Resources outcome" where
  "minus_resources icl rs that = foldOutcome (subtract icl) that rs"

text \<open>The constructors from one resource and from a vector or a repeated field.\<close>

definition of_resource :: "Resource \<Rightarrow> Resources outcome" where
  "of_resource r = plus_resource r []"

definition of_list :: "Resource list \<Rightarrow> Resources outcome" where
  "of_list rs = foldOutcome plus_resource rs []"

subsection \<open>Inclusion\<close>

fun contains_item :: "Resources \<Rightarrow> Resource' \<Rightarrow> bool outcome" where
  "contains_item [] that = Inr False"
| "contains_item (r # rs) that =
     andThen (contains' r that) (\<lambda>b. if b then Inr True else contains_item rs that)"

fun contains_loop :: "'i icl \<Rightarrow> Resources \<Rightarrow> Resources \<Rightarrow> bool outcome" where
  "contains_loop icl remaining [] = Inr True"
| "contains_loop icl remaining (r # that) =
     andThen (contains_item remaining r) (\<lambda>b.
       if \<not> b then Inr False
       else andThen (isPersistentVolume (resource r)) (\<lambda>p.
              if p then andThen (subtract icl r remaining) (\<lambda>remaining. contains_loop icl remaining that)
              else contains_loop icl remaining that))"

definition contains :: "'i icl \<Rightarrow> Resources \<Rightarrow> Resources \<Rightarrow> bool outcome" where
  "contains icl rs that = contains_loop icl rs that"

definition contains_resource :: "Resources \<Rightarrow> Resource \<Rightarrow> bool outcome" where
  "contains_resource rs that = (if validate that = None then contains_item rs (wrap that) else Inr False)"

definition equal :: "'i icl \<Rightarrow> Resources \<Rightarrow> Resources \<Rightarrow> bool outcome" where
  "equal icl rs that = andThen (contains icl rs that) (\<lambda>b. if b then contains icl that rs else Inr False)"

fun count :: "Resources \<Rightarrow> Resource \<Rightarrow> int outcome" where
  "count [] that = Inr 0"
| "count (r # rs) that =
     andThen (resource_eq (resource r) that) (\<lambda>b.
       if b then Inr (if isShared' r then count' r else 1) else count rs that)"

end
