(* ===== verification/Resources_Invariant.thy ===== *)
theory Resources_Invariant
  imports Resources "HOL-Library.Multiset"
begin

text \<open>
  The invariant of \<open>Resources\<close> and what addition and subtraction do to it. Every entry is well-formed
  and not empty, has a positive counter exactly when it is shared, and no two entries could be
  added together. \<open>stock_of\<close> is the stock of the entries; a shared entry counts once, as it does in the
  accessors of the class. \<open>fits\<close> bounds the total of every scalar by \<open>2 ^ 50\<close> thousandths, the range in which
  the arithmetic on doubles is exact.
\<close>

subsection \<open>The invariant\<close>

definition can_add :: "Resource \<Rightarrow> Resource \<Rightarrow> bool" where
  "can_add l r \<longleftrightarrow> res_key l = res_key r \<and> (if r_shared l then same_value l r else \<not> exclusive l)"

definition can_subtract :: "Resource \<Rightarrow> Resource \<Rightarrow> bool" where
  "can_subtract l r \<longleftrightarrow> res_key l = res_key r \<and> (r_shared l \<or> exclusive l \<longrightarrow> same_value l r)"

definition entry_ok :: "Resource' \<Rightarrow> bool" where
  "entry_ok r \<longleftrightarrow>
     sound (resource r) \<and> amount (resource r) \<noteq> 0 \<and>
     (case sharedCount r of None \<Rightarrow> \<not> r_shared (resource r) | Some n \<Rightarrow> r_shared (resource r) \<and> 1 \<le> n)"

definition apart :: "Resources \<Rightarrow> bool" where
  "apart rs \<longleftrightarrow>
     (\<forall>i < length rs. \<forall>j < length rs. i \<noteq> j \<longrightarrow> \<not> can_add (resource (rs ! i)) (resource (rs ! j)))"

definition stock_of :: "Resources \<Rightarrow> stock" where
  "stock_of rs = sum_mset (image_mset (\<lambda>r. amount (resource r)) (mset rs))"

definition rs_ok :: "Resources \<Rightarrow> bool" where
  "rs_ok rs \<longleftrightarrow> (\<forall>r \<in> set rs. entry_ok r) \<and> apart rs \<and> fits (stock_of rs)"

lemma total_simps [simp]:
  "stock_of [] = 0" "stock_of (r # rs) = amount (resource r) + stock_of rs" "stock_of (rs @ qs) = stock_of rs + stock_of qs"
  by (simp_all add: stock_of_def)

lemma rs_ok_Nil [simp]: "rs_ok []"
  by (simp add: rs_ok_def apart_def fits_def)

lemma entry_parts:
  assumes "entry_ok r"
  shows "sound (resource r)" and "amount (resource r) \<noteq> 0" and "isShared' r = r_shared (resource r)"
    and "r_shared (resource r) \<Longrightarrow> 1 \<le> count' r"
  using assms by (auto simp: entry_ok_def isShared'_def count'_def split: option.splits)

lemma entry_wrap: "sound r \<Longrightarrow> amount r \<noteq> 0 \<Longrightarrow> entry_ok (wrap r)"
  by (simp add: entry_ok_def wrap_def)

lemma wrap_simps [simp]: "resource (wrap r) = r" "isShared' (wrap r) = r_shared r" "count' (wrap r) = (if r_shared r then 1 else 0)"
  by (simp_all add: wrap_def isShared'_def count'_def)

lemma isEmpty_entry: "entry_ok r \<Longrightarrow> isEmpty' r = Inr False"
  using entry_parts [of r] amount_empty [of "resource r"] by (auto simp: isEmpty'_def)

lemma isEmpty_wrap: "sound r \<Longrightarrow> isEmpty' (wrap r) = Inr (amount r = 0)"
  by (simp add: isEmpty'_def amount_empty)

subsection \<open>Lists with an entry replaced or removed\<close>

lemma remove_at_nth:
  assumes "i < length xs" and "j < length (remove_at i xs)"
  shows "remove_at i xs ! j = xs ! (if j = i then length xs - 1 else j)"
proof -
  have "last xs = xs ! (length xs - 1)" using assms(1) by (intro last_conv_nth) auto
  with assms show ?thesis by (auto simp: remove_at_def nth_butlast)
qed

lemma length_remove_at [simp]: "length (remove_at i xs) = length xs - 1"
  by (simp add: remove_at_def)

lemma mset_remove_at:
  assumes "i < length xs"
  shows "add_mset (xs ! i) (mset (remove_at i xs)) = mset xs"
proof (cases "i = length xs - 1")
  case True
  moreover have "xs \<noteq> []" using assms by auto
  ultimately have "xs ! i = last xs" "remove_at i xs = butlast xs"
    by (simp_all add: remove_at_def last_conv_nth)
  then have "xs = remove_at i xs @ [xs ! i]" using \<open>xs \<noteq> []\<close> by simp
  then show ?thesis by (metis add_mset_add_single mset.simps mset_append)
next
  case False
  let ?ys = "xs[i := last xs]"
  have "?ys \<noteq> []" using assms by auto
  then have "mset ?ys = add_mset (last ?ys) (mset (butlast ?ys))"
    by (metis add_mset_add_single append_butlast_last_id mset.simps mset_append)
  moreover have "last ?ys = last xs"
    using assms False last_list_update [of xs i "last xs"] by fastforce
  moreover have "mset ?ys = add_mset (last xs) (mset xs - {#xs ! i#})" using assms by (simp add: mset_update)
  ultimately have "mset (remove_at i xs) = mset xs - {#xs ! i#}" by (simp add: remove_at_def)
  then show ?thesis using assms by simp
qed

lemma total_split:
  assumes "i < length xs"
  obtains rest where "stock_of xs = amount (resource (xs ! i)) + rest"
    and "\<And>x. stock_of (xs[i := x]) = amount (resource x) + rest"
    and "\<And>x. stock_of (remove_at i (xs[i := x])) = rest"
proof -
  let ?rest = "sum_mset (image_mset (\<lambda>r. amount (resource r)) (mset xs - {#xs ! i#}))"
  have "mset xs = add_mset (xs ! i) (mset xs - {#xs ! i#})" using assms by simp
  then have "stock_of xs = amount (resource (xs ! i)) + ?rest"
    unfolding stock_of_def by (metis (no_types) image_mset_add_mset sum_mset.add_mset)
  moreover have "mset (xs[i := x]) = add_mset x (mset xs - {#xs ! i#})" for x
    using assms by (simp add: mset_update)
  moreover from this have "mset (remove_at i (xs[i := x])) = mset xs - {#xs ! i#}" for x
    using mset_remove_at [of i "xs[i := x]"] assms by simp
  ultimately show ?thesis using that [of ?rest] by (simp add: stock_of_def)
qed

lemma total_update_same:
  assumes "amount (resource x) = amount (resource (xs ! i))"
  shows "stock_of (xs[i := x]) = stock_of xs"
proof (cases "i < length xs")
  case True
  then obtain rest where "stock_of xs = amount (resource (xs ! i)) + rest"
      "stock_of (xs[i := x]) = amount (resource x) + rest"
    using total_split by metis
  with assms show ?thesis by simp
qed (simp add: not_less list_update_beyond)

lemma set_remove_at: "i < length xs \<Longrightarrow> set (remove_at i xs) \<subseteq> set xs"
  by (metis mset_remove_at mset_subset_eq_add_right set_mset_mono set_mset_mset add_mset_add_single
      mset_subset_eq_add_left)

lemma apart_remove_at:
  assumes "apart xs" and i: "i < length xs"
  shows "apart (remove_at i xs)"
  unfolding apart_def
proof (intro allI impI)
  fix j k
  assume jk: "j < length (remove_at i xs)" "k < length (remove_at i xs)" "j \<noteq> k"
  let ?f = "\<lambda>j. if j = i then length xs - 1 else j"
  have "?f j < length xs" "?f k < length xs" "?f j \<noteq> ?f k" using i jk by auto
  then have "\<not> can_add (resource (xs ! ?f j)) (resource (xs ! ?f k))"
    using assms(1) by (simp add: apart_def)
  then show "\<not> can_add (resource (remove_at i xs ! j)) (resource (remove_at i xs ! k))"
    using remove_at_nth [OF i jk(1)] remove_at_nth [OF i jk(2)] by simp
qed

lemma can_add_sym: "can_add l r \<Longrightarrow> can_add r l"
proof -
  assume *: "can_add l r"
  then have k: "res_key l = res_key r" by (simp add: can_add_def)
  then have "r_type l = r_type r" by (simp add: res_key_def)
  with * shared_key [OF k] exclusive_key [OF k] show ?thesis by (auto simp: can_add_def same_value_def split: Value_Type.splits)
qed

text \<open>Replacing an entry by one that differs in its quantity only, and only when it is not shared.\<close>

definition alike :: "Resource \<Rightarrow> Resource \<Rightarrow> bool" where
  "alike l r \<longleftrightarrow> res_key l = res_key r \<and> (r_shared l \<longrightarrow> same_value l r)"

lemma can_add_alike:
  assumes "alike x y" and "can_add x z"
  shows "can_add y z"
proof -
  have k: "res_key x = res_key y" using assms(1) by (simp add: alike_def)
  then have "r_type x = r_type y" by (simp add: res_key_def)
  moreover note shared_key [OF k] exclusive_key [OF k]
  moreover have "same_value y z" if "same_value x y" "same_value x z" "r_type x = r_type y"
    using that by (cases "r_type y") (simp_all add: same_value_def)
  ultimately show ?thesis
    using assms unfolding can_add_def alike_def by (cases "r_shared y") simp_all
qed

lemma apart_update:
  assumes "apart xs" and "alike (resource x) (resource (xs ! i))"
  shows "apart (xs[i := x])"
proof (cases "i < length xs")
  case i: True
  have "\<not> can_add (resource (xs[i := x] ! j)) (resource (xs[i := x] ! k))"
    if jk: "j < length xs" "k < length xs" "j \<noteq> k" for j k
  proof
    assume c: "can_add (resource (xs[i := x] ! j)) (resource (xs[i := x] ! k))"
    have "can_add (resource (xs ! j)) (resource (xs ! k))"
    proof (cases "j = i")
      case True
      with c jk i have "can_add (resource x) (resource (xs ! k))" by simp
      from can_add_alike [OF assms(2) this] show ?thesis using True by simp
    next
      case j: False
      show ?thesis
      proof (cases "k = i")
        case True
        with c jk i j have "can_add (resource (xs ! j)) (resource x)" by simp
        from can_add_alike [OF assms(2) can_add_sym [OF this]] show ?thesis
          using True by (simp add: can_add_sym)
      qed (use c j in simp)
    qed
    then show False using assms(1) jk by (simp add: apart_def)
  qed
  then show ?thesis by (simp add: apart_def)
qed (use assms in \<open>simp add: not_less list_update_beyond\<close>)

lemma apart_append:
  assumes "apart xs" and "\<And>r. r \<in> set xs \<Longrightarrow> \<not> can_add (resource r) (resource x)"
  shows "apart (xs @ [x])"
  unfolding apart_def
proof (intro allI impI)
  fix i j
  assume "i < length (xs @ [x])" "j < length (xs @ [x])" "i \<noteq> j"
  then consider "i < length xs" "j < length xs" "i \<noteq> j" | "i = length xs" "j < length xs"
    | "i < length xs" "j = length xs"
    by force
  then show "\<not> can_add (resource ((xs @ [x]) ! i)) (resource ((xs @ [x]) ! j))"
  proof cases
    case 1
    then show ?thesis using assms(1) by (simp add: apart_def nth_append)
  next
    case 2
    then show ?thesis using assms(2) [of "xs ! j"] can_add_sym by (auto simp: nth_append)
  next
    case 3
    then show ?thesis using assms(2) [of "xs ! i"] by (auto simp: nth_append)
  qed
qed

subsection \<open>The loops\<close>

lemma add_loop_find:
  assumes "\<forall>r \<in> set rs. sound (resource r)" and "sound (resource that)"
  shows "add_loop that rs =
    (case find_idx (\<lambda>r. can_add (resource r) (resource that)) rs of
       None \<Rightarrow> Inr (rs @ [that])
     | Some i \<Rightarrow> andThen (add_to' (rs ! i) that) (\<lambda>r. Inr (rs[i := r])))"
  using assms
proof (induction rs)
  case (Cons r rs)
  then have "addable (resource r) (resource that) = Inr (can_add (resource r) (resource that))"
    by (simp add: addable_key can_add_def)
  with Cons show ?case
    by (cases "find_idx (\<lambda>r. can_add (resource r) (resource that)) rs")
      (auto simp: andThen_def split: sum.splits)
qed simp

lemma subtract_loop_find:
  assumes "\<forall>r \<in> set rs. sound (resource r)" and "sound (resource that)"
  shows "subtract_loop icl that front rs =
    (case find_idx (\<lambda>r. can_subtract (resource r) (resource that)) rs of
       None \<Rightarrow> Inr (front @ rs)
     | Some i \<Rightarrow> andThen (sub_from' icl (rs ! i) that) (\<lambda>r.
         andThen (if negative r then Inr True else isEmpty' r) (\<lambda>gone.
           let xs = (front @ rs)[length front + i := r]
           in Inr (if gone then remove_at (length front + i) xs else xs))))"
  using assms
proof (induction rs arbitrary: front)
  case (Cons r rs)
  then have "subtractable (resource r) (resource that) = Inr (can_subtract (resource r) (resource that))"
    by (simp add: subtractable_key can_subtract_def)
  moreover have "(front @ r # rs)[length front + Suc i := x] = front @ r # rs[i := x]" for i x
    by (simp add: list_update_append)
  ultimately show ?case
    using Cons.IH [of "front @ [r]"] Cons.prems
    by (cases "find_idx (\<lambda>r. can_subtract (resource r) (resource that)) rs") (simp_all add: Let_def cong: if_cong)
qed simp

subsection \<open>Addition and subtraction\<close>

lemma stock_zero_add: "a + b = (0 :: stock) \<Longrightarrow> a = 0"
proof -
  assume *: "a + b = 0"
  have "stk_scalar (a + b) n = 0" for n unfolding * by simp
  moreover have "stk_numbers (a + b) = {}" "stk_items (a + b) = {}" unfolding * by simp_all
  ultimately show "a = 0" by (intro stock_eqI) simp_all
qed

lemma rs_ok_sound: "rs_ok rs \<Longrightarrow> \<forall>r \<in> set rs. sound (resource r)"
  by (auto simp: rs_ok_def dest: entry_parts)

lemma rs_ok_update:
  assumes "rs_ok rs" and "entry_ok x" and "alike (resource x) (resource (rs ! i))" and "fits (stock_of (rs[i := x]))"
  shows "rs_ok (rs[i := x])"
  using assms set_update_subset_insert [of rs i x] unfolding rs_ok_def by (auto intro: apart_update)

lemma rs_ok_remove:
  assumes "rs_ok rs" and "i < length rs"
  shows "rs_ok (remove_at i (rs[i := x]))"
proof -
  obtain rest where t: "stock_of rs = amount (resource (rs ! i)) + rest" "stock_of (remove_at i (rs[i := x])) = rest"
    using total_split [OF assms(2)] by metis
  have "rs \<noteq> []" using assms(2) by auto
  then have "remove_at i (rs[i := x]) = remove_at i rs"
    using assms(2) last_list_update [of rs i x]
    by (cases "i = length rs - 1") (auto simp: remove_at_def butlast_list_update)
  with t assms show ?thesis
    using set_remove_at [of i rs] apart_remove_at [of rs i] fits_add(2) [of "amount (resource (rs ! i))" rest]
    by (auto simp: rs_ok_def)
qed

lemma alike_refl [simp]: "sound r \<Longrightarrow> alike r r"
  by (auto simp: alike_def same_value_def sound_def value_ok_def split: Value_Type.splits)

lemma rs_ok_nth: "rs_ok rs \<Longrightarrow> i < length rs \<Longrightarrow> entry_ok (rs ! i)"
  by (simp add: rs_ok_def)

lemma fits_nth: "rs_ok rs \<Longrightarrow> i < length rs \<Longrightarrow> fits (amount (resource (rs ! i)))"
  using total_split [of i rs] fits_add(1) unfolding rs_ok_def by metis

subsubsection \<open>One entry\<close>

lemma add_to_entry:
  assumes e: "entry_ok e" and that: "entry_ok that" and c: "can_add (resource e) (resource that)"
    and f: "fits (amount (resource e) + amount (resource that))"
  shows "returns (add_to' e that) (\<lambda>x. entry_ok x \<and> alike (resource x) (resource e) \<and>
    amount (resource x) = amount (resource e) + (if r_shared (resource that) then 0 else amount (resource that)))"
proof -
  have k: "res_key (resource e) = res_key (resource that)" using c by (simp add: can_add_def)
  note sh = shared_key [OF k] entry_parts(3) [OF e] entry_parts(3) [OF that]
  show ?thesis
  proof (cases "r_shared (resource that)")
    case True
    then have "add_to' e that = Inr (e\<lparr>sharedCount := Some (count' e + count' that)\<rparr>)"
      using sh by (simp add: add_to'_def isShared'_def)
    with True e entry_parts(4) [OF e] entry_parts(4) [OF that] sh show ?thesis
      by (auto simp: entry_ok_def)
  next
    case False
    from resource_add_amount [OF entry_parts(1) [OF e] entry_parts(1) [OF that] k f]
    obtain x where x: "resource_add_to (resource e) (resource that) = Inr x" "sound x"
      "res_key x = res_key (resource e)" "amount x = amount (resource e) + amount (resource that)"
      by (auto simp: returns_iff)
    have "\<not> r_shared x" using shared_key [OF x(3)] sh False by simp
    moreover have "amount x \<noteq> 0" using entry_parts(2) [OF e] stock_zero_add x(4) by metis
    ultimately have "entry_ok (e\<lparr>resource := x\<rparr>)" "alike x (resource e)"
      using e sh False x(2,3) by (auto simp: entry_ok_def alike_def split: option.splits)
    moreover have "add_to' e that = Inr (e\<lparr>resource := x\<rparr>)" using sh False x(1) by (simp add: add_to'_def)
    ultimately show ?thesis using x(4) False by simp
  qed
qed

text \<open>What \<open>subtract\<close> does with the entry it finds: the new entry and whether it is to be removed.\<close>

definition reduced :: "'i icl \<Rightarrow> Resource' \<Rightarrow> Resource' \<Rightarrow> (Resource' \<times> bool) outcome" where
  "reduced icl e that = andThen (sub_from' icl e that) (\<lambda>r.
     andThen (if negative r then Inr True else isEmpty' r) (\<lambda>gone. Inr (r, gone)))"

lemma reduced_contained:
  assumes icl: "interval_set icl elements icl_inv" and e: "entry_ok e" and that: "entry_ok that"
    and c: "can_subtract (resource e) (resource that)" and le: "value_le (resource that) (resource e)"
    and sh: "\<not> r_shared (resource that)" and f: "fits (amount (resource e))"
  shows "returns (reduced icl e that) (\<lambda>(x, gone).
    amount (resource x) + amount (resource that) = amount (resource e) \<and>
    stk_apart (amount (resource x)) (amount (resource that)) \<and>
    (if gone then amount (resource x) = 0 else entry_ok x \<and> alike (resource x) (resource e)))"
proof -
  have k: "res_key (resource e) = res_key (resource that)" using c by (simp add: can_subtract_def)
  have ne: "\<not> r_shared (resource e)" "\<not> isShared' e" using shared_key [OF k] sh entry_parts(3) [OF e] by simp_all
  from resource_sub_amount [OF icl entry_parts(1) [OF e] entry_parts(1) [OF that] k f le]
  obtain x where x: "resource_sub_from icl (resource e) (resource that) = Inr x" "sound x"
    "res_key x = res_key (resource e)" "amount x + amount (resource that) = amount (resource e)"
    "stk_apart (amount x) (amount (resource that))"
    by (auto simp: returns_iff)
  let ?x = "e\<lparr>resource := x\<rparr>"
  have nx: "\<not> r_shared x" "\<not> isShared' ?x" using shared_key [OF x(3)] ne by (simp_all add: isShared'_def)
  have "\<not> negative ?x" "isEmpty' ?x = Inr (amount x = 0)"
    using nx sound_parts(3) [OF x(2)] amount_empty [OF x(2)] by (auto simp: negative_def isEmpty'_def value_ok_def)
  then have "reduced icl e that = Inr (?x, amount x = 0)"
    using ne x(1) by (simp add: reduced_def sub_from'_def)
  moreover have "entry_ok ?x" if "amount x \<noteq> 0"
    using that e nx ne x(2) by (auto simp: entry_ok_def split: option.splits)
  ultimately show ?thesis using x(3,4,5) nx by (simp add: alike_def)
qed

lemma reduced_any:
  assumes icl: "interval_set icl elements icl_inv" and e: "entry_ok e" and that: "entry_ok that"
    and c: "can_subtract (resource e) (resource that)"
    and f: "fits (amount (resource e))" "fits (amount (resource that))"
  shows "returns (reduced icl e that) (\<lambda>(x, gone).
    gone \<or> entry_ok x \<and> alike (resource x) (resource e) \<and>
      (\<forall>n. stk_scalar (amount (resource x)) n \<le> stk_scalar (amount (resource e)) n))"
proof -
  have k: "res_key (resource e) = res_key (resource that)" using c by (simp add: can_subtract_def)
  note sh = shared_key [OF k] entry_parts(3) [OF e] entry_parts(3) [OF that]
  note se = entry_parts(1) [OF e]
  show ?thesis
  proof (cases "r_shared (resource that)")
    case True
    let ?x = "e\<lparr>sharedCount := Some (count' e - count' that)\<rparr>"
    have "sub_from' icl e that = Inr ?x" using True sh by (simp add: sub_from'_def isShared'_def)
    moreover have "\<not> (r_type (resource e) = SCALAR \<and> scalar (resource e) < 0)"
      using sound_parts(3) [OF se] by (auto simp: value_ok_def)
    then have "negative ?x \<longleftrightarrow> count' e - count' that < 0" by (auto simp: negative_def isShared'_def count'_def)
    moreover have "isEmpty' ?x = Inr (count' e - count' that = 0)"
      using amount_empty [OF se] entry_parts(2) [OF e] by (auto simp: isEmpty'_def isShared'_def count'_def)
    moreover have "entry_ok ?x" if "0 < count' e - count' that"
      using that e True sh by (auto simp: entry_ok_def)
    ultimately show ?thesis
      using se by (cases "count' e" "count' that" rule: linorder_cases) (auto simp: reduced_def)
  next
    case False
    from resource_sub_any [OF icl se entry_parts(1) [OF that] k f]
    obtain x where x: "resource_sub_from icl (resource e) (resource that) = Inr x"
      "res_key x = res_key (resource e)" and
      d: "r_type x = SCALAR \<and> scalar x < 0 \<or>
        sound x \<and> (\<forall>n. stk_scalar (amount x) n \<le> stk_scalar (amount (resource e)) n)"
      by (auto simp: returns_iff)
    let ?x = "e\<lparr>resource := x\<rparr>"
    have nx: "\<not> r_shared x" "\<not> isShared' ?x" using shared_key [OF x(2)] sh False by (simp_all add: isShared'_def)
    have s: "sub_from' icl e that = Inr ?x" using False sh x(1) by (simp add: sub_from'_def)
    from d show ?thesis
    proof
      assume "r_type x = SCALAR \<and> scalar x < 0"
      then have "negative ?x" by (simp add: negative_def)
      with s show ?thesis by (simp add: reduced_def)
    next
      assume sx: "sound x \<and> (\<forall>n. stk_scalar (amount x) n \<le> stk_scalar (amount (resource e)) n)"
      have "isEmpty' ?x = Inr (amount x = 0)" using nx amount_empty [of x] sx by (simp add: isEmpty'_def)
      moreover have "entry_ok ?x" if "amount x \<noteq> 0"
        using that e nx sh False sx by (auto simp: entry_ok_def split: option.splits)
      ultimately show ?thesis using s sx x(2) nx by (auto simp: reduced_def alike_def)
    qed
  qed
qed

subsubsection \<open>The whole collection\<close>

text \<open>
  Addition keeps the invariant and adds the amount, unless it only counts one more copy of a
  shared resource.
\<close>

lemma add_entry:
  assumes rs: "rs_ok rs" and that: "entry_ok that" and f: "fits (stock_of rs + amount (resource that))"
  shows "returns (add that rs) (\<lambda>x. rs_ok x \<and> stock_of x =
    (if r_shared (resource that) \<and> (\<exists>r \<in> set rs. can_add (resource r) (resource that)) then stock_of rs
     else stock_of rs + amount (resource that)))"
proof -
  have eq: "add that rs = (case find_idx (\<lambda>r. can_add (resource r) (resource that)) rs of
      None \<Rightarrow> Inr (rs @ [that]) | Some i \<Rightarrow> andThen (add_to' (rs ! i) that) (\<lambda>r. Inr (rs[i := r])))"
    using add_loop_find [OF rs_ok_sound [OF rs] entry_parts(1) [OF that]] by (simp add: add_def isEmpty_entry [OF that])
  show ?thesis
  proof (cases "find_idx (\<lambda>r. can_add (resource r) (resource that)) rs")
    case None
    then have no: "\<forall>r \<in> set rs. \<not> can_add (resource r) (resource that)" by (simp add: find_idx_None)
    with rs that f have "rs_ok (rs @ [that])"
      by (auto simp: rs_ok_def intro!: apart_append)
    with None no show ?thesis by (auto simp: eq)
  next
    case (Some i)
    then have i: "i < length rs" and c: "can_add (resource (rs ! i)) (resource that)"
      by (simp_all add: find_idx_Some_iff)
    obtain rest where t: "stock_of rs = amount (resource (rs ! i)) + rest"
      "\<And>x. stock_of (rs[i := x]) = amount (resource x) + rest"
      using total_split [OF i] by metis
    have "fits (amount (resource (rs ! i)) + amount (resource that))"
      using f fits_add(1) [of "amount (resource (rs ! i)) + amount (resource that)" rest]
      by (simp add: t ac_simps)
    from add_to_entry [OF rs_ok_nth [OF rs i] that c this]
    obtain x where x: "add_to' (rs ! i) that = Inr x" "entry_ok x" "alike (resource x) (resource (rs ! i))"
      "amount (resource x) = amount (resource (rs ! i)) + (if r_shared (resource that) then 0 else amount (resource that))"
      by (auto simp: returns_iff)
    then have tot: "stock_of (rs[i := x]) = (if r_shared (resource that) then stock_of rs else stock_of rs + amount (resource that))"
      by (simp add: t ac_simps)
    moreover have "fits (stock_of (rs[i := x]))" using f rs by (simp add: tot rs_ok_def)
    then have "rs_ok (rs[i := x])" using rs x by (intro rs_ok_update)
    moreover have "\<exists>r \<in> set rs. can_add (resource r) (resource that)" using i c nth_mem by blast
    ultimately show ?thesis using Some x(1) by (simp add: eq)
  qed
qed

lemma subtract_find:
  assumes rs: "rs_ok rs" and that: "entry_ok that"
  shows "subtract icl that rs =
    (case find_idx (\<lambda>r. can_subtract (resource r) (resource that)) rs of
       None \<Rightarrow> Inr rs
     | Some i \<Rightarrow> andThen (reduced icl (rs ! i) that) (\<lambda>(x, gone).
         Inr (if gone then remove_at i (rs[i := x]) else rs[i := x])))"
proof -
  have *: "andThen (andThen a (\<lambda>r. andThen (p r) (\<lambda>g. Inr (r, g)))) (\<lambda>(x, g). q x g) =
      andThen a (\<lambda>r. andThen (p r) (\<lambda>g. q r g))" for a p q
    by (auto simp: andThen_def split: sum.splits)
  show ?thesis
    using subtract_loop_find [OF rs_ok_sound [OF rs] entry_parts(1) [OF that], of icl "[]"]
    by (simp add: subtract_def isEmpty_entry [OF that] reduced_def * Let_def cong: option.case_cong if_cong)
qed

text \<open>The entry that contains a resource is the one that \<open>subtract\<close> finds.\<close>

lemma find_contained:
  assumes rs: "rs_ok rs" and r: "r \<in> set rs" and th: "entry_ok that" "\<not> r_shared (resource that)"
    and c: "can_subtract (resource r) (resource that)" "value_le (resource that) (resource r)"
  obtains i where "find_idx (\<lambda>r. can_subtract (resource r) (resource that)) rs = Some i" and "i < length rs"
    and "can_subtract (resource (rs ! i)) (resource that)" and "value_le (resource that) (resource (rs ! i))"
proof -
  obtain j where j: "j < length rs" "rs ! j = r" using r by (metis in_set_conv_nth)
  obtain i where i: "find_idx (\<lambda>r. can_subtract (resource r) (resource that)) rs = Some i"
    using r c(1) find_idx_None [of "\<lambda>r. can_subtract (resource r) (resource that)" rs] by fastforce
  then have l: "i < length rs" and ci: "can_subtract (resource (rs ! i)) (resource that)"
    by (simp_all add: find_idx_Some_iff)
  have k: "res_key (resource (rs ! i)) = res_key (resource r)" "res_key (resource (rs ! i)) = res_key (resource that)"
    using ci c(1) by (simp_all add: can_subtract_def)
  have "value_le (resource that) (resource (rs ! i))"
  proof (cases "exclusive (resource (rs ! i))")
    case True
    then show ?thesis using ci same_value_le k(2) by (auto simp: can_subtract_def res_key_def)
  next
    case False
    then have "can_add (resource (rs ! i)) (resource r)"
      using k shared_key [OF k(2)] th(2) by (simp add: can_add_def)
    then have "i = j" using rs l j by (auto simp: rs_ok_def apart_def)
    then show ?thesis using j c(2) by simp
  qed
  with i l ci show ?thesis by (rule that)
qed

lemma subtract_contained:
  assumes icl: "interval_set icl elements icl_inv" and rs: "rs_ok rs" and r: "r \<in> set rs"
    and th: "entry_ok that" "\<not> r_shared (resource that)"
    and c: "can_subtract (resource r) (resource that)" "value_le (resource that) (resource r)"
  shows "returns (subtract icl that rs) (\<lambda>x. rs_ok x \<and> stock_of x + amount (resource that) = stock_of rs)"
proof -
  obtain i where i: "find_idx (\<lambda>r. can_subtract (resource r) (resource that)) rs = Some i" "i < length rs"
    "can_subtract (resource (rs ! i)) (resource that)" "value_le (resource that) (resource (rs ! i))"
    using find_contained [OF rs r th c] .
  obtain rest where t: "stock_of rs = amount (resource (rs ! i)) + rest"
    "\<And>x. stock_of (rs[i := x]) = amount (resource x) + rest" "\<And>x. stock_of (remove_at i (rs[i := x])) = rest"
    using total_split [OF i(2)] by metis
  from reduced_contained [OF icl rs_ok_nth [OF rs i(2)] th(1) i(3,4) th(2) fits_nth [OF rs i(2)]]
  obtain x gone where x: "reduced icl (rs ! i) that = Inr (x, gone)"
    "amount (resource x) + amount (resource that) = amount (resource (rs ! i))"
    "if gone then amount (resource x) = 0 else entry_ok x \<and> alike (resource x) (resource (rs ! i))"
    by (auto simp: returns_iff)
  have tot: "stock_of rs = stock_of (rs[i := x]) + amount (resource that)"
    by (simp add: t x(2) [symmetric] ac_simps)
  show ?thesis
  proof (cases gone)
    case True
    with x t show ?thesis
      using rs_ok_remove [OF rs i(2)] by (simp add: subtract_find [OF rs th(1)] i(1) ac_simps)
  next
    case False
    have "fits (stock_of (rs[i := x]))" using rs tot by (auto simp: rs_ok_def dest: fits_add(1))
    with False x have "rs_ok (rs[i := x])" using rs by (intro rs_ok_update) simp_all
    with False x tot show ?thesis by (simp add: subtract_find [OF rs th(1)] i(1))
  qed
qed

lemma subtract_entry:
  assumes icl: "interval_set icl elements icl_inv" and rs: "rs_ok rs" and th: "entry_ok that"
    and f: "fits (amount (resource that))"
  shows "returns (subtract icl that rs) rs_ok"
proof (cases "find_idx (\<lambda>r. can_subtract (resource r) (resource that)) rs")
  case None
  then show ?thesis using rs by (simp add: subtract_find [OF rs th])
next
  case (Some i)
  then have i: "i < length rs" "can_subtract (resource (rs ! i)) (resource that)"
    by (simp_all add: find_idx_Some_iff)
  obtain rest where t: "stock_of rs = amount (resource (rs ! i)) + rest"
    "\<And>x. stock_of (rs[i := x]) = amount (resource x) + rest"
    using total_split [OF i(1)] by metis
  from reduced_any [OF icl rs_ok_nth [OF rs i(1)] th i(2) fits_nth [OF rs i(1)] f]
  obtain x gone where x: "reduced icl (rs ! i) that = Inr (x, gone)"
    "gone \<or> entry_ok x \<and> alike (resource x) (resource (rs ! i)) \<and>
      (\<forall>n. stk_scalar (amount (resource x)) n \<le> stk_scalar (amount (resource (rs ! i))) n)"
    by (auto simp: returns_iff)
  show ?thesis
  proof (cases gone)
    case True
    with x show ?thesis using rs_ok_remove [OF rs i(1)] by (simp add: subtract_find [OF rs th] Some)
  next
    case False
    with x(2) have "fits (stock_of (rs[i := x]))"
      using rs unfolding rs_ok_def t fits_def stock_sel by (meson add_le_mono1 le_trans)
    with False x have "rs_ok (rs[i := x])" using rs by (intro rs_ok_update) simp_all
    with False x show ?thesis by (simp add: subtract_find [OF rs th] Some)
  qed
qed

end
