(* ===== verification/Resources_Queries.thy ===== *)
theory Resources_Queries
  imports Resources_Invariant
begin

text \<open>
  The members of \<open>Resources\<close> (\<open>liburb/source/resources.cpp\<close>) that select, convert and total resources:
  filters, the maps by role, the reservation stack, the accessors by name and \<open>find\<close>. A \<open>hashmap\<close>
  is a partial function; iteration over one does not occur here.
\<close>

subsection \<open>Allocation\<close>

definition allocate :: "string \<Rightarrow> Resources \<Rightarrow> Resources" where
  "allocate role rs = map (\<lambda>r. r\<lparr>resource := (resource r)\<lparr>r_allocation_info := Some (Some role)\<rparr>\<rparr>) rs"

definition unallocate :: "Resources \<Rightarrow> Resources" where
  "unallocate rs =
     map (\<lambda>r. if r_allocation_info (resource r) \<noteq> None
              then r\<lparr>resource := (resource r)\<lparr>r_allocation_info := None\<rparr>\<rparr> else r) rs"

subsection \<open>Filters\<close>

definition filter_resources :: "(Resource \<Rightarrow> bool outcome) \<Rightarrow> Resources \<Rightarrow> Resources outcome" where
  "filter_resources predicate rs =
     foldOutcome (\<lambda>r result. andThen (predicate (resource r)) (\<lambda>b. if b then add r result else Inr result)) rs []"

definition reserved :: "string option \<Rightarrow> Resources \<Rightarrow> Resources outcome" where
  "reserved role = filter_resources (\<lambda>r. isReserved r role)"

definition allocatableTo :: "string \<Rightarrow> Resources \<Rightarrow> Resources outcome" where
  "allocatableTo role = filter_resources (\<lambda>r. isAllocatableTo r role)"

definition unreserved :: "Resources \<Rightarrow> Resources outcome" where
  "unreserved = filter_resources isUnreserved"

definition persistentVolumes :: "Resources \<Rightarrow> Resources outcome" where
  "persistentVolumes = filter_resources isPersistentVolume"

definition revocable :: "Resources \<Rightarrow> Resources outcome" where
  "revocable = filter_resources isRevocable"

definition nonRevocable :: "Resources \<Rightarrow> Resources outcome" where
  "nonRevocable = filter_resources (\<lambda>r. andThen (isRevocable r) (\<lambda>b. Inr (\<not> b)))"

definition shared :: "Resources \<Rightarrow> Resources outcome" where
  "shared = filter_resources isShared"

definition nonShared :: "Resources \<Rightarrow> Resources outcome" where
  "nonShared = filter_resources (\<lambda>r. andThen (isShared r) (\<lambda>b. Inr (\<not> b)))"

definition get_named :: "string \<Rightarrow> Resources \<Rightarrow> Resources outcome" where
  "get_named name = filter_resources (\<lambda>r. Inr (r_name r = name))"

definition scalars :: "Resources \<Rightarrow> Resources outcome" where
  "scalars = filter_resources (\<lambda>r. Inr (r_type r = SCALAR))"

text \<open>\<open>result[role].add(resource_)\<close> on a map that creates an empty entry for a new key.\<close>

definition add_at :: "string \<Rightarrow> Resource' \<Rightarrow> (string \<rightharpoonup> Resources) \<Rightarrow> (string \<rightharpoonup> Resources) outcome" where
  "add_at role r result =
     andThen (add r (case result role of None \<Rightarrow> [] | Some rs \<Rightarrow> rs)) (\<lambda>rs. Inr (result(role \<mapsto> rs)))"

definition reservations :: "Resources \<Rightarrow> (string \<rightharpoonup> Resources) outcome" where
  "reservations rs =
     foldOutcome (\<lambda>r result.
       andThen (isReserved (resource r) None) (\<lambda>b.
         if b then andThen (reservationRole (resource r)) (\<lambda>role. add_at role r result) else Inr result))
       rs (\<lambda>_. None)"

definition allocations :: "Resources \<Rightarrow> (string \<rightharpoonup> Resources) outcome" where
  "allocations rs =
     foldOutcome (\<lambda>r result.
       require (r_allocation_info (resource r) \<noteq> None)
         (require (root (r_allocation_info (resource r)) \<noteq> None)
           (add_at (str (root (r_allocation_info (resource r)))) r result)))
       rs (\<lambda>_. None)"

subsection \<open>The stack of reservations\<close>

definition pushReservation :: "ReservationInfo \<Rightarrow> Resources \<Rightarrow> Resources outcome" where
  "pushReservation reservation rs =
     foldOutcome (\<lambda>r result.
       let r = r\<lparr>resource := (resource r)\<lparr>r_reservations := r_reservations (resource r) @ [reservation]\<rparr>\<rparr>
       in require (validate (resource r) = None) (add r result)) rs []"

definition popReservation :: "Resources \<Rightarrow> Resources outcome" where
  "popReservation rs =
     foldOutcome (\<lambda>r result.
       require (length (r_reservations (resource r)) > 0)
         (add (r\<lparr>resource := (resource r)\<lparr>r_reservations := butlast (r_reservations (resource r))\<rparr>\<rparr>) result)) rs []"

definition toUnreserved :: "Resources \<Rightarrow> Resources outcome" where
  "toUnreserved rs =
     foldOutcome (\<lambda>r. add (r\<lparr>resource := (resource r)\<lparr>r_reservations := []\<rparr>\<rparr>)) rs []"

definition stripped_scalar :: "Resource \<Rightarrow> Resource outcome" where
  "stripped_scalar r =
     (let scalar = r\<lparr>r_provider_id := None, r_allocation_info := None\<rparr>
      in andThen (isReserved scalar None) (\<lambda>b.
           andThen
             (if b
              then andThen (reservationRole scalar) (\<lambda>role. Inr (scalar\<lparr>r_reservations :=
                     [\<lparr>rsv_type = Some STATIC, rsv_role = Some role, rsv_principal = None, rsv_labels = None\<rparr>]\<rparr>))
              else Inr scalar)
             (\<lambda>scalar. Inr (scalar\<lparr>r_disk := None, r_shared := False\<rparr>))))"

definition createStrippedScalarQuantity :: "Resources \<Rightarrow> Resources outcome" where
  "createStrippedScalarQuantity rs =
     foldOutcome (\<lambda>r stripped.
       if r_type (resource r) = SCALAR
       then andThen (stripped_scalar (resource r)) (\<lambda>scalar. add (wrap scalar) stripped)
       else Inr stripped) rs []"

subsection \<open>Quantities by name\<close>

definition get_scalar :: "string \<Rightarrow> Resources \<Rightarrow> rat option" where
  "get_scalar name rs =
     (case fold (\<lambda>r (acc, found).
               if r_name (resource r) = name \<and> r_type (resource r) = SCALAR
               then (scalar_add acc (scalar (resource r)), True) else (acc, found)) rs (0, False) of
        (acc, found) \<Rightarrow> if found then Some acc else None)"

definition get_set :: "string \<Rightarrow> Resources \<Rightarrow> item_set option" where
  "get_set name rs =
     (case fold (\<lambda>r (acc, found).
               if r_name (resource r) = name \<and> r_type (resource r) = SET
               then (set_add_to acc (items (resource r)), True) else (acc, found)) rs ([], False) of
        (acc, found) \<Rightarrow> if found then Some acc else None)"

definition get_ranges :: "string \<Rightarrow> Resources \<Rightarrow> Ranges option outcome" where
  "get_ranges name rs =
     andThen (foldOutcome (\<lambda>r (acc, found).
               if r_name (resource r) = name \<and> r_type (resource r) = RANGES
               then andThen (ranges_add_to acc (ranges (resource r))) (\<lambda>acc. Inr (acc, True))
               else Inr (acc, found)) rs ([], False))
       (\<lambda>(acc, found). Inr (if found then Some acc else None))"

definition names :: "Resources \<Rightarrow> string set" where
  "names rs = fold (\<lambda>r result. insert (r_name (resource r)) result) rs {}"

definition types :: "Resources \<Rightarrow> (string \<rightharpoonup> Value_Type)" where
  "types rs = fold (\<lambda>r result. result(r_name (resource r) \<mapsto> r_type (resource r))) rs (\<lambda>_. None)"

definition cpus :: "Resources \<Rightarrow> rat option" where
  "cpus rs = get_scalar ''cpus'' rs"

definition gpus :: "Resources \<Rightarrow> rat option" where
  "gpus rs = get_scalar ''gpus'' rs"

text \<open>\<open>Megabytes(static_cast<uint64_t>(value))\<close>, for a value that fits 64 bits.\<close>

definition megabytes :: "rat \<Rightarrow> uint64" where
  "megabytes v = word_of_int \<lfloor>v\<rfloor> * 1024 * 1024"

definition mem :: "Resources \<Rightarrow> uint64 option" where
  "mem rs = map_option megabytes (get_scalar ''mem'' rs)"

definition disk :: "Resources \<Rightarrow> uint64 option" where
  "disk rs = map_option megabytes (get_scalar ''disk'' rs)"

definition ports :: "Resources \<Rightarrow> Ranges option outcome" where
  "ports rs = get_ranges ''ports'' rs"

definition ephemeral_ports :: "Resources \<Rightarrow> Ranges option outcome" where
  "ephemeral_ports rs = get_ranges ''ephemeral_ports'' rs"

subsection \<open>Finding resources\<close>

text \<open>
  \<open>find\<close> walks over a sequence of predicates; for each it looks through the matching resources and either
  completes the target, takes one resource and goes on with the next predicate, or finds
  nothing. The state is what was found, what is left of the collection and what remains to be found.
\<close>

datatype find_result = Done Resources | Next Resources Resources Resources

fun find_inner :: "'i icl \<Rightarrow> Resources \<Rightarrow> Resources \<Rightarrow> Resources \<Rightarrow> Resources \<Rightarrow> find_result outcome" where
  "find_inner icl found acc remaining [] = Inr (Next found acc remaining)"
| "find_inner icl found acc remaining (r # rs) =
     andThen (andThen (of_resource (resource r)) toUnreserved) (\<lambda>unreserved.
       andThen (contains icl unreserved remaining) (\<lambda>b.
         if b
         then andThen
                (foldOutcome (\<lambda>q. add (q\<lparr>resource := (resource q)\<lparr>r_reservations := r_reservations (resource r)\<rparr>\<rparr>))
                  remaining found)
                (\<lambda>found. Inr (Done found))
         else andThen (contains icl remaining unreserved) (\<lambda>b.
                if b
                then andThen (add r found) (\<lambda>found.
                       andThen (subtract icl r acc) (\<lambda>acc.
                         andThen (minus_resources icl remaining unreserved) (\<lambda>remaining.
                           Inr (Next found acc remaining))))
                else find_inner icl found acc remaining rs)))"

fun find_outer :: "'i icl \<Rightarrow> Resources \<Rightarrow> Resources \<Rightarrow> Resources \<Rightarrow> (Resource \<Rightarrow> bool outcome) list \<Rightarrow>
    Resources option outcome" where
  "find_outer icl found acc remaining [] = Inr None"
| "find_outer icl found acc remaining (predicate # predicates) =
     andThen (andThen (filter_resources predicate acc) (find_inner icl found acc remaining)) (\<lambda>x.
       case x of
         Done found \<Rightarrow> Inr (Some found)
       | Next found acc remaining \<Rightarrow> find_outer icl found acc remaining predicates)"

definition find_predicates :: "Resource \<Rightarrow> (Resource \<Rightarrow> bool outcome) list outcome" where
  "find_predicates target =
     andThen (isReserved target None) (\<lambda>b.
       andThen
         (if b then andThen (reservationRole target) (\<lambda>role. Inr [\<lambda>r. isReserved r (Some role)]) else Inr [])
         (\<lambda>ps. Inr (ps @ [isUnreserved, \<lambda>_. Inr True])))"

definition find_resource :: "'i icl \<Rightarrow> Resources \<Rightarrow> Resource \<Rightarrow> Resources option outcome" where
  "find_resource icl rs target =
     andThen (andThen (of_resource target) toUnreserved) (\<lambda>remaining.
       andThen (find_predicates target) (find_outer icl [] rs remaining))"

fun find_targets :: "'i icl \<Rightarrow> Resources \<Rightarrow> Resources \<Rightarrow> Resource list \<Rightarrow> Resources option outcome" where
  "find_targets icl rs acc [] = Inr (Some acc)"
| "find_targets icl rs acc (target # targets) =
     andThen (find_resource icl rs target) (\<lambda>found.
       case found of
         None \<Rightarrow> Inr None
       | Some found \<Rightarrow> andThen (plus_resources acc found) (\<lambda>acc. find_targets icl rs acc targets))"

definition find_resources :: "'i icl \<Rightarrow> Resources \<Rightarrow> Resources \<Rightarrow> Resources option outcome" where
  "find_resources icl rs targets = find_targets icl rs [] (map resource targets)"

subsection \<open>Filters keep the entries that satisfy the predicate\<close>

lemma add_new:
  assumes "\<forall>r \<in> set rs. entry_ok r" and "entry_ok that"
    and "\<forall>r \<in> set rs. \<not> can_add (resource r) (resource that)"
  shows "add that rs = Inr (rs @ [that])"
proof -
  have "\<forall>r \<in> set rs. sound (resource r)" using assms(1) by (auto dest: entry_parts)
  moreover have "find_idx (\<lambda>r. can_add (resource r) (resource that)) rs = None"
    using assms(3) by (simp add: find_idx_None)
  ultimately show ?thesis
    using add_loop_find [of rs that] entry_parts(1) [OF assms(2)] by (simp add: add_def isEmpty_entry [OF assms(2)])
qed

lemma apart_Cons:
  "apart (r # rs) \<longleftrightarrow> (\<forall>q \<in> set rs. \<not> can_add (resource r) (resource q)) \<and> apart rs"
proof
  assume a: "apart (r # rs)"
  have "\<not> can_add (resource r) (resource q)" if q: "q \<in> set rs" for q
  proof -
    obtain j where "j < length rs" "rs ! j = q" using q by (auto simp: in_set_conv_nth)
    then show ?thesis
      using a [unfolded apart_def, rule_format, of 0 "Suc j"] by simp
  qed
  moreover have "\<not> can_add (resource (rs ! i)) (resource (rs ! j))" if "i < length rs" "j < length rs" "i \<noteq> j" for i j
    using a [unfolded apart_def, rule_format, of "Suc i" "Suc j"] that by simp
  ultimately show "(\<forall>q \<in> set rs. \<not> can_add (resource r) (resource q)) \<and> apart rs"
    by (simp add: apart_def)
next
  assume a: "(\<forall>q \<in> set rs. \<not> can_add (resource r) (resource q)) \<and> apart rs"
  then have "\<forall>q \<in> set rs. \<not> can_add (resource q) (resource r)" using can_add_sym by blast
  with a show "apart (r # rs)"
    unfolding apart_def by (simp add: nth_Cons split: nat.split)
qed

lemma apart_append_iff:
  "apart (rs @ qs) \<longleftrightarrow> apart rs \<and> apart qs \<and> (\<forall>r \<in> set rs. \<forall>q \<in> set qs. \<not> can_add (resource r) (resource q))"
proof (induction rs)
  case Nil
  then show ?case by (simp add: apart_def)
next
  case (Cons r rs)
  then show ?case by (auto simp: apart_Cons)
qed

lemma filter_fold:
  assumes "\<forall>r \<in> set (front @ rs). entry_ok r" and "apart (front @ rs)"
    and "\<And>r. r \<in> set rs \<Longrightarrow> predicate (resource r) = Inr (q r)"
  shows "foldOutcome (\<lambda>r result. andThen (predicate (resource r)) (\<lambda>b. if b then add r result else Inr result)) rs front =
    Inr (front @ filter q rs)"
  using assms
proof (induction rs arbitrary: front)
  case (Cons r rs)
  then have "add r front = Inr (front @ [r])" by (intro add_new) (auto simp: apart_append_iff)
  moreover have "apart (front @ rs)" using Cons.prems(2) by (auto simp: apart_append_iff apart_Cons)
  ultimately show ?case
    using Cons.IH [of front] Cons.IH [of "front @ [r]"] Cons.prems by simp
qed simp

lemma filter_resources_filter:
  assumes "rs_ok rs" and "\<And>r. r \<in> set rs \<Longrightarrow> predicate (resource r) = Inr (q r)"
  shows "filter_resources predicate rs = Inr (filter q rs)"
  using filter_fold [of "[]" rs predicate q] assms by (simp add: filter_resources_def rs_ok_def)

lemma stock_of_filter: "stock_of (filter q rs) + stock_of (filter (\<lambda>r. \<not> q r) rs) = stock_of rs"
  by (induction rs) (simp_all add: ac_simps)

lemma rs_ok_filter:
  assumes "rs_ok rs"
  shows "rs_ok (filter q rs)"
proof -
  have "apart (filter q xs)" if "apart xs" for xs using that by (induction xs) (auto simp: apart_Cons)
  moreover have "fits (stock_of (filter q rs))"
    using assms stock_of_filter [of q rs] fits_add(1) unfolding rs_ok_def by metis
  ultimately show ?thesis using assms by (simp add: rs_ok_def)
qed

subsection \<open>Totals\<close>

lemma entry_scalar:
  assumes "entry_ok r" and "r_type (resource r) = SCALAR"
  shows "0 < convertToFixed (scalar (resource r))"
    and "stk_scalar (amount (resource r)) (r_name (resource r)) = nat (convertToFixed (scalar (resource r)))"
proof -
  have "isEmpty (resource r) = Inr False" using amount_empty entry_parts(1,2) [OF assms(1)] by simp
  moreover have "0 \<le> convertToFixed (scalar (resource r))"
    using sound_parts(3) [OF entry_parts(1) [OF assms(1)]] assms(2) by (simp add: value_ok_def convertToFixed_nonneg)
  ultimately show "0 < convertToFixed (scalar (resource r))"
    using isEmpty_sound [OF entry_parts(1) [OF assms(1)]] assms(2) by auto
  show "stk_scalar (amount (resource r)) (r_name (resource r)) = nat (convertToFixed (scalar (resource r)))"
    using assms(2) by (simp add: amount_def)
qed

lemma other_scalar:
  "\<not> (r_name (resource r) = name \<and> r_type (resource r) = SCALAR) \<Longrightarrow> stk_scalar (amount (resource r)) name = 0"
  by (auto simp: amount_def zero_stock_def split: Value_Type.splits)

lemma convertToFloating_0: "convertToFloating 0 = 0"
  by code_simp

lemma get_scalar_fold:
  assumes "\<forall>r \<in> set rs. entry_ok r" and "m + stk_scalar (stock_of rs) name \<le> 2 ^ 50"
  shows "fold (\<lambda>r (acc, found).
      if r_name (resource r) = name \<and> r_type (resource r) = SCALAR
      then (scalar_add acc (scalar (resource r)), True) else (acc, found)) rs (convertToFloating (int m), found) =
    (convertToFloating (int (m + stk_scalar (stock_of rs) name)), found \<or> 0 < stk_scalar (stock_of rs) name)"
  using assms
proof (induction rs arbitrary: m found)
  case (Cons r rs)
  then have r: "entry_ok r" by simp
  show ?case
  proof (cases "r_name (resource r) = name \<and> r_type (resource r) = SCALAR")
    case True
    let ?v = "convertToFixed (scalar (resource r))"
    have v: "0 < ?v" "stk_scalar (amount (resource r)) name = nat ?v" using entry_scalar [OF r] True by auto
    have "m \<le> 2 ^ 50" using Cons.prems(2) by simp
    then have "\<bar>int m\<bar> \<le> 2 ^ 50" by simp
    then have "scalar_add (convertToFloating (int m)) (scalar (resource r)) = convertToFloating (int (m + nat ?v))"
      using v(1) by (simp add: scalar_add_def fixed_floating)
    with True v Cons.IH [of "m + nat ?v" True] Cons.prems show ?thesis by (simp add: add.assoc)
  next
    case False
    with Cons.IH [of m found] Cons.prems other_scalar [OF False] show ?thesis by auto
  qed
qed simp

lemma get_scalar_stock:
  assumes "rs_ok rs"
  shows "get_scalar name rs =
    (if stk_scalar (stock_of rs) name = 0 then None
     else Some (convertToFloating (int (stk_scalar (stock_of rs) name))))"
proof -
  have "0 + stk_scalar (stock_of rs) name \<le> 2 ^ 50" using assms by (simp add: rs_ok_def fits_def)
  from get_scalar_fold [OF _ this, of False] assms show ?thesis
    unfolding get_scalar_def by (simp add: convertToFloating_0 rs_ok_def)
qed

text \<open>The numbers a stock holds under a name.\<close>

definition numbers :: "string \<Rightarrow> stock \<Rightarrow> uint64 set" where
  "numbers name s = {x. (name, x) \<in> stk_numbers s}"

lemma numbers_simps [simp]: "numbers name 0 = {}" "numbers name (a + b) = numbers name a \<union> numbers name b"
  by (auto simp: numbers_def)

lemma get_ranges_fold:
  assumes "\<forall>r \<in> set rs. entry_ok r" and "list_all valid_range acc"
  shows "returns (foldOutcome (\<lambda>r (acc, found).
      if r_name (resource r) = name \<and> r_type (resource r) = RANGES
      then andThen (ranges_add_to acc (ranges (resource r))) (\<lambda>acc. Inr (acc, True))
      else Inr (acc, found)) rs (acc, found))
    (\<lambda>(x, f). list_all valid_range x \<and> (canonical acc \<longrightarrow> canonical x) \<and>
      ranges_set x = ranges_set acc \<union> numbers name (stock_of rs) \<and>
      f = (found \<or> numbers name (stock_of rs) \<noteq> {}))"
  using assms
proof (induction rs arbitrary: acc found)
  case (Cons r rs)
  then have r: "entry_ok r" by simp
  note v = sound_parts(3) [OF entry_parts(1) [OF r]]
  show ?case
  proof (cases "r_name (resource r) = name \<and> r_type (resource r) = RANGES")
    case True
    with v have vr: "list_all valid_range (ranges (resource r))" by (simp add: value_ok_def)
    have a: "numbers name (amount (resource r)) = ranges_set (ranges (resource r))"
      using True by (auto simp: amount_def numbers_def)
    have "ranges (resource r) \<noteq> []"
      using entry_parts(2) [OF r] True by (auto simp: amount_def zero_stock_def)
    then have ne: "ranges_set (ranges (resource r)) \<noteq> {}" using ranges_set_empty [OF vr] by simp
    have m: "list_all valid_range (acc @ ranges (resource r))" using vr Cons.prems by simp
    show ?thesis
      using Cons.IH [OF _ valid_merged [OF m], of True] Cons.prems True a ne canonical_merged [OF m]
      by (auto simp: ranges_add_to_merged ranges_set_merged elim!: returns_mono)
  next
    case False
    then have "numbers name (amount (resource r)) = {}"
      by (auto simp: amount_def numbers_def zero_stock_def split: Value_Type.splits)
    with False Cons.IH [of acc found] Cons.prems show ?thesis by (auto elim!: returns_mono)
  qed
qed simp

lemma get_ranges_stock:
  assumes "rs_ok rs"
  shows "returns (get_ranges name rs) (\<lambda>x.
    case x of None \<Rightarrow> numbers name (stock_of rs) = {}
    | Some qs \<Rightarrow> canonical qs \<and> ranges_set qs = numbers name (stock_of rs) \<and> qs \<noteq> [])"
proof -
  have "canonical []" by (simp add: canonical_def)
  with get_ranges_fold [of rs "[]" name False] assms show ?thesis
    by (auto simp: get_ranges_def rs_ok_def elim!: returns_mono)
qed

end
