(* ===== verification/Resources_Operations.thy ===== *)
theory Resources_Operations
  imports Resources_Queries
begin

text \<open>
  Offer operations (\<open>Resources::apply\<close> in \<open>liburb/source/resources.cpp\<close>): reserving, unreserving, and creating and
  destroying persistent volumes. Each moves resources from one entry of the collection to
  another; the checks at the end of \<open>apply\<close> require that the totals did not change.
\<close>

subsection \<open>Operations\<close>

record task_info =
  task_resources :: "Resource list"
  task_executor :: "Resource list option"

datatype Operation_Type =
    OP_UNKNOWN | OP_LAUNCH | OP_LAUNCH_GROUP | OP_RESERVE | OP_UNRESERVE | OP_CREATE | OP_DESTROY

text \<open>
  \<open>Offer.Operation\<close>, with the resources its parts carry. A launch holds its tasks, a launch of a group
  the resources of its executor, if any, and its tasks.
\<close>

record Offer_Operation =
  op_type :: Operation_Type
  op_launch :: "task_info list option"
  op_launch_group :: "(Resource list option \<times> task_info list) option"
  op_reserve :: "Resource list option"
  op_unreserve :: "Resource list option"
  op_create :: "Resource list option"
  op_destroy :: "Resource list option"

datatype apply_error =
    InvalidOperand resource_error
  | MustBeReserved | MustBeDynamicallyReserved | NotContained
  | MissingDisk | MissingPersistence | InsufficientDisk | NoSuchVolume | SharedCopies
  | UnknownOperation

subsection \<open>The steps\<close>

definition reserve_step :: "'i icl \<Rightarrow> Resource \<Rightarrow> Resources \<Rightarrow> (apply_error + Resources) outcome" where
  "reserve_step icl r result =
     andThen (isReserved r None) (\<lambda>b.
       if \<not> b then Inr (Inl MustBeReserved)
       else andThen (isDynamicallyReserved r) (\<lambda>d.
         if \<not> d then Inr (Inl MustBeDynamicallyReserved)
         else andThen (andThen (of_resource r) popReservation) (\<lambda>resources.
           andThen (contains icl result resources) (\<lambda>c.
             if \<not> c then Inr (Inl NotContained)
             else andThen (minus_resources icl result resources) (\<lambda>result.
                    andThen (add (wrap r) result) (\<lambda>result. Inr (Inr result)))))))"

definition unreserve_step :: "'i icl \<Rightarrow> Resource \<Rightarrow> Resources \<Rightarrow> (apply_error + Resources) outcome" where
  "unreserve_step icl r result =
     andThen (isReserved r None) (\<lambda>b.
       if \<not> b then Inr (Inl MustBeReserved)
       else andThen (isDynamicallyReserved r) (\<lambda>d.
         if \<not> d then Inr (Inl MustBeDynamicallyReserved)
         else andThen (contains_resource result r) (\<lambda>c.
           if \<not> c then Inr (Inl NotContained)
           else andThen (andThen (of_resource r) popReservation) (\<lambda>resources.
                  andThen (subtract icl (wrap r) result) (\<lambda>result.
                    andThen (plus_resources result resources) (\<lambda>result. Inr (Inr result)))))))"

text \<open>The volume without persistence, volume and sharing, as \<open>CREATE\<close> and \<open>DESTROY\<close> both compute it.\<close>

definition strip_volume :: "Resource \<Rightarrow> Resource" where
  "strip_volume volume =
     (let stripped =
        (case r_disk volume of
           None \<Rightarrow> volume
         | Some d \<Rightarrow> if disk_source d \<noteq> None
                     then volume\<lparr>r_disk := Some (d\<lparr>disk_persistence := None, disk_volume := None\<rparr>)\<rparr>
                     else volume\<lparr>r_disk := None\<rparr>)
      in stripped\<lparr>r_shared := False\<rparr>)"

definition create_step :: "'i icl \<Rightarrow> Resource \<Rightarrow> Resources \<Rightarrow> (apply_error + Resources) outcome" where
  "create_step icl volume result =
     (if r_disk volume = None then Inr (Inl MissingDisk)
      else if \<not> has_persistence volume then Inr (Inl MissingPersistence)
      else let stripped = strip_volume volume
           in andThen (contains_resource result stripped) (\<lambda>c.
                if \<not> c then Inr (Inl InsufficientDisk)
                else andThen (subtract icl (wrap stripped) result) (\<lambda>result.
                       andThen (add (wrap volume) result) (\<lambda>result. Inr (Inr result)))))"

definition destroy_step :: "'i icl \<Rightarrow> Resource \<Rightarrow> Resources \<Rightarrow> (apply_error + Resources) outcome" where
  "destroy_step icl volume result =
     (if r_disk volume = None then Inr (Inl MissingDisk)
      else if \<not> has_persistence volume then Inr (Inl MissingPersistence)
      else andThen (contains_resource result volume) (\<lambda>c.
             if \<not> c then Inr (Inl NoSuchVolume)
             else andThen (subtract icl (wrap volume) result) (\<lambda>result.
                    andThen (contains_resource result volume) (\<lambda>c.
                      if c then Inr (Inl SharedCopies)
                      else andThen (add (wrap (strip_volume volume)) result) (\<lambda>result. Inr (Inr result))))))"

subsection \<open>\<open>apply\<close>\<close>

definition with_operands ::
    "Resource list option \<Rightarrow> (Resource \<Rightarrow> Resources \<Rightarrow> (apply_error + Resources) outcome) \<Rightarrow> Resources \<Rightarrow>
     (apply_error + Resources) outcome" where
  "with_operands operands step rs =
     (case validate_all (repeated operands) of
        Some (r, e) \<Rightarrow> Inr (Inl (InvalidOperand e))
      | None \<Rightarrow> foldTry step (repeated operands) rs)"

definition apply_operation :: "'i icl \<Rightarrow> Offer_Operation \<Rightarrow> Resources \<Rightarrow> (apply_error + Resources) outcome" where
  "apply_operation icl operation rs =
     (case op_type operation of
        OP_LAUNCH \<Rightarrow> Inr (Inr rs)
      | OP_LAUNCH_GROUP \<Rightarrow> Inr (Inr rs)
      | OP_RESERVE \<Rightarrow> with_operands (op_reserve operation) (reserve_step icl) rs
      | OP_UNRESERVE \<Rightarrow> with_operands (op_unreserve operation) (unreserve_step icl) rs
      | OP_CREATE \<Rightarrow> with_operands (op_create operation) (create_step icl) rs
      | OP_DESTROY \<Rightarrow> with_operands (op_destroy operation) (destroy_step icl) rs
      | OP_UNKNOWN \<Rightarrow> Inr (Inl UnknownOperation))"

definition ports_eq_option :: "Ranges option \<Rightarrow> Ranges option \<Rightarrow> bool outcome" where
  "ports_eq_option a b =
     (case (a, b) of
        (None, None) \<Rightarrow> Inr True
      | (Some p, Some q) \<Rightarrow> ranges_eq p q
      | _ \<Rightarrow> Inr False)"

text \<open>The sanity checks on the amounts of the known resource types.\<close>

definition check_totals :: "Resources \<Rightarrow> Resources \<Rightarrow> Resources outcome" where
  "check_totals rs result =
     require (cpus result = cpus rs) (require (gpus result = gpus rs)
       (require (mem result = mem rs) (require (disk result = disk rs)
         (andThen (ports result) (\<lambda>p. andThen (ports rs) (\<lambda>q.
            andThen (ports_eq_option p q) (\<lambda>e. require e (Inr result))))))))"

definition apply_resources :: "'i icl \<Rightarrow> Resources \<Rightarrow> Offer_Operation \<Rightarrow> (apply_error + Resources) outcome" where
  "apply_resources icl rs operation =
     andTry (apply_operation icl operation rs) (\<lambda>result.
       andThen (check_totals rs result) (\<lambda>result. Inr (Inr result)))"

subsection \<open>Moving a resource\<close>

text \<open>An operand: a resource that is not shared, possibly empty.\<close>

definition operand :: "Resource \<Rightarrow> bool" where
  "operand r \<longleftrightarrow> sound r \<and> \<not> r_shared r"

lemma add_wrap:
  assumes "rs_ok rs" and "operand r" and "fits (stock_of rs + amount r)"
  shows "returns (add (wrap r) rs) (\<lambda>x. rs_ok x \<and> stock_of x = stock_of rs + amount r)"
proof (cases "amount r = 0")
  case True
  then show ?thesis using assms isEmpty_wrap [of r] by (simp add: add_def operand_def)
next
  case False
  then have "entry_ok (wrap r)" using assms(2) by (simp add: operand_def entry_wrap)
  from add_entry [OF assms(1) this] assms(2,3) show ?thesis by (simp add: operand_def)
qed

lemma contains_item_operand:
  assumes "\<forall>r \<in> set rs. entry_ok r" and "operand t"
  shows "contains_item rs (wrap t) =
    Inr (\<exists>r \<in> set rs. can_subtract (resource r) t \<and> value_le t (resource r))"
  using assms(1)
proof (induction rs)
  case (Cons r rs)
  then have r: "entry_ok r" by simp
  note k = shared_key [of "resource r" t]
  have "contains' r (wrap t) = Inr (can_subtract (resource r) t \<and> value_le t (resource r))"
    using assms(2) k entry_parts(3) [OF r] resource_contains_key [OF entry_parts(1) [OF r], of t]
    by (auto simp: contains'_def operand_def can_subtract_def)
  with Cons show ?case by auto
qed simp

lemma subtract_wrap:
  assumes icl: "interval_set icl elements icl_inv" and "rs_ok rs" and "operand r"
    and "contains_item rs (wrap r) = Inr True"
  shows "returns (subtract icl (wrap r) rs) (\<lambda>x. rs_ok x \<and> stock_of x + amount r = stock_of rs)"
proof (cases "amount r = 0")
  case True
  then show ?thesis using assms isEmpty_wrap [of r] by (simp add: subtract_def operand_def)
next
  case False
  then have e: "entry_ok (wrap r)" using assms(3) by (simp add: operand_def entry_wrap)
  from assms obtain q where "q \<in> set rs" "can_subtract (resource q) r" "value_le r (resource q)"
    by (auto simp: contains_item_operand rs_ok_def)
  with subtract_contained [OF icl assms(2) _ e] assms(3) show ?thesis by (simp add: operand_def)
qed

text \<open>Taking a contained resource out and adding one of the same amount keeps the stock.\<close>

lemma move_resource:
  assumes icl: "interval_set icl elements icl_inv" and rs: "rs_ok rs" and r: "operand r" "operand q"
    and same: "amount q = amount r" and c: "contains_item rs (wrap r) = Inr True"
  shows "returns (subtract icl (wrap r) rs) (\<lambda>x. rs_ok x \<and> returns (add (wrap q) x)
    (\<lambda>y. rs_ok y \<and> stock_of y = stock_of rs))"
proof (rule returns_mono [OF subtract_wrap [OF icl rs r(1) c]])
  fix x
  assume x: "rs_ok x \<and> stock_of x + amount r = stock_of rs"
  moreover have "fits (stock_of x + amount q)" using x rs same by (simp add: rs_ok_def)
  ultimately show "rs_ok x \<and> returns (add (wrap q) x) (\<lambda>y. rs_ok y \<and> stock_of y = stock_of rs)"
    using add_wrap [of x q] r(2) same by simp
qed

subsection \<open>The operands\<close>

definition pop :: "Resource \<Rightarrow> Resource" where
  "pop r = r\<lparr>r_reservations := butlast (r_reservations r)\<rparr>"

lemma amount_cong:
  assumes "r_name q = r_name r" "r_type q = r_type r" "r_scalar q = r_scalar r" "r_ranges q = r_ranges r" "r_set q = r_set r"
  shows "amount q = amount r"
proof -
  have e: "scalar q = scalar r" "ranges q = ranges r" "items q = items r"
    using assms by (simp_all add: scalar_def ranges_def items_def)
  show ?thesis unfolding amount_def assms e by (rule refl)
qed

lemma value_ok_cong:
  assumes "r_type q = r_type r" "r_scalar q = r_scalar r" "r_ranges q = r_ranges r" "r_set q = r_set r"
  shows "value_ok q = value_ok r"
proof -
  have e: "scalar q = scalar r" "ranges q = ranges r" "items q = items r"
    using assms by (simp_all add: scalar_def ranges_def items_def)
  show ?thesis unfolding value_ok_def assms e by (rule refl)
qed

lemma operand_pop: "operand r \<Longrightarrow> operand (pop r)"
  using value_ok_cong [of "pop r" r]
  by (auto simp: operand_def sound_def post_format_def pop_def list_all_iff dest: in_set_butlastD)

lemma amount_pop [simp]: "amount (pop r) = amount r"
  by (rule amount_cong) (simp_all add: pop_def)

lemma of_resource_operand:
  assumes "operand r" and "validate r = None"
  shows "of_resource r = Inr (if amount r = 0 then [] else [wrap r])"
  using assms isEmpty_wrap [of r]
  by (simp add: of_resource_def plus_resource_def plus_resource'_def validate'_def operand_def add_def)

lemma pop_of_resource:
  assumes "operand r" and "validate r = None" and "r_reservations r \<noteq> []"
  shows "andThen (of_resource r) popReservation = Inr (if amount r = 0 then [] else [wrap (pop r)])"
proof -
  have w: "(wrap r)\<lparr>resource := pop r\<rparr> = wrap (pop r)" by (simp add: wrap_def pop_def)
  have "isEmpty' (wrap (pop r)) = Inr (amount r = 0)"
    using operand_pop [OF assms(1)] isEmpty_wrap [of "pop r"] by (simp add: operand_def)
  with w assms show ?thesis
    by (simp add: of_resource_operand popReservation_def add_def flip: pop_def)
qed

lemma contains_single:
  assumes icl: "interval_set icl elements icl_inv" and rs: "rs_ok rs" and r: "operand r"
  shows "contains icl rs [wrap r] = contains_item rs (wrap r)"
proof -
  have p: "isPersistentVolume r = Inr (has_persistence r)"
    using r by (simp add: isPersistentVolume_def check_format_def operand_def sound_def post_format_def)
  obtain b where b: "contains_item rs (wrap r) = Inr b"
    using contains_item_operand [OF _ r, of rs] rs by (auto simp: rs_ok_def)
  show ?thesis
  proof (cases b)
    case True
    with subtract_wrap [OF icl rs r] b obtain x where "subtract icl (wrap r) rs = Inr x" by (auto simp: returns_iff)
    with True b p show ?thesis by (simp add: contains_def)
  qed (simp add: contains_def b)
qed

lemma operand_strip: "operand r \<Longrightarrow> operand (strip_volume r)"
  using value_ok_cong [of "strip_volume r" r]
  by (auto simp: operand_def sound_def post_format_def strip_volume_def wf_disk_def Let_def split: option.splits)

lemma amount_strip [simp]: "amount (strip_volume r) = amount r"
  by (rule amount_cong) (auto simp: strip_volume_def Let_def split: option.splits)

lemma predicates_operand:
  assumes "operand r"
  shows "isReserved r None = Inr (r_reservations r \<noteq> [])"
    and "isDynamicallyReserved r =
      Inr (r_reservations r \<noteq> [] \<and> reservation_type (last (r_reservations r)) = DYNAMIC)"
  using assms
  by (auto simp: isReserved_def isDynamicallyReserved_def isUnreserved_def check_format_def operand_def sound_def
      post_format_def)

subsection \<open>The steps keep the stock\<close>

definition conserves :: "Resources \<Rightarrow> (apply_error + Resources) outcome \<Rightarrow> bool" where
  "conserves rs r = yields r (\<lambda>x. rs_ok x \<and> stock_of x = stock_of rs)"

lemma reserve_conserves:
  assumes icl: "interval_set icl elements icl_inv" and rs: "rs_ok rs" and r: "operand r" "validate r = None"
  shows "conserves rs (reserve_step icl r rs)"
proof (cases "r_reservations r = [] \<or> reservation_type (last (r_reservations r)) \<noteq> DYNAMIC")
  case True
  then show ?thesis using r by (auto simp: reserve_step_def predicates_operand conserves_def)
next
  case False
  then have ne: "r_reservations r \<noteq> []" and d: "reservation_type (last (r_reservations r)) = DYNAMIC" by simp_all
  note pop = pop_of_resource [OF r ne] and op = operand_pop [OF r(1)]
  show ?thesis
  proof (cases "amount r = 0")
    case True
    then have "add (wrap r) rs = Inr rs" using isEmpty_wrap [of r] r(1) by (simp add: add_def operand_def)
    with True r ne d rs show ?thesis
      by (simp add: reserve_step_def predicates_operand pop contains_def minus_resources_def conserves_def)
  next
    case False
    obtain b where b: "contains_item rs (wrap (pop r)) = Inr b"
      using contains_item_operand [OF _ op, of rs] rs by (auto simp: rs_ok_def)
    have "b \<Longrightarrow> returns (andThen (minus_resources icl rs [wrap (pop r)]) (add (wrap r)))
        (\<lambda>y. rs_ok y \<and> stock_of y = stock_of rs)"
      using move_resource [OF icl rs op r(1)] b
      by (cases "subtract icl (wrap (pop r)) rs") (simp_all add: minus_resources_def)
    then show ?thesis
      using False r ne d b
      by (cases b) (auto simp: reserve_step_def predicates_operand pop contains_single [OF icl rs op] conserves_def
          yields_def returns_iff)
  qed
qed

lemma contains_resource_operand:
  "validate r = None \<Longrightarrow> contains_resource rs r = contains_item rs (wrap r)"
  by (simp add: contains_resource_def)

lemma unreserve_conserves:
  assumes icl: "interval_set icl elements icl_inv" and rs: "rs_ok rs" and r: "operand r" "validate r = None"
  shows "conserves rs (unreserve_step icl r rs)"
proof (cases "r_reservations r = [] \<or> reservation_type (last (r_reservations r)) \<noteq> DYNAMIC")
  case True
  then show ?thesis using r by (auto simp: unreserve_step_def predicates_operand conserves_def)
next
  case False
  then have ne: "r_reservations r \<noteq> []" and d: "reservation_type (last (r_reservations r)) = DYNAMIC" by simp_all
  note pop = pop_of_resource [OF r ne] and op = operand_pop [OF r(1)]
  obtain b where b: "contains_item rs (wrap r) = Inr b"
    using contains_item_operand [OF _ r(1), of rs] rs by (auto simp: rs_ok_def)
  have "b \<Longrightarrow> returns (andThen (subtract icl (wrap r) rs) (add (wrap (pop r))))
      (\<lambda>y. rs_ok y \<and> stock_of y = stock_of rs)"
    using move_resource [OF icl rs r(1) op] b
    by (cases "subtract icl (wrap r) rs") simp_all
  moreover have "plus_resources x (if amount r = 0 then [] else [wrap (pop r)]) = add (wrap (pop r)) x" for x
    using op isEmpty_wrap [of "pop r"] by (cases "add (wrap (pop r)) x") (auto simp: plus_resources_def add_def operand_def)
  ultimately show ?thesis
    using r ne d b
    by (cases b) (auto simp: unreserve_step_def predicates_operand pop contains_resource_operand conserves_def
        yields_def returns_iff)
qed

lemma create_conserves:
  assumes icl: "interval_set icl elements icl_inv" and rs: "rs_ok rs" and r: "operand r"
  shows "conserves rs (create_step icl r rs)"
proof (cases "validate (strip_volume r) = None")
  case True
  note os = operand_strip [OF r]
  obtain b where b: "contains_item rs (wrap (strip_volume r)) = Inr b"
    using contains_item_operand [OF _ os, of rs] rs by (auto simp: rs_ok_def)
  have "b \<Longrightarrow> returns (andThen (subtract icl (wrap (strip_volume r)) rs) (add (wrap r)))
      (\<lambda>y. rs_ok y \<and> stock_of y = stock_of rs)"
    using move_resource [OF icl rs os r] b
    by (cases "subtract icl (wrap (strip_volume r)) rs") simp_all
  with b show ?thesis
    by (cases b) (auto simp: create_step_def contains_resource_operand [OF True] conserves_def yields_def returns_iff)
qed (auto simp: create_step_def contains_resource_def conserves_def)

lemma destroy_conserves:
  assumes icl: "interval_set icl elements icl_inv" and rs: "rs_ok rs" and r: "operand r" "validate r = None"
  shows "conserves rs (destroy_step icl r rs)"
proof -
  note os = operand_strip [OF r(1)]
  obtain b where b: "contains_item rs (wrap r) = Inr b"
    using contains_item_operand [OF _ r(1), of rs] rs by (auto simp: rs_ok_def)
  show ?thesis
  proof (cases b)
    case True
    with move_resource [OF icl rs r(1) os] b
    obtain x where x: "subtract icl (wrap r) rs = Inr x" "rs_ok x"
      "returns (add (wrap (strip_volume r)) x) (\<lambda>y. rs_ok y \<and> stock_of y = stock_of rs)"
      by (auto simp: returns_iff)
    obtain c where "contains_item x (wrap r) = Inr c"
      using contains_item_operand [OF _ r(1), of x] x(2) by (auto simp: rs_ok_def)
    with True b x r show ?thesis
      by (auto simp: destroy_step_def contains_resource_operand conserves_def yields_def returns_iff)
  qed (use b r in \<open>auto simp: destroy_step_def contains_resource_operand conserves_def\<close>)
qed

lemma check_totals_ok:
  assumes rs: "rs_ok rs" and x: "rs_ok x" and s: "stock_of x = stock_of rs"
  shows "check_totals rs x = Inr x"
proof -
  have g: "get_scalar name x = get_scalar name rs" for name
    by (simp add: get_scalar_stock [OF rs] get_scalar_stock [OF x] s)
  obtain p where p: "get_ranges ''ports'' x = Inr p" "case p of None \<Rightarrow> numbers ''ports'' (stock_of rs) = {}
      | Some qs \<Rightarrow> canonical qs \<and> ranges_set qs = numbers ''ports'' (stock_of rs) \<and> qs \<noteq> []"
    using get_ranges_stock [OF x, of "''ports''", unfolded s] by (auto simp: returns_iff)
  obtain q where q: "get_ranges ''ports'' rs = Inr q" "case q of None \<Rightarrow> numbers ''ports'' (stock_of rs) = {}
      | Some qs \<Rightarrow> canonical qs \<and> ranges_set qs = numbers ''ports'' (stock_of rs) \<and> qs \<noteq> []"
    using get_ranges_stock [OF rs, of "''ports''"] by (auto simp: returns_iff)
  have ne: "canonical zs \<Longrightarrow> zs \<noteq> [] \<Longrightarrow> ranges_set zs \<noteq> {}" for zs
    by (simp add: ranges_set_empty canonical_def)
  have "ports_eq_option p q = Inr True"
    using p(2) q(2) ne
    by (auto simp: ports_eq_option_def ranges_eq_sets canonical_def split: option.splits)
  then show ?thesis
    by (simp add: check_totals_def cpus_def gpus_def mem_def disk_def ports_def g p(1) q(1))
qed

text \<open>The resources an operation names, and the condition on them: normalised and not shared.\<close>

definition operands :: "Offer_Operation \<Rightarrow> Resource list" where
  "operands operation =
     (case op_type operation of
        OP_RESERVE \<Rightarrow> repeated (op_reserve operation)
      | OP_UNRESERVE \<Rightarrow> repeated (op_unreserve operation)
      | OP_CREATE \<Rightarrow> repeated (op_create operation)
      | OP_DESTROY \<Rightarrow> repeated (op_destroy operation)
      | _ \<Rightarrow> [])"

lemma validate_all_None: "validate_all rs = None \<longleftrightarrow> (\<forall>r \<in> set rs. validate r = None)"
  by (induction rs) (auto split: option.splits)

lemma with_operands_conserves:
  assumes rs: "rs_ok rs" and ops: "\<forall>r \<in> set (repeated xs). post_format r \<and> wf_resource r \<and> \<not> r_shared r"
    and step: "\<And>r x. rs_ok x \<Longrightarrow> operand r \<Longrightarrow> validate r = None \<Longrightarrow> conserves x (step r x)"
  shows "conserves rs (with_operands xs step rs)"
proof (cases "validate_all (repeated xs)")
  case None
  have "yields (foldTry step (repeated xs) rs) (\<lambda>x. rs_ok x \<and> stock_of x = stock_of rs)"
  proof (rule yields_foldTry)
    fix r x
    assume r: "r \<in> set (repeated xs)" and x: "rs_ok x \<and> stock_of x = stock_of rs"
    with None ops have "operand r" "validate r = None"
      by (auto simp: operand_def validate_all_None intro!: validate_sound)
    with step [of x r] x show "yields (step r x) (\<lambda>x. rs_ok x \<and> stock_of x = stock_of rs)"
      by (simp add: conserves_def)
  qed (simp add: rs)
  with None show ?thesis by (simp add: with_operands_def conserves_def)
qed (auto simp: with_operands_def conserves_def)

lemma apply_operation_conserves:
  assumes icl: "interval_set icl elements icl_inv" and rs: "rs_ok rs"
    and ops: "\<forall>r \<in> set (operands operation). post_format r \<and> wf_resource r \<and> \<not> r_shared r"
  shows "conserves rs (apply_operation icl operation rs)"
proof -
  note steps = reserve_conserves [OF icl] unreserve_conserves [OF icl] create_conserves [OF icl] destroy_conserves [OF icl]
  show ?thesis
    using rs ops
    by (cases "op_type operation")
      (auto simp: apply_operation_def operands_def conserves_def [of _ "Inr _"]
        intro!: with_operands_conserves steps)
qed

lemma apply_conserves:
  assumes icl: "interval_set icl elements icl_inv" and rs: "rs_ok rs"
    and ops: "\<forall>r \<in> set (operands operation). post_format r \<and> wf_resource r \<and> \<not> r_shared r"
  shows "conserves rs (apply_resources icl rs operation)"
  using apply_operation_conserves [OF assms] unfolding conserves_def apply_resources_def
  by (rule yields_andTry) (use rs in \<open>simp add: check_totals_ok\<close>)

end
