(* ===== verification/Resources_Find.thy ===== *)
theory Resources_Find
  imports Resources_Operations
begin

text \<open>
  What \<open>Resources::find\<close> (\<open>liburb/source/resources.cpp\<close>) returns, for collections of valid resources that are not
  shared: as much as the target asks for, and no more than the collection has.
\<close>

subsection \<open>Resources without reservations\<close>

definition bare :: "Resource \<Rightarrow> Resource" where
  "bare r = r\<lparr>r_reservations := []\<rparr>"

lemma amount_reservations [simp]: "amount (r\<lparr>r_reservations := c\<rparr>) = amount r"
  by (rule amount_cong) simp_all

lemma operand_reservations:
  "operand r \<Longrightarrow> list_all wf_reservation c \<Longrightarrow> operand (r\<lparr>r_reservations := c\<rparr>)"
  using value_ok_cong [of "r\<lparr>r_reservations := c\<rparr>" r] by (simp add: operand_def sound_def post_format_def)

lemma operand_bare: "operand r \<Longrightarrow> operand (bare r)"
  by (simp add: bare_def operand_reservations)

lemma amount_bare [simp]: "amount (bare r) = amount r"
  by (simp add: bare_def)

lemma bare_eq: "r_reservations r = [] \<Longrightarrow> bare r = r"
  by (intro Resource.equality) (simp_all add: bare_def)

lemma bare_of_resource:
  assumes "operand r" and "validate r = None"
  shows "andThen (of_resource r) toUnreserved = Inr (if amount r = 0 then [] else [wrap (bare r)])"
proof -
  have w: "(wrap r)\<lparr>resource := bare r\<rparr> = wrap (bare r)" by (simp add: wrap_def bare_def)
  have "isEmpty' (wrap (bare r)) = Inr (amount r = 0)"
    using operand_bare [OF assms(1)] isEmpty_wrap [of "bare r"] by (simp add: operand_def)
  with w assms show ?thesis
    by (simp add: of_resource_operand toUnreserved_def add_def flip: bare_def)
qed

subsection \<open>Taking an entry out\<close>

definition plain :: "Resource' \<Rightarrow> bool" where
  "plain r \<longleftrightarrow> validate (resource r) = None \<and> \<not> r_shared (resource r)"

lemma unshared_wrap: "entry_ok r \<Longrightarrow> \<not> r_shared (resource r) \<Longrightarrow> wrap (resource r) = r"
  by (cases r) (auto simp: entry_ok_def wrap_def split: option.splits)

lemma unshared_operand: "entry_ok r \<Longrightarrow> \<not> r_shared (resource r) \<Longrightarrow> operand (resource r)"
  by (auto simp: operand_def dest: entry_parts)

lemma same_value_refl [simp]: "value_ok r \<Longrightarrow> same_value r r"
  by (simp add: same_value_def value_ok_def split: Value_Type.splits)

lemma subtract_own:
  assumes icl: "interval_set icl elements icl_inv" and rs: "rs_ok rs" and r: "r \<in> set rs" "\<not> r_shared (resource r)"
  shows "returns (subtract icl r rs) (\<lambda>x. rs_ok x \<and> set x \<subseteq> set rs \<and> stock_of x + amount (resource r) = stock_of rs)"
proof -
  have e: "entry_ok r" using rs r by (simp add: rs_ok_def)
  note s = entry_parts(1) [OF e]
  have own: "can_subtract (resource r) (resource r)" "value_le (resource r) (resource r)"
    using sound_parts(3) [OF s] by (simp_all add: can_subtract_def same_value_le)
  obtain i where i: "find_idx (\<lambda>q. can_subtract (resource q) (resource r)) rs = Some i" "i < length rs"
    "can_subtract (resource (rs ! i)) (resource r)" "value_le (resource r) (resource (rs ! i))"
    using find_contained [OF rs r(1) e r(2) own] .
  have same: "amount (resource (rs ! i)) = amount (resource r)"
  proof (cases "exclusive (resource (rs ! i))")
    case True
    with i(3) show ?thesis by (intro same_amount) (simp_all add: can_subtract_def)
  next
    case False
    obtain j where j: "j < length rs" "rs ! j = r" using r(1) by (auto simp: in_set_conv_nth)
    have k: "res_key (resource (rs ! i)) = res_key (resource r)" using i(3) by (simp add: can_subtract_def)
    with False r(2) shared_key [OF k] have "can_add (resource (rs ! i)) (resource (rs ! j))"
      by (simp add: can_add_def j(2))
    with rs i(2) j(1) have "i = j" unfolding rs_ok_def apart_def by blast
    with j(2) show ?thesis by simp
  qed
  from reduced_contained [OF icl rs_ok_nth [OF rs i(2)] e i(3,4) r(2) fits_nth [OF rs i(2)]]
  obtain x gone where x: "reduced icl (rs ! i) r = Inr (x, gone)"
    "amount (resource x) + amount (resource r) = amount (resource r)"
    "stk_apart (amount (resource x)) (amount (resource r))" "\<not> gone \<longrightarrow> amount (resource x) \<noteq> 0"
    using same by (auto simp: returns_iff entry_ok_def split: if_splits)
  then have "gone" using stk_apart_cancel by blast
  then have eq: "subtract icl r rs = Inr (remove_at i (rs[i := x]))"
    by (simp add: subtract_find [OF rs e] i(1) x(1))
  have ne: "rs \<noteq> []" using r(1) by auto
  have drop: "remove_at i (rs[i := x]) = remove_at i rs"
    using i(2) ne by (cases "i = length rs - 1") (auto simp: remove_at_def last_list_update butlast_list_update)
  obtain rest where "stock_of rs = amount (resource (rs ! i)) + rest" "stock_of (remove_at i (rs[i := x])) = rest"
    using total_split [OF i(2)] by metis
  with same have "stock_of (remove_at i rs) + amount (resource r) = stock_of rs" by (simp add: drop ac_simps)
  moreover have "rs_ok (remove_at i rs)" using rs_ok_remove [OF rs i(2), of "rs ! i"] by simp
  ultimately show ?thesis using set_remove_at [OF i(2)] by (simp add: eq drop)
qed

subsection \<open>What remains to be found\<close>

text \<open>At every moment at most one resource, which is not shared.\<close>

definition lone :: "Resources \<Rightarrow> bool" where
  "lone rs \<longleftrightarrow> rs_ok rs \<and> length rs \<le> 1 \<and> (\<forall>r \<in> set rs. \<not> r_shared (resource r))"

lemma lone_cases:
  assumes "lone rs"
  obtains "rs = []" | t where "rs = [wrap t]" and "operand t" and "amount t \<noteq> 0"
proof (cases rs)
  case (Cons r qs)
  with assms have r: "entry_ok r" "\<not> r_shared (resource r)" "rs = [r]" by (auto simp: lone_def rs_ok_def)
  then have "rs = [wrap (resource r)]" by (simp add: unshared_wrap)
  then show thesis using r unshared_operand entry_parts(2) that(2) by blast
qed (rule that(1))

lemma lone_wrap: "operand t \<Longrightarrow> amount t \<noteq> 0 \<Longrightarrow> fits (amount t) \<Longrightarrow> lone [wrap t]"
  by (simp add: lone_def rs_ok_def entry_wrap operand_def apart_def)

lemma subtract_unshared:
  assumes rs: "rs_ok rs" and th: "entry_ok that" and un: "\<forall>r \<in> set rs. \<not> isShared' r"
    and eq: "subtract icl that rs = Inr x"
  shows "length x \<le> length rs \<and> (\<forall>r \<in> set x. \<not> isShared' r)"
proof (cases "find_idx (\<lambda>r. can_subtract (resource r) (resource that)) rs")
  case None
  with eq un show ?thesis by (simp add: subtract_find [OF rs th])
next
  case (Some i)
  then have i: "i < length rs" by (simp add: find_idx_Some_iff)
  then have e: "\<not> isShared' (rs ! i)" using un by simp
  from eq Some obtain y gone where y: "reduced icl (rs ! i) that = Inr (y, gone)"
    "x = (if gone then remove_at i (rs[i := y]) else rs[i := y])"
    by (cases "reduced icl (rs ! i) that") (auto simp: subtract_find [OF rs th] split: prod.splits)
  have "\<not> isShared' y"
    using y(1) e by (auto simp: reduced_def sub_from'_def isShared'_def andThen_def split: sum.splits if_splits)
  then have u: "\<forall>r \<in> set (rs[i := y]). \<not> isShared' r"
    using un set_update_subset_insert [of rs i y] by blast
  moreover have "set (remove_at i (rs[i := y])) \<subseteq> set (rs[i := y])" using i by (intro set_remove_at) simp
  ultimately show ?thesis using y(2) by auto
qed

lemma contains_lone:
  assumes icl: "interval_set icl elements icl_inv" and rs: "rs_ok rs" and q: "lone q"
  shows "returns (contains icl rs q) (\<lambda>b. b \<longrightarrow> (\<exists>rest. stock_of rs = stock_of q + rest))"
  using q
proof (cases rule: lone_cases)
  case 1
  then show ?thesis by (auto simp: contains_def)
next
  case (2 t)
  obtain b where b: "contains_item rs (wrap t) = Inr b"
    using contains_item_operand [OF _ 2(2), of rs] rs by (auto simp: rs_ok_def)
  moreover have "\<exists>rest. stock_of rs = amount t + rest" if b
    using subtract_wrap [OF icl rs 2(2)] b that by (auto simp: returns_iff) (metis add.commute)
  ultimately show ?thesis by (simp add: 2(1) contains_single [OF icl rs 2(2)])
qed

lemma minus_lone:
  assumes icl: "interval_set icl elements icl_inv" and q: "lone q" and u: "operand u" "amount u \<noteq> 0"
    and c: "contains icl q [wrap u] = Inr True"
  shows "returns (minus_resources icl q [wrap u]) (\<lambda>x. lone x \<and> stock_of x + amount u = stock_of q)"
proof -
  have ok: "rs_ok q" using q by (simp add: lone_def)
  have e: "entry_ok (wrap u)" using u by (simp add: operand_def entry_wrap)
  from subtract_wrap [OF icl ok u(1)] c obtain x where x: "subtract icl (wrap u) q = Inr x" "rs_ok x"
    "stock_of x + amount u = stock_of q"
    by (auto simp: contains_single [OF icl ok u(1)] returns_iff)
  have "\<forall>r \<in> set q. \<not> isShared' r" using q entry_parts(3) by (auto simp: lone_def rs_ok_def)
  with subtract_unshared [OF ok e _ x(1)] have "length x \<le> length q" "\<forall>r \<in> set x. \<not> isShared' r" by auto
  with q x(2) have "lone x" using entry_parts(3) by (fastforce simp: lone_def rs_ok_def)
  with x show ?thesis by (simp add: minus_resources_def)
qed

subsection \<open>The search\<close>

definition searching :: "Resources \<Rightarrow> Resource \<Rightarrow> Resources \<Rightarrow> Resources \<Rightarrow> Resources \<Rightarrow> bool" where
  "searching rs target found acc remaining \<longleftrightarrow>
     rs_ok found \<and> rs_ok acc \<and> (\<forall>r \<in> set acc. plain r) \<and> lone remaining \<and> fits (amount target) \<and>
     stock_of found + stock_of remaining = amount target \<and> stock_of acc + stock_of found = stock_of rs"

definition located :: "Resources \<Rightarrow> Resource \<Rightarrow> Resources \<Rightarrow> bool" where
  "located rs target found \<longleftrightarrow>
     rs_ok found \<and> stock_of found = amount target \<and> (\<exists>rest. stock_of rs = stock_of found + rest)"

lemma find_complete:
  assumes s: "searching rs target found acc remaining" and r: "list_all wf_reservation v"
    and le: "stock_of acc = a + stock_of remaining"
  shows "returns (foldOutcome (\<lambda>q. add (q\<lparr>resource := (resource q)\<lparr>r_reservations := v\<rparr>\<rparr>)) remaining found)
    (located rs target)"
proof -
  have tot: "stock_of rs = amount target + a"
    using s le unfolding searching_def by (metis add.assoc add.commute)
  have "lone remaining" using s by (simp add: searching_def)
  then show ?thesis
  proof (cases rule: lone_cases)
    case 1
    with s tot show ?thesis by (auto simp: searching_def located_def)
  next
    case (2 t)
    let ?t = "t\<lparr>r_reservations := v\<rparr>"
    have w: "(wrap t)\<lparr>resource := ?t\<rparr> = wrap ?t" by (simp add: wrap_def)
    have "stock_of found + amount ?t = amount target" using s by (simp add: searching_def 2(1))
    with add_wrap [of found ?t] operand_reservations [OF 2(2) r] s
    have "returns (add (wrap ?t) found) (\<lambda>x. rs_ok x \<and> stock_of x = amount target)" by (simp add: searching_def)
    then show ?thesis using tot by (auto simp: 2(1) w located_def returns_iff)
  qed
qed

lemma find_take:
  assumes icl: "interval_set icl elements icl_inv" and s: "searching rs target found acc remaining"
    and r: "r \<in> set acc" and c: "contains icl remaining [wrap (bare (resource r))] = Inr True"
  shows "returns (andThen (add r found) (\<lambda>found. andThen (subtract icl r acc) (\<lambda>acc.
      andThen (minus_resources icl remaining [wrap (bare (resource r))]) (\<lambda>remaining. Inr (Next found acc remaining)))))
    (\<lambda>x. \<exists>f a q. x = Next f a q \<and> searching rs target f a q)"
proof -
  let ?u = "bare (resource r)"
  have e: "entry_ok r" "\<not> r_shared (resource r)" using s r by (auto simp: searching_def rs_ok_def plain_def)
  note op = unshared_operand [OF e]
  have ne: "amount ?u \<noteq> 0" using entry_parts(2) [OF e(1)] by simp
  have "lone remaining" using s by (simp add: searching_def)
  from minus_lone [OF icl this operand_bare [OF op] ne c] obtain q where
    q: "minus_resources icl remaining [wrap ?u] = Inr q" "lone q" "stock_of q + amount (resource r) = stock_of remaining"
    by (auto simp: returns_iff)
  from subtract_own [OF icl _ r e(2)] s obtain a where
    a: "subtract icl r acc = Inr a" "rs_ok a" "set a \<subseteq> set acc" "stock_of a + amount (resource r) = stock_of acc"
    by (auto simp: searching_def returns_iff)
  have t: "(stock_of found + amount (resource r)) + stock_of q = amount target"
    "stock_of a + (stock_of found + amount (resource r)) = stock_of rs"
    using s q(3) a(4) unfolding searching_def by (metis add.assoc add.commute)+
  have "fits (stock_of found + amount (resource r))" using s t(1) fits_add(1) unfolding searching_def by metis
  with add_wrap [of found "resource r"] s op obtain f where
    f: "add r found = Inr f" "rs_ok f" "stock_of f = stock_of found + amount (resource r)"
    by (auto simp: searching_def returns_iff unshared_wrap [OF e])
  with q a t s have "searching rs target f a q" by (auto simp: searching_def)
  with f q a show ?thesis by simp
qed

lemma find_inner_search:
  assumes icl: "interval_set icl elements icl_inv" and s: "searching rs target found acc remaining" and q: "set qs \<subseteq> set acc"
  shows "returns (find_inner icl found acc remaining qs) (\<lambda>x.
    case x of Done f \<Rightarrow> located rs target f | Next f a q \<Rightarrow> searching rs target f a q)"
  using q
proof (induction qs)
  case Nil
  then show ?case using s by simp
next
  case (Cons r qs)
  then have r: "r \<in> set acc" by simp
  let ?u = "[wrap (bare (resource r))]"
  have e: "entry_ok r" "plain r" using s r by (auto simp: searching_def rs_ok_def)
  then have n: "\<not> r_shared (resource r)" "validate (resource r) = None" "amount (resource r) \<noteq> 0"
    by (auto simp: plain_def dest: entry_parts)
  note op = unshared_operand [OF e(1) n(1)]
  from s r have "fits (amount (resource r))"
    using fits_nth [of acc] by (auto simp: searching_def in_set_conv_nth)
  then have u: "lone ?u" using operand_bare [OF op] n(3) by (simp add: lone_wrap)
  have bo: "andThen (of_resource (resource r)) toUnreserved = Inr ?u" using bare_of_resource [OF op n(2)] n(3) by simp
  obtain b where b: "contains icl ?u remaining = Inr b" "b \<Longrightarrow> \<exists>rest. amount (resource r) = stock_of remaining + rest"
    using contains_lone [OF icl, of ?u remaining] u s by (auto simp: lone_def searching_def returns_iff)
  obtain c where c: "contains icl remaining ?u = Inr c"
    using contains_lone [OF icl _ u, of remaining] s by (auto simp: lone_def searching_def returns_iff)
  show ?case
  proof (cases b)
    case True
    then obtain rest where rest: "amount (resource r) = stock_of remaining + rest" using b(2) by blast
    from subtract_own [OF icl _ r n(1)] s obtain a where "stock_of a + amount (resource r) = stock_of acc"
      by (auto simp: searching_def returns_iff)
    with rest have "stock_of acc = (stock_of a + rest) + stock_of remaining" by (metis add.assoc add.commute)
    from find_complete [OF s sound_parts(1) [OF entry_parts(1) [OF e(1)]] this] True b(1) show ?thesis
      by (auto simp: bo elim!: returns_mono)
  next
    case False
    show ?thesis
    proof (cases c)
      case True
      with find_take [OF icl s r] c False b(1) show ?thesis by (auto simp: bo elim!: returns_mono)
    qed (use False b(1) c Cons in \<open>simp add: bo\<close>)
  qed
qed

lemma find_outer_search:
  assumes icl: "interval_set icl elements icl_inv" and s: "searching rs target found acc remaining"
    and ps: "\<forall>p \<in> set predicates. \<forall>r. sound r \<longrightarrow> (\<exists>b. p r = Inr b)"
  shows "returns (find_outer icl found acc remaining predicates) (\<lambda>x.
    case x of None \<Rightarrow> True | Some f \<Rightarrow> located rs target f)"
  using s ps
proof (induction predicates arbitrary: found acc remaining)
  case (Cons p ps)
  have ok: "rs_ok acc" using Cons.prems(1) by (simp add: searching_def)
  have "p (resource r) = Inr (p (resource r) = Inr True)" if "r \<in> set acc" for r
  proof -
    have "sound (resource r)" using rs_ok_sound [OF ok] that by blast
    then obtain b where "p (resource r) = Inr b" using Cons.prems(2) by auto
    then show ?thesis by simp
  qed
  from filter_resources_filter [of acc p "\<lambda>r. p (resource r) = Inr True", OF ok this]
  have f: "filter_resources p acc = Inr (filter (\<lambda>r. p (resource r) = Inr True) acc)" .
  have "set (filter (\<lambda>r. p (resource r) = Inr True) acc) \<subseteq> set acc" by auto
  from find_inner_search [OF icl Cons.prems(1) this] obtain x where
    x: "find_inner icl found acc remaining (filter (\<lambda>r. p (resource r) = Inr True) acc) = Inr x"
    "case x of Done f \<Rightarrow> located rs target f | Next f a q \<Rightarrow> searching rs target f a q"
    unfolding returns_iff by blast
  with Cons.IH Cons.prems(2) show ?case by (simp add: f split: find_result.splits)
qed simp

lemma find_predicates_total:
  assumes "sound target"
  shows "returns (find_predicates target) (\<lambda>ps. \<forall>p \<in> set ps. \<forall>r. sound r \<longrightarrow> (\<exists>b. p r = Inr b))"
proof -
  have f: "check_format r x = x" if "sound r" for r and x :: "'z outcome"
    using that by (simp add: check_format_def sound_def post_format_def)
  have res: "\<exists>b. isReserved r role = Inr b" if "sound r" for r role
    by (cases "r_reservations r = []"; cases role) (auto simp: isReserved_def isUnreserved_def reservationRole_def f that)
  have un: "\<exists>b. isUnreserved r = Inr b" if "sound r" for r
    by (simp add: isUnreserved_def f that)
  have role: "r_reservations target \<noteq> [] \<Longrightarrow> \<exists>x. reservationRole target = Inr x"
    by (simp add: reservationRole_def)
  show ?thesis
    using res un role res [OF assms, of None]
    by (auto simp: find_predicates_def isReserved_def [of target] isUnreserved_def [of target] f [OF assms])
      (rule exI, rule TrueI)
qed

lemma find_located:
  assumes icl: "interval_set icl elements icl_inv" and rs: "rs_ok rs" "\<forall>r \<in> set rs. plain r"
    and t: "operand target" "validate target = None" "fits (amount target)"
  shows "returns (find_resource icl rs target) (\<lambda>x. case x of None \<Rightarrow> True | Some f \<Rightarrow> located rs target f)"
proof -
  let ?q = "if amount target = 0 then [] else [wrap (bare target)]"
  have "lone ?q" using lone_wrap [OF operand_bare [OF t(1)]] t(3) by (auto simp: lone_def)
  then have "searching rs target [] rs ?q" using rs t(3) by (simp add: searching_def)
  from find_outer_search [OF icl this] find_predicates_total [of target] t(1) show ?thesis
    by (auto simp: find_resource_def bare_of_resource [OF t(1,2)] operand_def returns_iff)
qed

subsection \<open>When the search succeeds\<close>

definition held :: "Resources \<Rightarrow> Resource \<Rightarrow> bool" where
  "held rs r \<longleftrightarrow> (\<exists>q \<in> set rs. can_subtract (resource q) r \<and> value_le r (resource q))"

lemma contains_held: "rs_ok rs \<Longrightarrow> operand r \<Longrightarrow> contains_item rs (wrap r) = Inr (held rs r)"
  by (simp add: contains_item_operand rs_ok_def held_def)

lemma contains_wrap:
  assumes "interval_set icl elements icl_inv" and "rs_ok [wrap l]" and "operand r"
  shows "contains icl [wrap l] [wrap r] = Inr (can_subtract l r \<and> value_le r l)"
  using contains_single [OF assms] contains_held [OF assms(2,3)] by (simp add: held_def)

lemma can_subtract_sym: "can_subtract l r \<Longrightarrow> exclusive l \<Longrightarrow> can_subtract r l \<and> value_le l r"
proof -
  assume c: "can_subtract l r" "exclusive l"
  then have k: "res_key l = res_key r" "same_value l r" by (auto simp: can_subtract_def)
  then have "same_value r l" by (auto simp: same_value_def res_key_def split: Value_Type.splits)
  with k show ?thesis by (auto simp: can_subtract_def res_key_def intro: same_value_le)
qed

lemma apart_unique:
  assumes "apart rs" and "r \<in> set rs" and "q \<in> set rs" and "can_add (resource r) (resource q)"
  shows "r = q"
proof -
  obtain i j where "i < length rs" "r = rs ! i" "j < length rs" "q = rs ! j"
    using assms(2,3) by (auto simp: in_set_conv_nth)
  with assms(1,4) show ?thesis unfolding apart_def by metis
qed

lemma find_inner_done:
  assumes icl: "interval_set icl elements icl_inv" and s: "searching rs target found acc [wrap t]"
    and t: "operand t" and qs: "set qs \<subseteq> set acc" "\<forall>r \<in> set qs. r_reservations (resource r) = []"
    and q: "q \<in> set qs" "can_subtract (resource q) t" "value_le t (resource q)"
  shows "\<exists>f. find_inner icl found acc [wrap t] qs = Inr (Done f)"
  using qs q(1)
proof (induction qs)
  case (Cons r qs)
  then have r: "r \<in> set acc" and bare: "bare (resource r) = resource r" by (simp_all add: bare_eq)
  have e: "entry_ok r" "plain r" using s r by (auto simp: searching_def rs_ok_def)
  then have n: "\<not> r_shared (resource r)" "validate (resource r) = None" "amount (resource r) \<noteq> 0"
    by (auto simp: plain_def dest: entry_parts)
  note op = unshared_operand [OF e(1) n(1)]
  have ok: "rs_ok acc" "rs_ok [wrap t]" using s by (simp_all add: searching_def lone_def)
  have "fits (amount (resource r))" using ok r fits_nth [of acc] by (auto simp: in_set_conv_nth)
  then have u: "rs_ok [wrap (resource r)]" using lone_wrap [OF op n(3)] by (simp add: lone_def)
  have bo: "andThen (of_resource (resource r)) toUnreserved = Inr [wrap (resource r)]"
    using bare_of_resource [OF op n(2)] n(3) by (simp add: bare)
  note c = contains_wrap [OF icl u t] contains_wrap [OF icl ok(2) op]
  have total: "returns (find_inner icl found acc [wrap t] (r # qs)) (\<lambda>_. True)"
    by (rule returns_mono [OF find_inner_search [OF icl s Cons.prems(1)]]) simp
  show ?case
  proof (cases "can_subtract (resource r) t \<and> value_le t (resource r)")
    case True
    with total show ?thesis by (auto simp: bo c returns_iff)
  next
    case False
    have "\<not> can_subtract t (resource r)"
    proof
      assume ct: "can_subtract t (resource r)"
      with False can_subtract_sym have "\<not> exclusive t" by blast
      moreover have k: "res_key (resource r) = res_key (resource q)" using ct q(2) by (simp add: can_subtract_def)
      moreover have "exclusive t = exclusive (resource r)" using ct exclusive_key [of t "resource r"] by (simp add: can_subtract_def)
      ultimately have "can_add (resource r) (resource q)" using n(1) by (simp add: can_add_def)
      moreover have "q \<in> set acc" using Cons.prems by auto
      ultimately have "r = q" using apart_unique [of acc r q] ok(1) r by (simp add: rs_ok_def)
      with False q show False by simp
    qed
    moreover have "q \<in> set qs" using Cons.prems(3) False q by auto
    ultimately show ?thesis using Cons False by (auto simp: bo c)
  qed
qed simp

lemma find_succeeds:
  assumes icl: "interval_set icl elements icl_inv" and rs: "rs_ok rs" "\<forall>r \<in> set rs. plain r"
    and t: "operand target" "validate target = None" "fits (amount target)"
    and h: "r_reservations target = []" "amount target \<noteq> 0" "held rs target"
  shows "find_resource icl rs target \<noteq> Inr None"
proof -
  note b = bare_eq [OF h(1)]
  have "lone [wrap target]" using lone_wrap [of target] t(1,3) h(2) by simp
  then have s: "searching rs target [] rs [wrap target]" using rs t(3) by (simp add: searching_def)
  obtain q where q: "q \<in> set rs" "can_subtract (resource q) target" "value_le target (resource q)"
    using h(3) by (auto simp: held_def)
  let ?u = "filter (\<lambda>r. r_reservations (resource r) = []) rs"
  have f: "filter_resources isUnreserved rs = Inr ?u"
    using rs_ok_sound [OF rs(1)]
    by (intro filter_resources_filter [OF rs(1)]) (simp add: isUnreserved_def check_format_def sound_def post_format_def)
  have "r_reservations (resource q) = []" using q(2) h(1) by (auto simp: can_subtract_def res_key_def)
  with q have "set ?u \<subseteq> set rs" "\<forall>r \<in> set ?u. r_reservations (resource r) = []" "q \<in> set ?u" by simp_all
  from find_inner_done [OF icl s t(1) this q(2,3)] obtain x where "find_inner icl [] rs [wrap target] ?u = Inr (Done x)" ..
  moreover have "find_predicates target = Inr [isUnreserved, \<lambda>_. Inr True]"
    using t(1) h(1)
    by (simp add: find_predicates_def isReserved_def isUnreserved_def check_format_def operand_def sound_def post_format_def)
  ultimately show ?thesis using h(2) by (simp add: find_resource_def bare_of_resource [OF t(1,2)] b f)
qed

end
