(* ===== verification/Resources_Formats.thy ===== *)
theory Resources_Formats
  imports Resources_Operations
begin

text \<open>
  Reservation formats and checkpointed resources (\<open>liburb/source/resources_utils.cpp\<close>): conversion between the
  formats before and after reservation refinement, normalisation of offer operations, downgrading,
  and the application of checkpointed resources to those of an agent.
\<close>

subsection \<open>Conversion\<close>

datatype ResourceFormat = PRE_RESERVATION_REFINEMENT | POST_RESERVATION_REFINEMENT | ENDPOINT

definition to_pre :: "ResourceFormat \<Rightarrow> Resource \<Rightarrow> Resource outcome" where
  "to_pre format r =
     require (r_role r = None) (require (r_reservation r = None)
       (case r_reservations r of
          [] \<Rightarrow> Inr (r\<lparr>r_role := Some ''*''\<rparr>)
        | [source] \<Rightarrow>
            let r = (if reservation_type source = DYNAMIC
                     then r\<lparr>r_reservation := Some \<lparr>rsv_type = None, rsv_role = None,
                              rsv_principal = rsv_principal source, rsv_labels = rsv_labels source\<rparr>\<rparr>
                     else r);
                r = r\<lparr>r_role := Some (reservation_role source)\<rparr>
            in Inr (if format = PRE_RESERVATION_REFINEMENT then r\<lparr>r_reservations := []\<rparr> else r)
        | _ \<Rightarrow> require (format \<noteq> PRE_RESERVATION_REFINEMENT) (Inr r)))"

definition to_post :: "Resource \<Rightarrow> Resource outcome" where
  "to_post r =
     (if length (r_reservations r) > 0 then Inr (r\<lparr>r_role := None, r_reservation := None\<rparr>)
      else if res_role r = ''*'' then require (r_reservation r = None) (Inr (r\<lparr>r_role := None\<rparr>))
      else let reservation =
             (case r_reservation r of
                None \<Rightarrow> \<lparr>rsv_type = Some STATIC, rsv_role = None, rsv_principal = None, rsv_labels = None\<rparr>
              | Some v \<Rightarrow> v\<lparr>rsv_type := Some DYNAMIC\<rparr>)
           in Inr (r\<lparr>r_reservations := r_reservations r @ [reservation\<lparr>rsv_role := Some (res_role r)\<rparr>],
                     r_reservation := None, r_role := None\<rparr>))"

definition convertResourceFormat :: "ResourceFormat \<Rightarrow> Resource \<Rightarrow> Resource outcome" where
  "convertResourceFormat format r =
     (case format of
        PRE_RESERVATION_REFINEMENT \<Rightarrow> to_pre format r
      | ENDPOINT \<Rightarrow> to_pre format r
      | POST_RESERVATION_REFINEMENT \<Rightarrow> to_post r)"

fun convertResources :: "ResourceFormat \<Rightarrow> Resource list \<Rightarrow> Resource list outcome" where
  "convertResources format [] = Inr []"
| "convertResources format (r # rs) =
     andThen (convertResourceFormat format r) (\<lambda>r. andThen (convertResources format rs) (\<lambda>rs. Inr (r # rs)))"

subsection \<open>Downgrading\<close>

datatype downgrade_error = RefinedReservations Resource

fun find_refined :: "Resource list \<Rightarrow> Resource option outcome" where
  "find_refined [] = Inr None"
| "find_refined (r # rs) = andThen (hasRefinedReservations r) (\<lambda>b. if b then Inr (Some r) else find_refined rs)"

definition downgradeResources :: "Resource list \<Rightarrow> (downgrade_error + Resource list) outcome" where
  "downgradeResources rs =
     require (list_all (\<lambda>r. r_role r = None \<and> r_reservation r = None) rs)
       (andThen (find_refined rs) (\<lambda>x.
          case x of
            Some r \<Rightarrow> Inr (Inl (RefinedReservations r))
          | None \<Rightarrow> andThen (convertResources PRE_RESERVATION_REFINEMENT rs) (\<lambda>rs. Inr (Inr rs))))"

subsection \<open>Normalisation of operations\<close>

datatype normalize_error = FieldNotSet Operation_Type | InvalidResource Resource resource_error | UnknownOfferOperation

definition invalid :: "(Resource \<times> resource_error) option \<Rightarrow> normalize_error option" where
  "invalid x = map_option (\<lambda>(r, e). InvalidResource r e) x"

text \<open>The four operations that carry resources directly.\<close>

definition normalize_field :: "Operation_Type \<Rightarrow> Resource list option \<Rightarrow> (normalize_error + Resource list) outcome" where
  "normalize_field type field =
     (case field of
        None \<Rightarrow> Inr (Inl (FieldNotSet type))
      | Some rs \<Rightarrow>
          (case invalid (validate_all rs) of
             Some e \<Rightarrow> Inr (Inl e)
           | None \<Rightarrow> andThen (convertResources POST_RESERVATION_REFINEMENT rs) (\<lambda>rs. Inr (Inr rs))))"

fun validate_tasks :: "task_info list \<Rightarrow> normalize_error option" where
  "validate_tasks [] = None"
| "validate_tasks (task # tasks) =
     orElse (invalid (validate_all (task_resources task)))
       (orElse (case task_executor task of None \<Rightarrow> None | Some rs \<Rightarrow> invalid (validate_all rs))
         (validate_tasks tasks))"

definition normalize_option :: "Resource list option \<Rightarrow> Resource list option outcome" where
  "normalize_option x =
     (case x of
        None \<Rightarrow> Inr None
      | Some rs \<Rightarrow> andThen (convertResources POST_RESERVATION_REFINEMENT rs) (\<lambda>rs. Inr (Some rs)))"

fun normalize_tasks :: "task_info list \<Rightarrow> task_info list outcome" where
  "normalize_tasks [] = Inr []"
| "normalize_tasks (task # tasks) =
     andThen (convertResources POST_RESERVATION_REFINEMENT (task_resources task)) (\<lambda>rs.
       andThen (normalize_option (task_executor task)) (\<lambda>e.
         andThen (normalize_tasks tasks) (\<lambda>tasks.
           Inr (task\<lparr>task_resources := rs, task_executor := e\<rparr> # tasks))))"

definition validateAndNormalizeResources :: "Offer_Operation \<Rightarrow> (normalize_error + Offer_Operation) outcome" where
  "validateAndNormalizeResources operation =
     (case op_type operation of
        OP_RESERVE \<Rightarrow> andTry (normalize_field OP_RESERVE (op_reserve operation))
          (\<lambda>rs. Inr (Inr (operation\<lparr>op_reserve := Some rs\<rparr>)))
      | OP_UNRESERVE \<Rightarrow> andTry (normalize_field OP_UNRESERVE (op_unreserve operation))
          (\<lambda>rs. Inr (Inr (operation\<lparr>op_unreserve := Some rs\<rparr>)))
      | OP_CREATE \<Rightarrow> andTry (normalize_field OP_CREATE (op_create operation))
          (\<lambda>rs. Inr (Inr (operation\<lparr>op_create := Some rs\<rparr>)))
      | OP_DESTROY \<Rightarrow> andTry (normalize_field OP_DESTROY (op_destroy operation))
          (\<lambda>rs. Inr (Inr (operation\<lparr>op_destroy := Some rs\<rparr>)))
      | OP_LAUNCH \<Rightarrow>
          (case op_launch operation of
             None \<Rightarrow> Inr (Inl (FieldNotSet OP_LAUNCH))
           | Some tasks \<Rightarrow>
               (case validate_tasks tasks of
                  Some e \<Rightarrow> Inr (Inl e)
                | None \<Rightarrow> andThen (normalize_tasks tasks) (\<lambda>tasks. Inr (Inr (operation\<lparr>op_launch := Some tasks\<rparr>)))))
      | OP_LAUNCH_GROUP \<Rightarrow>
          (case op_launch_group operation of
             None \<Rightarrow> Inr (Inl (FieldNotSet OP_LAUNCH_GROUP))
           | Some (executor, tasks) \<Rightarrow>
               (case orElse (case executor of None \<Rightarrow> None | Some rs \<Rightarrow> invalid (validate_all rs)) (validate_tasks tasks) of
                  Some e \<Rightarrow> Inr (Inl e)
                | None \<Rightarrow> andThen (normalize_option executor) (\<lambda>executor.
                    andThen (normalize_tasks tasks) (\<lambda>tasks.
                      Inr (Inr (operation\<lparr>op_launch_group := Some (executor, tasks)\<rparr>))))))
      | OP_UNKNOWN \<Rightarrow> Inr (Inl UnknownOfferOperation))"

subsection \<open>Checkpointed resources\<close>

datatype checkpoint_error = UnexpectedResource Resource | Incompatible Resource

definition needCheckpointing :: "Resource \<Rightarrow> bool outcome" where
  "needCheckpointing r =
     andThen (isDynamicallyReserved r) (\<lambda>b. if b then Inr True else isPersistentVolume r)"

definition strip_reservations :: "Resource \<Rightarrow> Resource" where
  "strip_reservations r =
     (let reservation = hd (r_reservations r)
      in r\<lparr>r_reservations := (if reservation_type reservation = STATIC then [reservation] else [])\<rparr>)"

definition checkpoint_step :: "'i icl \<Rightarrow> Resource \<Rightarrow> Resources \<Rightarrow> (checkpoint_error + Resources) outcome" where
  "checkpoint_step icl r rs =
     andThen (needCheckpointing r) (\<lambda>b.
       if \<not> b then Inr (Inl (UnexpectedResource r))
       else andThen (isDynamicallyReserved r) (\<lambda>d.
         andThen (isPersistentVolume r) (\<lambda>p.
           let stripped = (if d then strip_reservations r else r);
               stripped = (if p then strip_volume stripped else stripped\<lparr>r_shared := False\<rparr>)
           in andThen (contains_resource rs stripped) (\<lambda>c.
                if \<not> c then Inr (Inl (Incompatible stripped))
                else andThen (minus_resource icl stripped rs) (\<lambda>rs.
                       andThen (plus_resource r rs) (\<lambda>rs. Inr (Inr rs)))))))"

definition applyCheckpointedResources :: "'i icl \<Rightarrow> Resources \<Rightarrow> Resources \<Rightarrow> (checkpoint_error + Resources) outcome" where
  "applyCheckpointedResources icl rs checkpointed =
     foldTry (checkpoint_step icl) (map resource checkpointed) rs"

subsection \<open>Conversion of valid resources\<close>

lemma validate_format:
  "validate r = None \<Longrightarrow> (if r_reservations r = [] then validate_pre r else validate_post r) = None"
  by (simp add: validate_def split: if_splits)

lemma validate_iff:
  "validate r = None \<longleftrightarrow> r_name r \<noteq> [] \<and> validate_value r = None \<and> validate_disk r = None \<and>
     (if r_reservations r = [] then validate_pre r else validate_post r) = None \<and> validate_shared r = None"
  by (auto simp: validate_def)

lemma validate_cong:
  assumes "r_name q = r_name r" "r_type q = r_type r" "r_scalar q = r_scalar r" "r_ranges q = r_ranges r"
    "r_set q = r_set r" "r_disk q = r_disk r" "r_shared q = r_shared r"
  shows "validate_value q = validate_value r" and "validate_disk q = validate_disk r"
    and "validate_shared q = validate_shared r"
proof -
  have e: "scalar q = scalar r" "ranges q = ranges r" "items q = items r" "has_persistence q = has_persistence r"
    using assms by (simp_all add: scalar_def ranges_def items_def has_persistence_def)
  show "validate_value q = validate_value r" unfolding validate_value_def assms e by (rule refl)
  show "validate_disk q = validate_disk r" unfolding validate_disk_def assms by (rule refl)
  show "validate_shared q = validate_shared r" unfolding validate_shared_def assms e by (rule refl)
qed

lemma reformat_valid:
  fixes a b c r
  defines "q \<equiv> r\<lparr>r_role := a, r_reservation := b, r_reservations := c\<rparr>"
  assumes "validate r = None" and "(if c = [] then validate_pre q else validate_post q) = None"
  shows "validate q = None" and "amount q = amount r" and "r_shared q = r_shared r"
proof -
  have "validate_value q = validate_value r" "validate_disk q = validate_disk r" "validate_shared q = validate_shared r"
    by (rule validate_cong; simp add: q_def)+
  with assms(2,3) show "validate q = None" by (auto simp: validate_iff q_def)
  show "amount q = amount r" by (rule amount_cong) (simp_all add: q_def)
  show "r_shared q = r_shared r" by (simp add: q_def)
qed

definition pushed :: "Resource \<Rightarrow> ReservationInfo" where
  "pushed r =
     (case r_reservation r of
        None \<Rightarrow> \<lparr>rsv_type = Some STATIC, rsv_role = None, rsv_principal = None, rsv_labels = None\<rparr>
      | Some v \<Rightarrow> v\<lparr>rsv_type := Some DYNAMIC\<rparr>)\<lparr>rsv_role := Some (res_role r)\<rparr>"

definition posted :: "Resource \<Rightarrow> Resource" where
  "posted r = r\<lparr>r_role := None, r_reservation := None, r_reservations :=
     (if r_reservations r \<noteq> [] \<or> res_role r = ''*'' then r_reservations r else [pushed r])\<rparr>"

lemma pushed_simps:
  "rsv_role (pushed r) = Some (res_role r)" "rsv_type (pushed r) \<noteq> None"
  "reservation_type (pushed r) = (if r_reservation r = None then STATIC else DYNAMIC)"
  by (auto simp: pushed_def reservation_type_def split: option.splits)

lemma to_post_posted:
  assumes "validate r = None"
  shows "to_post r = Inr (posted r)"
proof -
  have "r_reservation r = None" if "r_reservations r = []" "res_role r = ''*''"
    using validate_format [OF assms] that by (auto simp: validate_pre_def split: option.splits if_splits)
  then show ?thesis
    by (cases "r_reservation r") (auto simp: to_post_def posted_def pushed_def Let_def)
qed

text \<open>A validated resource converts to a valid one in the format after refinement.\<close>

lemma posted_valid:
  assumes v: "validate r = None"
  shows "validate (posted r) = None" and "amount (posted r) = amount r" and "r_shared (posted r) = r_shared r"
proof -
  let ?c = "if r_reservations r \<noteq> [] \<or> res_role r = ''*'' then r_reservations r else [pushed r]"
  have "(if ?c = [] then validate_pre (posted r) else validate_post (posted r)) = None"
  proof (cases "r_reservations r = []")
    case False
    then have "validate_post r = None" using validate_format [OF v] by simp
    with False show ?thesis
      by (auto simp: posted_def validate_post_def validate_single_def split: if_splits Reservation_Type.splits)
  next
    case True
    then have "validate_pre r = None" using validate_format [OF v] by simp
    then have role: "validate_role (res_role r) = None" by (simp add: validate_pre_def split: option.splits)
    then show ?thesis
      using True pushed_simps [of r]
      by (auto simp: posted_def validate_post_def validate_pre_def validate_single_def reservation_role_def res_role_def
          str_def split: Reservation_Type.splits)
  qed
  from reformat_valid [OF v this [unfolded posted_def]]
  show "validate (posted r) = None" "amount (posted r) = amount r" "r_shared (posted r) = r_shared r"
    unfolding posted_def by simp_all
qed

lemma posted_format: "post_format (posted r)"
  by (simp add: posted_def post_format_def)

lemma posted_wf: "wf_resource r \<Longrightarrow> wf_resource (posted r)"
  by (auto simp: wf_resource_def posted_def pushed_def wf_reservation_def ranges_def split: option.splits)

lemma convert_posted: "validate_all rs = None \<Longrightarrow> convertResources POST_RESERVATION_REFINEMENT rs = Inr (map posted rs)"
  by (induction rs) (simp_all add: convertResourceFormat_def to_post_posted split: option.splits)

subsection \<open>Normalisation\<close>

lemma invalid_None [simp]: "invalid x = None \<longleftrightarrow> x = None"
  by (simp add: invalid_def)

lemma normalize_field_yields:
  "yields (normalize_field type field) (\<lambda>rs. rs = map posted (repeated field) \<and> validate_all (repeated field) = None)"
  by (cases field; cases "validate_all (repeated field)")
    (auto simp: normalize_field_def repeated_def convert_posted invalid_def split: option.splits)

lemma normalize_option_posted:
  "(case x of None \<Rightarrow> None | Some rs \<Rightarrow> invalid (validate_all rs)) = None \<Longrightarrow>
   normalize_option x = Inr (map_option (map posted) x)"
  by (cases x) (simp_all add: normalize_option_def convert_posted)

definition posted_task :: "task_info \<Rightarrow> task_info" where
  "posted_task task =
     task\<lparr>task_resources := map posted (task_resources task),
          task_executor := map_option (map posted) (task_executor task)\<rparr>"

lemma normalize_tasks_posted: "validate_tasks tasks = None \<Longrightarrow> normalize_tasks tasks = Inr (map posted_task tasks)"
  by (induction tasks) (simp_all add: convert_posted normalize_option_posted posted_task_def)

text \<open>What a normalised operation is: the same operation with every resource it holds converted.\<close>

definition normalized :: "Offer_Operation \<Rightarrow> Offer_Operation" where
  "normalized operation =
     (case op_type operation of
        OP_RESERVE \<Rightarrow> operation\<lparr>op_reserve := map_option (map posted) (op_reserve operation)\<rparr>
      | OP_UNRESERVE \<Rightarrow> operation\<lparr>op_unreserve := map_option (map posted) (op_unreserve operation)\<rparr>
      | OP_CREATE \<Rightarrow> operation\<lparr>op_create := map_option (map posted) (op_create operation)\<rparr>
      | OP_DESTROY \<Rightarrow> operation\<lparr>op_destroy := map_option (map posted) (op_destroy operation)\<rparr>
      | OP_LAUNCH \<Rightarrow> operation\<lparr>op_launch := map_option (map posted_task) (op_launch operation)\<rparr>
      | OP_LAUNCH_GROUP \<Rightarrow> operation\<lparr>op_launch_group :=
          map_option (\<lambda>(e, ts). (map_option (map posted) e, map posted_task ts)) (op_launch_group operation)\<rparr>
      | OP_UNKNOWN \<Rightarrow> operation)"

lemma normalize_field_cases:
  "field = None \<and> normalize_field type field = Inr (Inl (FieldNotSet type)) \<or>
   (\<exists>r e. validate_all (repeated field) = Some (r, e) \<and> normalize_field type field = Inr (Inl (InvalidResource r e))) \<or>
   (\<exists>rs. field = Some rs \<and> validate_all rs = None \<and> normalize_field type field = Inr (Inr (map posted rs)))"
  by (cases field; cases "validate_all (repeated field)")
    (auto simp: normalize_field_def repeated_def convert_posted invalid_def)

lemma normalize_yields:
  "yields (validateAndNormalizeResources operation) (\<lambda>x. x = normalized operation \<and> validate_all (operands operation) = None)"
proof (cases "op_type operation")
  case OP_LAUNCH
  then show ?thesis
    by (auto simp: validateAndNormalizeResources_def normalized_def operands_def normalize_tasks_posted
        split: option.splits)
next
  case OP_LAUNCH_GROUP
  then show ?thesis
    by (auto simp: validateAndNormalizeResources_def normalized_def operands_def normalize_tasks_posted
        normalize_option_posted split: option.split prod.split)
next
  case OP_RESERVE
  then show ?thesis
    using normalize_field_cases [of "op_reserve operation" OP_RESERVE]
    by (auto simp: validateAndNormalizeResources_def normalized_def operands_def andTry_def repeated_def)
next
  case OP_UNRESERVE
  then show ?thesis
    using normalize_field_cases [of "op_unreserve operation" OP_UNRESERVE]
    by (auto simp: validateAndNormalizeResources_def normalized_def operands_def andTry_def repeated_def)
next
  case OP_CREATE
  then show ?thesis
    using normalize_field_cases [of "op_create operation" OP_CREATE]
    by (auto simp: validateAndNormalizeResources_def normalized_def operands_def andTry_def repeated_def)
next
  case OP_DESTROY
  then show ?thesis
    using normalize_field_cases [of "op_destroy operation" OP_DESTROY]
    by (auto simp: validateAndNormalizeResources_def normalized_def operands_def andTry_def repeated_def)
qed (simp add: validateAndNormalizeResources_def)

lemma operands_normalized: "operands (normalized operation) = map posted (operands operation)"
  by (cases "op_type operation") (auto simp: operands_def normalized_def repeated_def split: option.splits)

subsection \<open>Round trips\<close>

lemma single_reservation:
  assumes "r_reservations r = [v]" and "validate_post r = None"
  shows "\<exists>ty role. rsv_type v = Some ty \<and> rsv_role v = Some role \<and> role \<noteq> ''*'' \<and> (ty = STATIC \<or> ty = DYNAMIC)"
proof -
  have "rsv_type v \<noteq> None" "rsv_role v \<noteq> None" "reservation_role v \<noteq> ''*''"
    using assms by (auto simp: validate_post_def split: if_splits option.splits)
  moreover have "reservation_type v \<noteq> RESERVATION_UNKNOWN"
    using assms by (auto simp: validate_post_def validate_single_def split: if_splits)
  ultimately show ?thesis
    by (cases "reservation_type v") (auto simp: reservation_role_def reservation_type_def str_def)
qed

text \<open>The format before refinement has no place for the principal and the labels of a static reservation.\<close>

definition forget_static :: "ReservationInfo \<Rightarrow> ReservationInfo" where
  "forget_static v = (if reservation_type v = STATIC then v\<lparr>rsv_principal := None, rsv_labels := None\<rparr> else v)"

lemma pre_post_single:
  assumes "validate r = None" and "post_format r" and l: "r_reservations r = [v]"
  shows "andThen (convertResourceFormat PRE_RESERVATION_REFINEMENT r) to_post = Inr (r\<lparr>r_reservations := [forget_static v]\<rparr>)"
proof -
  have "validate_post r = None" using validate_format [OF assms(1)] l by simp
  then obtain ty role where ty: "rsv_type v = Some ty" "rsv_role v = Some role" "role \<noteq> ''*''"
      "ty = STATIC \<or> ty = DYNAMIC"
    using single_reservation [OF l] by metis
  let ?q = "r\<lparr>r_role := None, r_reservation := None, r_reservations := [forget_static v]\<rparr>"
  have s: "\<lparr>rsv_type = Some STATIC, rsv_role = Some role, rsv_principal = None, rsv_labels = None\<rparr> = forget_static v" if "ty = STATIC"
    using ty that by (intro ReservationInfo.equality) (auto simp: reservation_type_def forget_static_def)
  have d: "\<lparr>rsv_type = Some DYNAMIC, rsv_role = Some role, rsv_principal = rsv_principal v, rsv_labels = rsv_labels v\<rparr> = forget_static v"
    if "ty = DYNAMIC"
    using ty that by (intro ReservationInfo.equality) (auto simp: reservation_type_def forget_static_def)
  have f: "r_role r = None" "r_reservation r = None" using assms(2) by (simp_all add: post_format_def)
  with ty l s d have "andThen (convertResourceFormat PRE_RESERVATION_REFINEMENT r) to_post = Inr ?q"
    by (auto simp: convertResourceFormat_def to_pre_def to_post_def res_role_def reservation_type_def
        reservation_role_def str_def Let_def)
  moreover have "?q = r\<lparr>r_reservations := [forget_static v]\<rparr>" by (intro Resource.equality) (simp_all add: f)
  ultimately show ?thesis by simp
qed

lemma pre_post:
  assumes "validate r = None" and "post_format r"
  shows "andThen (convertResourceFormat PRE_RESERVATION_REFINEMENT r) to_post =
    (if length (r_reservations r) \<le> 1 then Inr (r\<lparr>r_reservations := map forget_static (r_reservations r)\<rparr>) else Inl CheckFailed)"
proof -
  have f: "r_role r = None" "r_reservation r = None" using assms(2) by (simp_all add: post_format_def)
  consider "r_reservations r = []" | v where "r_reservations r = [v]" | v w vs where "r_reservations r = v # w # vs"
    by (metis list.exhaust)
  then show ?thesis
  proof cases
    case 1
    have "r\<lparr>r_role := None\<rparr> = r\<lparr>r_reservations := []\<rparr>" using f 1 by (intro Resource.equality) simp_all
    with 1 f show ?thesis by (simp add: convertResourceFormat_def to_pre_def to_post_def res_role_def)
  next
    case 2
    then show ?thesis using pre_post_single [OF assms] by simp
  next
    case 3
    then show ?thesis using f by (simp add: convertResourceFormat_def to_pre_def)
  qed
qed

lemma endpoint_post:
  assumes "post_format r"
  shows "andThen (convertResourceFormat ENDPOINT r) to_post = Inr r"
proof -
  have f: "r_role r = None" "r_reservation r = None" using assms by (simp_all add: post_format_def)
  have e: "r\<lparr>r_role := None, r_reservation := None\<rparr> = r" "r\<lparr>r_role := None\<rparr> = r"
    by (intro Resource.equality; simp add: f)+
  consider "r_reservations r = []" | v where "r_reservations r = [v]" | v w vs where "r_reservations r = v # w # vs"
    by (metis list.exhaust)
  then show ?thesis
  proof cases
    case 1
    with f e show ?thesis by (simp add: convertResourceFormat_def to_pre_def to_post_def res_role_def)
  next
    case 2
    with f e show ?thesis
      by (cases "reservation_type v") (simp_all add: convertResourceFormat_def to_pre_def to_post_def Let_def)
  next
    case 3
    with f e show ?thesis by (simp add: convertResourceFormat_def to_pre_def to_post_def Let_def)
  qed
qed

lemma post_pre:
  assumes "validate r = None" and l: "r_reservations r = []"
  shows "andThen (to_post r) (convertResourceFormat PRE_RESERVATION_REFINEMENT) = Inr (r\<lparr>r_role := Some (res_role r)\<rparr>)"
proof -
  have p: "validate_pre r = None" using validate_format [OF assms(1)] l by simp
  have n: "rsv_type v = None \<and> rsv_role v = None \<and> res_role r \<noteq> ''*''" if "r_reservation r = Some v" for v
    using p that by (auto simp: validate_pre_def split: option.splits if_splits)
  show ?thesis
  proof (cases "r_reservation r")
    case None
    let ?q = "r\<lparr>r_role := Some (res_role r), r_reservation := None, r_reservations := []\<rparr>"
    have "?q = r\<lparr>r_role := Some (res_role r)\<rparr>" using None l by (intro Resource.equality) simp_all
    with None l show ?thesis
      by (auto simp: convertResourceFormat_def to_pre_def to_post_def res_role_def reservation_type_def
          reservation_role_def str_def Let_def)
  next
    case (Some v)
    have "v = \<lparr>rsv_type = None, rsv_role = None, rsv_principal = rsv_principal v, rsv_labels = rsv_labels v\<rparr>"
      using n [OF Some] by (intro ReservationInfo.equality) simp_all
    then have "r\<lparr>r_role := Some (res_role r), r_reservations := [], r_reservation :=
        Some \<lparr>rsv_type = None, rsv_role = None, rsv_principal = rsv_principal v, rsv_labels = rsv_labels v\<rparr>\<rparr> =
        r\<lparr>r_role := Some (res_role r)\<rparr>"
      using Some l by (intro Resource.equality) simp_all
    with Some l n [OF Some] show ?thesis
      by (auto simp: convertResourceFormat_def to_pre_def to_post_def reservation_type_def
          reservation_role_def str_def Let_def)
  qed
qed

subsection \<open>Checkpointed resources keep the totals\<close>

definition stripped :: "Resource \<Rightarrow> Resource" where
  "stripped r =
     (let q = (if r_reservations r \<noteq> [] \<and> reservation_type (last (r_reservations r)) = DYNAMIC
               then strip_reservations r else r)
      in if has_persistence r then strip_volume q else q\<lparr>r_shared := False\<rparr>)"

lemma amount_stripped: "amount (stripped r) = amount r"
proof -
  have "amount (strip_reservations r) = amount r"
    by (rule amount_cong) (simp_all add: strip_reservations_def Let_def)
  moreover have "amount (q\<lparr>r_shared := False\<rparr>) = amount q" for q
    by (rule amount_cong) simp_all
  ultimately show ?thesis by (simp add: stripped_def Let_def)
qed

lemma operand_stripped:
  assumes "operand r"
  shows "operand (stripped r)"
proof -
  have "operand (strip_reservations r)" if "r_reservations r \<noteq> []"
    using assms that value_ok_cong [of "strip_reservations r" r]
    by (auto simp: operand_def sound_def post_format_def strip_reservations_def Let_def list_all_iff)
  moreover have "operand (q\<lparr>r_shared := False\<rparr>)" if "operand q" for q
    using that value_ok_cong [of "q\<lparr>r_shared := False\<rparr>" q]
    by (auto simp: operand_def sound_def post_format_def)
  ultimately show ?thesis
    using assms by (auto simp: stripped_def Let_def intro: operand_strip)
qed

lemma checkpoint_step_stripped:
  assumes "operand r"
  shows "checkpoint_step icl r rs =
    (if needCheckpointing r = Inr True
     then andThen (contains_resource rs (stripped r)) (\<lambda>c.
            if \<not> c then Inr (Inl (Incompatible (stripped r)))
            else andThen (minus_resource icl (stripped r) rs) (\<lambda>rs.
                   andThen (plus_resource r rs) (\<lambda>rs. Inr (Inr rs))))
     else Inr (Inl (UnexpectedResource r)))"
proof -
  have "isPersistentVolume r = Inr (has_persistence r)"
    using assms by (simp add: isPersistentVolume_def check_format_def operand_def sound_def post_format_def)
  then show ?thesis
    by (auto simp: checkpoint_step_def needCheckpointing_def predicates_operand [OF assms] stripped_def Let_def
        cong: if_cong)
qed

lemma checkpoint_step_conserves:
  assumes icl: "interval_set icl elements icl_inv" and rs: "rs_ok rs" and r: "operand r" "validate r = None"
  shows "yields (checkpoint_step icl r rs) (\<lambda>x. rs_ok x \<and> stock_of x = stock_of rs)"
proof (cases "needCheckpointing r = Inr True \<and> validate (stripped r) = None")
  case True
  then have n: "needCheckpointing r = Inr True" and v: "validate (stripped r) = None" by simp_all
  note os = operand_stripped [OF r(1)]
  obtain b where b: "contains_item rs (wrap (stripped r)) = Inr b"
    using contains_item_operand [OF _ os, of rs] rs by (auto simp: rs_ok_def)
  have "b \<Longrightarrow> returns (andThen (minus_resource icl (stripped r) rs) (plus_resource r))
      (\<lambda>y. rs_ok y \<and> stock_of y = stock_of rs)"
    using move_resource [OF icl rs os r(1)] b v r(2)
    by (cases "subtract icl (wrap (stripped r)) rs")
      (simp_all add: amount_stripped minus_resource_def minus_resource'_def plus_resource_def plus_resource'_def
        validate'_def)
  with n v b show ?thesis
    by (cases b) (auto simp: checkpoint_step_stripped [OF r(1)] contains_resource_operand yields_def returns_iff)
qed (auto simp: checkpoint_step_stripped [OF r(1)] contains_resource_def)

lemma checkpointed_conserves:
  assumes icl: "interval_set icl elements icl_inv" and rs: "rs_ok rs"
    and c: "\<forall>r \<in> set cs. validate (resource r) = None \<and> post_format (resource r) \<and> wf_resource (resource r) \<and>
      \<not> r_shared (resource r)"
  shows "yields (applyCheckpointedResources icl rs cs) (\<lambda>x. rs_ok x \<and> stock_of x = stock_of rs)"
  unfolding applyCheckpointedResources_def
proof (rule yields_foldTry)
  fix r x
  assume "r \<in> set (map resource cs)" and x: "rs_ok x \<and> stock_of x = stock_of rs"
  with c have "operand r" "validate r = None" by (auto simp: operand_def intro!: validate_sound)
  with checkpoint_step_conserves [OF icl] x
  show "yields (checkpoint_step icl r x) (\<lambda>x. rs_ok x \<and> stock_of x = stock_of rs)" by fastforce
qed (use rs in simp)

end
