(* ===== verification/Resources_Keys.thy ===== *)
theory Resources_Keys
  imports Resources_Operations
begin

text \<open>
  Addition and subtraction, one key at a time. The key of a resource is everything but its quantity. \<open>stock_at k rs\<close> is
  what a collection holds under the key \<open>k\<close>. Under the key of a resource that is neither shared nor exclusive (a
  disk that is a mount or a volume) a collection has at most one entry; its quantity grows by the
  sum and shrinks by the truncated difference \<open>stk_diff\<close>, and what is held under the other keys stays.
\<close>

definition stk_diff :: "stock \<Rightarrow> stock \<Rightarrow> stock" where
  "stk_diff a b =
     Stock (\<lambda>n. stk_scalar a n - stk_scalar b n) (stk_numbers a - stk_numbers b) (stk_items a - stk_items b)"

definition stock_at where
  "stock_at k rs = stock_of (filter (\<lambda>r. res_key (resource r) = k) rs)"

lemma stk_diff_zero [simp]: "stk_diff 0 b = 0" "stk_diff a 0 = a" "stk_diff a a = 0"
  by (auto simp: stk_diff_def intro!: stock_eqI)

subsection \<open>One resource\<close>

lemma resource_sub_diff:
  assumes icl: "interval_set icl elements icl_inv"
    and s: "sound l" "sound r" and k: "res_key l = res_key r" and f: "fits (amount l)" "fits (amount r)"
  shows "holds (resource_sub_from icl l r) (\<lambda>x. amount x = stk_diff (amount l) (amount r) \<and>
    (r_type x = SCALAR \<and> scalar x < 0 \<longrightarrow> amount x = 0))"
proof -
  have n: "r_name l = r_name r" "r_type l = r_type r" using k by (simp_all add: res_key_def)
  have v: "value_ok l" "value_ok r" using s by (auto dest: sound_parts)
  show ?thesis
  proof (cases "r_type l")
    case SCALAR
    let ?l = "convertToFixed (scalar l)" and ?r = "convertToFixed (scalar r)"
    have pos: "0 \<le> ?l" "0 \<le> ?r" using v n SCALAR by (auto simp: value_ok_def convertToFixed_nonneg)
    have "nat ?l \<le> 2 ^ 50" "nat ?r \<le> 2 ^ 50"
      using f n SCALAR by (auto simp: fits_def amount_def dest: spec [of _ "r_name r"])
    with pos have b: "\<bar>?l - ?r\<bar> \<le> 2 ^ 50" by (simp add: nat_le_iff)
    let ?x = "l\<lparr>r_scalar := Some (convertToFloating (?l - ?r))\<rparr>"
    have "resource_sub_from icl l r = Inr ?x" using SCALAR n by (simp add: resource_sub_from_def scalar_sub_def)
    moreover have "amount ?x = stk_diff (amount l) (amount r)"
      using SCALAR n pos by (auto simp: amount_def stk_diff_def fixed_floating [OF b] nat_diff_distrib' intro!: stock_eqI)
    moreover have "amount ?x = 0" if "scalar ?x < 0"
    proof -
      have "?l - ?r < 0" using that convertToFloating_nonneg [of "?l - ?r"] by fastforce
      then show ?thesis using SCALAR by (auto simp: amount_def fixed_floating [OF b] intro!: stock_eqI)
    qed
    ultimately show ?thesis by simp
  next
    case RANGES
    with n v have "list_all valid_range (ranges l)" "list_all valid_range (ranges r)" by (simp_all add: value_ok_def)
    from interval_set.ranges_sub_from_spec [OF icl this] RANGES n show ?thesis
      by (auto simp: resource_sub_from_def amount_def stk_diff_def intro!: stock_eqI)
  next
    case SET
    with n v have "distinct (items l)" by (simp add: value_ok_def)
    from set_sub_from_distinct [OF this] SET n show ?thesis
      by (auto simp: resource_sub_from_def amount_def stk_diff_def intro!: stock_eqI)
  qed (use v in \<open>simp add: value_ok_def\<close>)
qed

lemma reduced_diff:
  assumes icl: "interval_set icl elements icl_inv" and e: "entry_ok e" and that: "entry_ok that"
    and c: "can_subtract (resource e) (resource that)" and sh: "\<not> r_shared (resource that)"
    and f: "fits (amount (resource e))" "fits (amount (resource that))"
  shows "holds (reduced icl e that) (\<lambda>(x, gone). res_key (resource x) = res_key (resource e) \<and>
    amount (resource x) = stk_diff (amount (resource e)) (amount (resource that)) \<and>
    gone = (amount (resource x) = 0))"
proof -
  have k: "res_key (resource e) = res_key (resource that)" using c by (simp add: can_subtract_def)
  have ne: "\<not> r_shared (resource e)" "\<not> isShared' e" using shared_key [OF k] sh entry_parts(3) [OF e] by simp_all
  note s = entry_parts(1) [OF e] entry_parts(1) [OF that]
  from resource_sub_any [OF icl s k f] obtain x where x: "resource_sub_from icl (resource e) (resource that) = Inr x"
    "res_key x = res_key (resource e)" "r_type x = SCALAR \<and> scalar x < 0 \<or> sound x"
    by (auto simp: returns_iff)
  from resource_sub_diff [OF icl s k f] have d: "amount x = stk_diff (amount (resource e)) (amount (resource that))"
    "r_type x = SCALAR \<and> scalar x < 0 \<Longrightarrow> amount x = 0" unfolding x(1) holds_simps by blast+
  let ?x = "e\<lparr>resource := x\<rparr>"
  have nx: "\<not> r_shared x" "\<not> isShared' ?x" using shared_key [OF x(2)] ne by (simp_all add: isShared'_def)
  have neg: "negative ?x \<longleftrightarrow> r_type x = SCALAR \<and> scalar x < 0" using nx by (simp add: negative_def)
  have "reduced icl e that = Inr (?x, amount x = 0)"
  proof (cases "negative ?x")
    case True
    then show ?thesis using neg d(2) ne x(1) by (simp add: reduced_def sub_from'_def)
  next
    case False
    then have "isEmpty' ?x = Inr (amount x = 0)" using neg x(3) nx amount_empty [of x] by (auto simp: isEmpty'_def)
    with False show ?thesis using ne x(1) by (simp add: reduced_def sub_from'_def)
  qed
  then show ?thesis using x(2) d(1) by simp
qed

subsection \<open>What is held under a key\<close>

lemma stock_at_mset: "stock_at k rs = sum_mset (image_mset (\<lambda>r. amount (resource r)) (filter_mset (\<lambda>r. res_key (resource r) = k) (mset rs)))"
  by (simp add: stock_at_def stock_of_def)

lemma stock_at_simps [simp]:
  "stock_at k [] = 0"
  "stock_at k (rs @ [x]) = stock_at k rs + (if res_key (resource x) = k then amount (resource x) else 0)"
  by (simp_all add: stock_at_def)

lemma stock_at_split:
  assumes "i < length rs"
  obtains rest where "\<And>k. stock_at k rs = (if res_key (resource (rs ! i)) = k then amount (resource (rs ! i)) else 0) + rest k"
    and "\<And>k x. stock_at k (rs[i := x]) = (if res_key (resource x) = k then amount (resource x) else 0) + rest k"
    and "\<And>k x. stock_at k (remove_at i (rs[i := x])) = rest k" and "\<And>k. rest k = stock_at k (remove_at i rs)"
proof -
  let ?m = "mset rs - {#rs ! i#}"
  let ?rest = "\<lambda>k. sum_mset (image_mset (\<lambda>r. amount (resource r)) (filter_mset (\<lambda>r. res_key (resource r) = k) ?m))"
  have rs: "mset rs = add_mset (rs ! i) ?m" using assms by simp
  have up: "mset (rs[i := x]) = add_mset x ?m" for x using assms by (simp add: mset_update)
  have rm: "mset (remove_at i (rs[i := x])) = ?m" for x using mset_remove_at [of i "rs[i := x]"] up [of x] assms by simp
  show ?thesis
  proof (rule that [of ?rest])
    show "stock_at k rs = (if res_key (resource (rs ! i)) = k then amount (resource (rs ! i)) else 0) + ?rest k" for k
      unfolding stock_at_mset by (subst rs) simp
    show "stock_at k (rs[i := x]) = (if res_key (resource x) = k then amount (resource x) else 0) + ?rest k" for k x
      unfolding stock_at_mset up by simp
    show "stock_at k (remove_at i (rs[i := x])) = ?rest k" for k x unfolding stock_at_mset rm ..
    show "?rest k = stock_at k (remove_at i rs)" for k unfolding stock_at_mset using rm [of "rs ! i"] by simp
  qed
qed

lemma stock_at_none: "\<forall>r \<in> set rs. res_key (resource r) \<noteq> k \<Longrightarrow> stock_at k rs = 0"
  by (simp add: stock_at_def)

text \<open>The entry under a key that is neither shared nor exclusive is the only one.\<close>

lemma single_entry:
  assumes rs: "rs_ok rs" and i: "i < length rs" and n: "\<not> r_shared (resource (rs ! i))" "\<not> exclusive (resource (rs ! i))"
  shows "stock_at (res_key (resource (rs ! i))) (remove_at i rs) = 0"
proof (rule stock_at_none, rule ballI)
  fix y
  assume "y \<in> set (remove_at i rs)"
  then obtain j where j: "j < length (remove_at i rs)" "y = remove_at i rs ! j" by (auto simp: in_set_conv_nth)
  let ?m = "if j = i then length rs - 1 else j"
  have m: "?m < length rs" "?m \<noteq> i" "y = rs ! ?m" using j remove_at_nth [OF i j(1)] by auto
  then have "\<not> can_add (resource (rs ! i)) (resource y)" using rs i by (auto simp: rs_ok_def apart_def)
  then show "res_key (resource y) \<noteq> res_key (resource (rs ! i))" using n by (simp add: can_add_def eq_commute)
qed

subsection \<open>The whole collection\<close>

lemma not_apart_key:
  assumes "\<not> r_shared r" and "\<not> exclusive r"
  shows "can_add q r \<longleftrightarrow> res_key q = res_key r" and "can_subtract q r \<longleftrightarrow> res_key q = res_key r"
  using assms shared_key [of q r] exclusive_key [of q r] by (auto simp: can_add_def can_subtract_def)

lemma exclusive_alone: "exclusive r \<Longrightarrow> \<not> r_shared r \<Longrightarrow> \<not> can_add q r"
  using exclusive_key [of q r] shared_key [of q r] by (auto simp: can_add_def)

lemma add_at:
  assumes rs: "rs_ok rs" and r: "operand r" and f: "fits (stock_of rs + amount r)"
  shows "holds (add (wrap r) rs) (\<lambda>x.
    if exclusive r then x = (if amount r = 0 then rs else rs @ [wrap r])
    else \<forall>k. stock_at k x = stock_at k rs + (if k = res_key r then amount r else 0))"
proof (cases "amount r = 0")
  case True
  then show ?thesis using r isEmpty_wrap [of r] by (simp add: add_def operand_def)
next
  case False
  have s: "sound r" "\<not> r_shared r" using r by (simp_all add: operand_def)
  have th: "entry_ok (wrap r)" using s(1) False by (rule entry_wrap)
  have eq: "add (wrap r) rs = (case find_idx (\<lambda>q. can_add (resource q) r) rs of
      None \<Rightarrow> Inr (rs @ [wrap r]) | Some i \<Rightarrow> andThen (add_to' (rs ! i) (wrap r)) (\<lambda>x. Inr (rs[i := x])))"
    using add_loop_find [OF rs_ok_sound [OF rs] entry_parts(1) [OF th]] by (simp add: add_def isEmpty_entry [OF th])
  show ?thesis
  proof (cases "find_idx (\<lambda>q. can_add (resource q) r) rs")
    case None
    with False show ?thesis by (auto simp: eq)
  next
    case (Some i)
    then have i: "i < length rs" and c: "can_add (resource (rs ! i)) r" by (simp_all add: find_idx_Some_iff)
    have ne: "\<not> exclusive r" using c exclusive_alone s(2) by blast
    have key: "res_key (resource (rs ! i)) = res_key r" using c by (simp add: can_add_def)
    obtain rest where t: "stock_of rs = amount (resource (rs ! i)) + rest" using total_split [OF i] by metis
    have "fits (amount (resource (rs ! i)) + amount (resource (wrap r)))"
      using f fits_add(1) [of "amount (resource (rs ! i)) + amount r" rest] by (simp add: t ac_simps)
    from add_to_entry [OF rs_ok_nth [OF rs i] th _ this] c s(2)
    obtain x where x: "add_to' (rs ! i) (wrap r) = Inr x" "alike (resource x) (resource (rs ! i))"
      "amount (resource x) = amount (resource (rs ! i)) + amount r"
      by (auto simp: returns_iff)
    obtain rst where a: "\<And>k. stock_at k rs = (if res_key (resource (rs ! i)) = k then amount (resource (rs ! i)) else 0) + rst k"
      "\<And>k x. stock_at k (rs[i := x]) = (if res_key (resource x) = k then amount (resource x) else 0) + rst k"
      using stock_at_split [OF i] by metis
    have "stock_at k (rs[i := x]) = stock_at k rs + (if k = res_key r then amount r else 0)" for k
      using a [of k] x(2,3) key by (simp add: alike_def ac_simps)
    with Some x(1) ne show ?thesis by (simp add: eq)
  qed
qed

lemma subtract_found:
  assumes icl: "interval_set icl elements icl_inv" and rs: "rs_ok rs" and i: "i < length rs"
    and th: "entry_ok (wrap r)" and c: "can_subtract (resource (rs ! i)) r" and sh: "\<not> r_shared r" and f: "fits (amount r)"
  shows "holds (andThen (reduced icl (rs ! i) (wrap r)) (\<lambda>(x, gone).
      Inr (if gone then remove_at i (rs[i := x]) else rs[i := x]))) (\<lambda>x.
    if exclusive r
    then (\<exists>e \<in> set rs. can_subtract (resource e) r \<and> mset rs = add_mset e (mset x)) \<or>
         (\<forall>e \<in> set rs. \<not> can_subtract (resource e) r) \<and> x = rs
    else \<forall>k. stock_at k x = (if k = res_key r then stk_diff (stock_at k rs) (amount r) else stock_at k rs))"
proof (cases "reduced icl (rs ! i) (wrap r)")
  case (Inr y)
  obtain x gone where y: "y = (x, gone)" by (cases y)
  let ?e = "rs ! i"
  have key: "res_key (resource ?e) = res_key r" using c by (simp add: can_subtract_def)
  have x: "res_key (resource x) = res_key r" "amount (resource x) = stk_diff (amount (resource ?e)) (amount r)"
    "gone = (amount (resource x) = 0)"
    using reduced_diff [OF icl rs_ok_nth [OF rs i] th _ _ fits_nth [OF rs i]] c sh f key by (simp_all add: Inr y)
  show ?thesis
  proof (cases "exclusive r")
    case True
    then have "amount (resource ?e) = amount r"
      using c key exclusive_key [OF key] by (intro same_amount) (auto simp: can_subtract_def)
    then have gone using x by simp
    moreover have "mset rs = add_mset ?e (mset (remove_at i (rs[i := x])))"
      using mset_remove_at [of i "rs[i := x]"] mset_update [OF i, of x] i by simp
    ultimately show ?thesis using True c nth_mem [OF i] by (auto simp: Inr y)
  next
    case False
    have n: "\<not> r_shared (resource ?e)" "\<not> exclusive (resource ?e)"
      using False sh shared_key [OF key] exclusive_key [OF key] by simp_all
    obtain rest where a: "\<And>k. stock_at k rs = (if res_key (resource ?e) = k then amount (resource ?e) else 0) + rest k"
      "\<And>k x. stock_at k (rs[i := x]) = (if res_key (resource x) = k then amount (resource x) else 0) + rest k"
      "\<And>k x. stock_at k (remove_at i (rs[i := x])) = rest k" "\<And>k. rest k = stock_at k (remove_at i rs)"
      using stock_at_split [OF i] by metis
    have z: "rest (res_key r) = 0" using single_entry [OF rs i n] a(4) key by simp
    have "stock_at k (if gone then remove_at i (rs[i := x]) else rs[i := x]) =
        (if k = res_key r then stk_diff (stock_at k rs) (amount r) else stock_at k rs)" for k
      using a(1-3) [of k] z x key by (cases "k = res_key r"; cases gone) simp_all
    with False show ?thesis by (simp add: Inr y)
  qed
qed simp

lemma subtract_at:
  assumes icl: "interval_set icl elements icl_inv" and rs: "rs_ok rs" and r: "operand r" and f: "fits (amount r)"
  shows "holds (subtract icl (wrap r) rs) (\<lambda>x.
    if exclusive r
    then (\<exists>e \<in> set rs. can_subtract (resource e) r \<and> mset rs = add_mset e (mset x)) \<or>
         (\<forall>e \<in> set rs. \<not> can_subtract (resource e) r) \<and> x = rs
    else \<forall>k. stock_at k x = (if k = res_key r then stk_diff (stock_at k rs) (amount r) else stock_at k rs))"
proof -
  have s: "sound r" "\<not> r_shared r" using r by (simp_all add: operand_def)
  show ?thesis
  proof (cases "amount r = 0")
    case True
    have "amount (resource e) = amount r" if "can_subtract (resource e) r" "exclusive r" for e
      using that exclusive_key [of "resource e" r] by (intro same_amount) (auto simp: can_subtract_def)
    moreover have "amount (resource e) \<noteq> 0" if "e \<in> set rs" for e using rs that by (auto simp: rs_ok_def entry_ok_def)
    ultimately have "\<forall>e \<in> set rs. \<not> can_subtract (resource e) r" if "exclusive r" using that True by metis
    then show ?thesis using True s isEmpty_wrap [of r] by (simp add: subtract_def)
  next
    case False
    have th: "entry_ok (wrap r)" using s(1) False by (rule entry_wrap)
    note eq = subtract_find [OF rs th, of icl, unfolded wrap_simps]
    show ?thesis
    proof (cases "find_idx (\<lambda>q. can_subtract (resource q) r) rs")
      case None
      then have no: "\<forall>e \<in> set rs. \<not> can_subtract (resource e) r" by (simp add: find_idx_None)
      then have "stock_at (res_key r) rs = 0" if "\<not> exclusive r"
        using not_apart_key(2) [OF s(2) that] by (intro stock_at_none) simp
      with None no show ?thesis by (auto simp: eq)
    next
      case (Some i)
      then have i: "i < length rs" and c: "can_subtract (resource (rs ! i)) r" by (simp_all add: find_idx_Some_iff)
      show ?thesis using subtract_found [OF icl rs i th c s(2) f] by (simp add: eq Some)
    qed
  qed
qed

end
