(* ===== verification/Resources_Properties.thy ===== *)
theory Resources_Properties
  imports Resources_Find Resources_Formats Resources_Keys
begin

text \<open>
  The properties of collections of resources: arithmetic, filters and quantities, offer operations,
  reservation formats and checkpointed resources, and the search for resources.
\<close>

subsection \<open>Resources for the examples\<close>

definition scalar_resource :: "string \<Rightarrow> rat \<Rightarrow> Resource" where
  "scalar_resource name v =
     \<lparr>r_provider_id = None, r_name = name, r_type = SCALAR, r_scalar = Some v, r_ranges = None, r_set = None,
      r_role = None, r_allocation_info = None, r_reservation = None, r_reservations = [], r_disk = None,
      r_revocable = False, r_shared = False\<rparr>"

definition ranges_resource :: "string \<Rightarrow> Ranges \<Rightarrow> Resource" where
  "ranges_resource name rs = (scalar_resource name 0)\<lparr>r_type := RANGES, r_scalar := None, r_ranges := Some rs\<rparr>"

definition dynamic :: "string \<Rightarrow> ReservationInfo" where
  "dynamic role = \<lparr>rsv_type = Some DYNAMIC, rsv_role = Some role, rsv_principal = None, rsv_labels = None\<rparr>"

definition volume :: "string \<Rightarrow> rat \<Rightarrow> Resource" where
  "volume pid v =
     (scalar_resource ''disk'' v)\<lparr>r_reservations := [dynamic ''ads''],
       r_disk := Some \<lparr>disk_persistence = Some \<lparr>pers_id = pid, pers_principal = None\<rparr>,
         disk_volume = Some \<lparr>vol_mode = RW, container_path = ''data'', host_path = None\<rparr>,
         disk_source = None\<rparr>\<rparr>"

lemma fits_scalar: "r_type r = SCALAR \<Longrightarrow> nat (convertToFixed (scalar r)) \<le> 2 ^ 50 \<Longrightarrow> fits (amount r)"
  by (simp add: fits_def amount_def)

lemma rs_ok_wrap: "operand r \<Longrightarrow> amount r \<noteq> 0 \<Longrightarrow> fits (amount r) \<Longrightarrow> rs_ok [wrap r]"
  using lone_wrap [of r] by (simp add: lone_def)

subsection \<open>Arithmetic\<close>

lemma valid_operand:
  "validate r = None \<Longrightarrow> post_format r \<Longrightarrow> wf_resource r \<Longrightarrow> \<not> r_shared r \<Longrightarrow> operand r"
  by (simp add: operand_def validate_sound)

lemma plus_operand:
  assumes "rs_ok rs" and "operand r" and "validate r = None" and "fits (stock_of rs + amount r)"
  shows "returns (plus_resource r rs) (\<lambda>x. rs_ok x \<and> stock_of x = stock_of rs + amount r)"
  using add_wrap [OF assms(1,2,4)] assms(2,3)
  by (simp add: plus_resource_def plus_resource'_def validate'_def operand_def)

lemma minus_operand:
  assumes icl: "interval_set icl elements icl_inv" and "rs_ok rs" and "operand r" and "validate r = None"
    and "fits (amount r)"
  shows "returns (minus_resource icl r rs) (\<lambda>x. rs_ok x \<and>
    (contains_resource rs r = Inr True \<longrightarrow> stock_of x + amount r = stock_of rs))"
proof (cases "contains_resource rs r = Inr True")
  case True
  with subtract_wrap [OF icl assms(2,3)] assms(3,4) show ?thesis
    by (simp add: minus_resource_def minus_resource'_def validate'_def operand_def contains_resource_operand)
next
  case False
  have "returns (subtract icl (wrap r) rs) rs_ok"
  proof (cases "amount r = 0")
    case True
    then show ?thesis using assms(2,3) isEmpty_wrap [of r] by (simp add: subtract_def operand_def)
  next
    case False
    then show ?thesis using subtract_entry [OF icl assms(2) entry_wrap] assms(3,5) by (simp add: operand_def)
  qed
  with False assms(3,4) show ?thesis
    by (simp add: minus_resource_def minus_resource'_def validate'_def operand_def)
qed

lemma returns_holds: "returns r P \<Longrightarrow> holds r Q \<Longrightarrow> returns r (\<lambda>x. P x \<and> Q x)"
  by (auto simp: returns_iff)

text \<open>
  C12. Adding a valid resource to a collection and subtracting one keep the invariant of the collection (every
  entry well-formed and not empty, no two entries that could be merged, totals within range) and
  never fail a check. Addition adds the quantity of the resource to the totals, and subtraction of a
  contained resource takes it away. In detail, what is held under the key of the resource (all of
  it but the quantity) grows by the quantity of the resource and shrinks by the difference, cut off at
  zero for scalars and without the common numbers and items for ranges and sets, whether or not the resource is
  contained; what is held under other keys stays. Exclusive disks (mounts and volumes) are
  appended as entries, and subtraction removes one equal entry, if there is one.
\<close>

theorem resources_refine_stock:
  assumes "interval_set icl elements icl_inv" and "rs_ok rs"
    and "validate r = None" and "post_format r" and "wf_resource r" and "\<not> r_shared r"
    and "fits (stock_of rs + amount r)"
  shows "returns (plus_resource r rs) (\<lambda>x. (rs_ok x \<and> stock_of x = stock_of rs + amount r) \<and>
      (if exclusive r then x = (if amount r = 0 then rs else rs @ [wrap r])
       else \<forall>k. stock_at k x = stock_at k rs + (if k = res_key r then amount r else 0))) \<and>
    returns (minus_resource icl r rs) (\<lambda>x. (rs_ok x \<and>
      (contains_resource rs r = Inr True \<longrightarrow> stock_of x + amount r = stock_of rs)) \<and>
      (if exclusive r
       then (\<exists>e \<in> set rs. can_subtract (resource e) r \<and> mset rs = add_mset e (mset x)) \<or>
            (\<forall>e \<in> set rs. \<not> can_subtract (resource e) r) \<and> x = rs
       else \<forall>k. stock_at k x = (if k = res_key r then stk_diff (stock_at k rs) (amount r) else stock_at k rs)))"
proof -
  note o = valid_operand [OF assms(3-6)] and f = fits_add(2) [OF assms(7)]
  have "plus_resource r rs = add (wrap r) rs" "minus_resource icl r rs = subtract icl (wrap r) rs"
    using assms(3,6) by (simp_all add: plus_resource_def plus_resource'_def minus_resource_def minus_resource'_def validate'_def)
  then show ?thesis
    using returns_holds [OF plus_operand [OF assms(2) o assms(3,7)]] add_at [OF assms(2) o assms(7)]
      returns_holds [OF minus_operand [OF assms(1,2) o assms(3) f]] subtract_at [OF assms(1,2) o f] by simp
qed

lemma example_cpus:
  "operand (scalar_resource ''cpus'' 10)" "operand (scalar_resource ''cpus'' 4)"
  "amount (scalar_resource ''cpus'' 10) = Stock (\<lambda>n. if n = ''cpus'' then 10000 else 0) {} {}"
  "amount (scalar_resource ''cpus'' 4) = Stock (\<lambda>n. if n = ''cpus'' then 4000 else 0) {} {}"
proof -
  have c: "convertToFixed 10 = 10000" "convertToFixed 4 = 4000" by code_simp+
  show "operand (scalar_resource ''cpus'' 10)" "operand (scalar_resource ''cpus'' 4)"
    by (simp_all add: operand_def sound_def post_format_def value_ok_def scalar_resource_def scalar_def)
  show "amount (scalar_resource ''cpus'' 10) = Stock (\<lambda>n. if n = ''cpus'' then 10000 else 0) {} {}"
    "amount (scalar_resource ''cpus'' 4) = Stock (\<lambda>n. if n = ''cpus'' then 4000 else 0) {} {}"
    using c by (simp_all add: amount_def scalar_def scalar_resource_def cong: if_cong)
qed

lemma example_cpus_ok: "rs_ok [wrap (scalar_resource ''cpus'' 10)]"
  by (rule rs_ok_wrap) (auto simp: example_cpus zero_stock_def fits_def fun_eq_iff)

theorem resources_refine_stock_witness:
  "returns (minus_resource list_icl (scalar_resource ''cpus'' 4) [wrap (scalar_resource ''cpus'' 10)]) (\<lambda>x.
     rs_ok x \<and> stk_scalar (stock_of x) ''cpus'' = 6000)"
proof -
  let ?r = "scalar_resource ''cpus'' 4" and ?rs = "[wrap (scalar_resource ''cpus'' 10)]"
  have c: "contains_resource ?rs ?r = Inr True" by code_simp
  have "validate ?r = None" "post_format ?r" "wf_resource ?r" "\<not> r_shared ?r" by code_simp+
  moreover have "fits (stock_of ?rs + amount ?r)" by (simp add: example_cpus fits_def)
  ultimately have "returns (minus_resource list_icl ?r ?rs) (\<lambda>x. (rs_ok x \<and>
      (contains_resource ?rs ?r = Inr True \<longrightarrow> stock_of x + amount ?r = stock_of ?rs)) \<and>
      (if exclusive ?r
       then (\<exists>e \<in> set ?rs. can_subtract (resource e) ?r \<and> mset ?rs = add_mset e (mset x)) \<or>
            (\<forall>e \<in> set ?rs. \<not> can_subtract (resource e) ?r) \<and> x = ?rs
       else \<forall>k. stock_at k x = (if k = res_key ?r then stk_diff (stock_at k ?rs) (amount ?r) else stock_at k ?rs)))"
    using resources_refine_stock [OF lis.interval_set_axioms example_cpus_ok, of ?r] by blast
  then show ?thesis
    by (rule returns_mono) (use c in \<open>auto simp: example_cpus dest: arg_cong [where f = "\<lambda>s. stk_scalar s ''cpus''"]\<close>)
qed

text \<open>
  Subtraction of a resource that is not contained still takes what there is: nothing is left of four processors after
  ten are subtracted, and ports that both sides have are gone.
\<close>

theorem minus_not_contained_truncates:
  "contains_resource [wrap (scalar_resource ''cpus'' 4)] (scalar_resource ''cpus'' 10) = Inr False \<and>
   minus_resource list_icl (scalar_resource ''cpus'' 10) [wrap (scalar_resource ''cpus'' 4)] = Inr [] \<and>
   contains_resource [wrap (ranges_resource ''ports'' [mk_range 1 5])] (ranges_resource ''ports'' [mk_range 3 8]) = Inr False \<and>
   minus_resource list_icl (ranges_resource ''ports'' [mk_range 3 8]) [wrap (ranges_resource ''ports'' [mk_range 1 5])] =
     Inr [wrap (ranges_resource ''ports'' [mk_range 1 2])]"
  by code_simp

subsection \<open>Filters and quantities\<close>

text \<open>Two queries that divide a collection by a predicate, both results again well-formed.\<close>

definition divides :: "Resources \<Rightarrow> (Resource \<Rightarrow> bool) \<Rightarrow> Resources outcome \<Rightarrow> Resources outcome \<Rightarrow> bool" where
  "divides rs p yes no \<longleftrightarrow>
     (\<exists>a b. yes = Inr a \<and> no = Inr b \<and> a = filter (\<lambda>r. p (resource r)) rs \<and> b = filter (\<lambda>r. \<not> p (resource r)) rs \<and>
        rs_ok a \<and> rs_ok b \<and> stock_of a + stock_of b = stock_of rs)"

lemma filters_divide:
  assumes rs: "rs_ok rs" and f: "\<And>r. sound r \<Longrightarrow> f r = Inr (p r)" and g: "\<And>r. sound r \<Longrightarrow> g r = Inr (\<not> p r)"
  shows "divides rs p (filter_resources f rs) (filter_resources g rs)"
proof -
  have s: "r \<in> set rs \<Longrightarrow> sound (resource r)" for r using rs_ok_sound [OF rs] by blast
  have "filter_resources f rs = Inr (filter (\<lambda>r. p (resource r)) rs)"
    "filter_resources g rs = Inr (filter (\<lambda>r. \<not> p (resource r)) rs)"
    using s f g by (auto intro!: filter_resources_filter [OF rs])
  then show ?thesis
    unfolding divides_def using rs_ok_filter [OF rs] stock_of_filter [of _ rs] by blast
qed

lemma check_format_sound [simp]: "sound r \<Longrightarrow> check_format r x = x"
  by (simp add: check_format_def sound_def post_format_def)

text \<open>
  C28. The filters for reserved and unreserved, revocable and other, shared and other resources fail no
  check on a well-formed collection. Each pair divides the entries by the property it names,
  both parts are well-formed, and their totals add up to those of the collection.
\<close>

theorem filters_partition:
  assumes "rs_ok rs"
  shows "divides rs (\<lambda>r. r_reservations r \<noteq> []) (reserved None rs) (unreserved rs) \<and>
    divides rs r_revocable (revocable rs) (nonRevocable rs) \<and>
    divides rs r_shared (shared rs) (nonShared rs)"
  unfolding reserved_def unreserved_def revocable_def nonRevocable_def shared_def nonShared_def
  by (intro conjI filters_divide [OF assms])
    (simp_all add: isReserved_def isUnreserved_def isRevocable_def isShared_def)

theorem filters_partition_witness:
  "divides [wrap (scalar_resource ''cpus'' 10)] (\<lambda>r. r_reservations r \<noteq> [])
     (reserved None [wrap (scalar_resource ''cpus'' 10)]) (unreserved [wrap (scalar_resource ''cpus'' 10)])"
  using filters_partition [OF example_cpus_ok] by simp

lemma stripped_scalar_operand:
  assumes "sound r"
  shows "returns (stripped_scalar r) (\<lambda>q. operand q \<and> amount q = amount r)"
proof -
  let ?q = "r\<lparr>r_provider_id := None, r_allocation_info := None\<rparr>"
  have "operand (?q\<lparr>r_reservations := v, r_disk := None, r_shared := False\<rparr>)" if "list_all wf_reservation v" for v
    using assms that value_ok_cong [of "?q\<lparr>r_reservations := v, r_disk := None, r_shared := False\<rparr>" r]
    by (simp add: operand_def sound_def post_format_def)
  note v = this
  have a: "amount (?q\<lparr>r_reservations := v, r_disk := None, r_shared := False\<rparr>) = amount r" for v
    by (rule amount_cong) simp_all
  have s: "sound ?q" using assms value_ok_cong [of ?q r] by (simp add: sound_def post_format_def)
  show ?thesis
  proof (cases "r_reservations r = []")
    case True
    then have "?q\<lparr>r_reservations := [], r_disk := None, r_shared := False\<rparr> = ?q\<lparr>r_disk := None, r_shared := False\<rparr>"
      by (intro Resource.equality) simp_all
    with True v [of "[]"] a [of "[]"] s show ?thesis
      by (simp add: stripped_scalar_def isReserved_def isUnreserved_def Let_def)
  next
    case False
    let ?v = "[\<lparr>rsv_type = Some STATIC, rsv_role = Some (reservation_role (last (r_reservations r))), rsv_principal = None,
      rsv_labels = None\<rparr>]"
    have "list_all wf_reservation ?v" by (simp add: wf_reservation_def)
    from v [OF this] a [of ?v] s False show ?thesis
      by (simp add: stripped_scalar_def isReserved_def isUnreserved_def reservationRole_def Let_def)
  qed
qed

definition scalars_only :: "stock \<Rightarrow> stock" where
  "scalars_only s = Stock (stk_scalar s) {} {}"

lemma scalars_only_simps [simp]:
  "scalars_only 0 = 0" "scalars_only (a + b) = scalars_only a + scalars_only b"
  by (simp_all add: scalars_only_def zero_stock_def plus_stock_def)

lemma scalars_only_amount: "scalars_only (amount r) = (if r_type r = SCALAR then amount r else 0)"
  by (simp add: scalars_only_def amount_def zero_stock_def split: Value_Type.splits)

lemma stripped_fold:
  assumes "\<forall>r \<in> set rs. sound (resource r)" and "rs_ok acc" and "fits (stock_of acc + scalars_only (stock_of rs))"
  shows "returns (foldOutcome (\<lambda>r stripped.
       if r_type (resource r) = SCALAR
       then andThen (stripped_scalar (resource r)) (\<lambda>scalar. add (wrap scalar) stripped)
       else Inr stripped) rs acc) (\<lambda>x. rs_ok x \<and> stock_of x = stock_of acc + scalars_only (stock_of rs))"
  using assms
proof (induction rs arbitrary: acc)
  case (Cons r rs)
  show ?case
  proof (cases "r_type (resource r) = SCALAR")
    case True
    have f: "fits ((stock_of acc + amount (resource r)) + scalars_only (stock_of rs))"
      using Cons.prems(3) True by (simp add: scalars_only_amount ac_simps)
    obtain q where q: "stripped_scalar (resource r) = Inr q" "operand q" "amount q = amount (resource r)"
      using stripped_scalar_operand [of "resource r"] Cons.prems(1) by (auto simp: returns_iff)
    obtain x where x: "add (wrap q) acc = Inr x" "rs_ok x" "stock_of x = stock_of acc + amount (resource r)"
      using add_wrap [OF Cons.prems(2) q(2)] fits_add(1) [OF f] q(3) by (auto simp: returns_iff)
    from Cons.IH [OF _ x(2)] f Cons.prems(1) show ?thesis
      by (simp add: True q(1) x(1,3) scalars_only_amount add.assoc)
  next
    case False
    with Cons show ?thesis by (simp add: scalars_only_amount)
  qed
qed simp

lemma stripped_quantity:
  assumes "rs_ok rs"
  shows "returns (createStrippedScalarQuantity rs) (\<lambda>x. rs_ok x \<and> stock_of x = scalars_only (stock_of rs))"
proof -
  have "fits (scalars_only (stock_of rs))" using assms by (simp add: rs_ok_def fits_def scalars_only_def)
  with stripped_fold [of rs "[]"] rs_ok_sound [OF assms] show ?thesis
    by (simp add: createStrippedScalarQuantity_def)
qed

text \<open>
  C27. The quantity under a name that the accessors report is the total of the collection: for scalars
  exactly the sum of the thousandths, with no value when it is zero; for ranges the
  canonical list of the numbers held. Stripping all metadata from the scalars keeps
  their totals and the invariant, and drops everything else.
\<close>

theorem quantities_are_totals:
  assumes "rs_ok rs"
  shows "get_scalar name rs =
      (if stk_scalar (stock_of rs) name = 0 then None
       else Some (convertToFloating (int (stk_scalar (stock_of rs) name)))) \<and>
    returns (get_ranges name rs) (\<lambda>x.
      case x of None \<Rightarrow> numbers name (stock_of rs) = {}
      | Some qs \<Rightarrow> canonical qs \<and> ranges_set qs = numbers name (stock_of rs) \<and> qs \<noteq> []) \<and>
    returns (createStrippedScalarQuantity rs) (\<lambda>x. rs_ok x \<and> stock_of x = scalars_only (stock_of rs))"
  by (intro conjI get_scalar_stock [OF assms] get_ranges_stock [OF assms] stripped_quantity [OF assms])

theorem quantities_are_totals_witness:
  "get_scalar ''cpus'' [wrap (scalar_resource ''cpus'' 10)] = Some (convertToFloating 10000)"
  using quantities_are_totals [OF example_cpus_ok, of "''cpus''"] by (simp add: example_cpus)

subsection \<open>Offer operations\<close>

lemma normalized_operands:
  assumes "\<forall>r \<in> set (operands operation). wf_resource r \<and> \<not> r_shared r" and "validate_all (operands operation) = None"
  shows "\<forall>r \<in> set (operands (normalized operation)). post_format r \<and> wf_resource r \<and> \<not> r_shared r"
  using assms by (auto simp: operands_normalized posted_format posted_wf posted_valid(3) validate_all_None)

text \<open>
  C11. An offer operation whose resources are not shared is normalised and then applied to a well-formed
  collection without failing a check, those on the totals at the end of \<open>apply\<close> included:
  either one of the two steps reports an error, or the result is well-formed and has the totals of the collection.
\<close>

theorem offer_operation_conserves:
  assumes "interval_set icl elements icl_inv" and "rs_ok rs"
    and "\<forall>r \<in> set (operands operation). wf_resource r \<and> \<not> r_shared r"
  shows "yields (validateAndNormalizeResources operation) (\<lambda>operation.
    yields (apply_resources icl rs operation) (\<lambda>x. rs_ok x \<and> stock_of x = stock_of rs))"
proof -
  have "yields (apply_resources icl rs (normalized operation)) (\<lambda>x. rs_ok x \<and> stock_of x = stock_of rs)"
    if "validate_all (operands operation) = None"
    using apply_conserves [OF assms(1,2) normalized_operands [OF assms(3) that]] by (simp add: conserves_def)
  then show ?thesis by (intro yields_mono [OF normalize_yields [of operation]]) simp
qed

definition example_reserve :: Offer_Operation where
  "example_reserve =
     \<lparr>op_type = OP_RESERVE, op_launch = None, op_launch_group = None,
      op_reserve = Some [(scalar_resource ''cpus'' 4)\<lparr>r_role := Some ''ads'', r_reservation := Some
        \<lparr>rsv_type = None, rsv_role = None, rsv_principal = None, rsv_labels = None\<rparr>\<rparr>],
      op_unreserve = None, op_create = None, op_destroy = None\<rparr>"

theorem offer_operation_conserves_witness:
  "yields (apply_resources list_icl [wrap (scalar_resource ''cpus'' 10)]
      (example_reserve\<lparr>op_reserve := Some [(scalar_resource ''cpus'' 4)\<lparr>r_reservations := [dynamic ''ads'']\<rparr>]\<rparr>))
     (\<lambda>x. rs_ok x \<and> stk_scalar (stock_of x) ''cpus'' = 10000)"
proof -
  have n: "validateAndNormalizeResources example_reserve =
      Inr (Inr (example_reserve\<lparr>op_reserve := Some [(scalar_resource ''cpus'' 4)\<lparr>r_reservations := [dynamic ''ads'']\<rparr>]\<rparr>))"
    by code_simp
  have "\<forall>r \<in> set (operands example_reserve). wf_resource r \<and> \<not> r_shared r" by code_simp
  from offer_operation_conserves [OF lis.interval_set_axioms example_cpus_ok this, unfolded n yields_simps]
  show ?thesis by (rule yields_mono) (simp add: example_cpus)
qed

definition accepted :: "('e + 'a) outcome \<Rightarrow> bool" where
  "accepted x = (case x of Inr (Inr y) \<Rightarrow> True | _ \<Rightarrow> False)"

lemma accepted_iff: "accepted x \<longleftrightarrow> (\<exists>y. x = Inr (Inr y))"
  by (auto simp: accepted_def split: sum.splits)

lemma accepted_simps [simp]: "\<not> accepted (Inl f)" "\<not> accepted (Inr (Inl e))" "accepted (Inr (Inr y))"
  by (simp_all add: accepted_def)

lemma reserve_accepts:
  assumes icl: "interval_set icl elements icl_inv" and rs: "rs_ok rs" and r: "operand r" "validate r = None"
  shows "accepted (reserve_step icl r rs) \<longleftrightarrow>
    r_reservations r \<noteq> [] \<and> reservation_type (last (r_reservations r)) = DYNAMIC \<and> (amount r = 0 \<or> held rs (pop r))"
proof (cases "r_reservations r = [] \<or> reservation_type (last (r_reservations r)) \<noteq> DYNAMIC")
  case True
  then show ?thesis using r by (auto simp: reserve_step_def predicates_operand)
next
  case False
  then have d: "r_reservations r \<noteq> []" "reservation_type (last (r_reservations r)) = DYNAMIC" by simp_all
  note pop = pop_of_resource [OF r d(1)] and op = operand_pop [OF r(1)]
  note c = contains_single [OF icl rs op] contains_held [OF rs op]
  have nil: "contains icl rs [] = Inr True" "minus_resources icl rs [] = Inr rs"
    by (simp_all add: contains_def minus_resources_def)
  have minus_single: "minus_resources icl rs [q] = subtract icl q rs" for q
    by (cases "subtract icl q rs") (simp_all add: minus_resources_def)
  have "add (wrap r) rs = Inr rs" if "amount r = 0"
    using that isEmpty_wrap [of r] r(1) by (simp add: add_def operand_def)
  moreover have "accepted (andThen (subtract icl (wrap (pop r)) rs) (\<lambda>x. andThen (add (wrap r) x) (\<lambda>x. Inr (Inr x))))"
    if "held rs (pop r)"
    using move_resource [OF icl rs op r(1)] that by (auto simp: c(2) returns_iff)
  ultimately show ?thesis
    using r d by (auto simp: reserve_step_def predicates_operand pop c nil minus_single)
qed

lemma unreserve_accepts:
  assumes icl: "interval_set icl elements icl_inv" and rs: "rs_ok rs" and r: "operand r" "validate r = None"
  shows "accepted (unreserve_step icl r rs) \<longleftrightarrow>
    r_reservations r \<noteq> [] \<and> reservation_type (last (r_reservations r)) = DYNAMIC \<and> held rs r"
proof (cases "r_reservations r = [] \<or> reservation_type (last (r_reservations r)) \<noteq> DYNAMIC \<or> \<not> held rs r")
  case True
  then show ?thesis
    using r by (auto simp: unreserve_step_def predicates_operand contains_resource_operand contains_held [OF rs])
next
  case False
  then have d: "r_reservations r \<noteq> []" "reservation_type (last (r_reservations r)) = DYNAMIC" "held rs r" by simp_all
  note pop = pop_of_resource [OF r d(1)] and op = operand_pop [OF r(1)]
  have "plus_resources x (if amount r = 0 then [] else [wrap (pop r)]) = add (wrap (pop r)) x" for x
    using op isEmpty_wrap [of "pop r"] by (cases "add (wrap (pop r)) x") (auto simp: plus_resources_def add_def operand_def)
  with move_resource [OF icl rs r(1) op] d r show ?thesis
    by (auto simp: unreserve_step_def predicates_operand contains_resource_operand contains_held [OF rs] pop returns_iff)
qed

lemma create_accepts:
  assumes icl: "interval_set icl elements icl_inv" and rs: "rs_ok rs" and r: "operand r"
  shows "accepted (create_step icl r rs) \<longleftrightarrow>
    has_persistence r \<and> validate (strip_volume r) = None \<and> held rs (strip_volume r)"
proof (cases "has_persistence r \<and> validate (strip_volume r) = None \<and> held rs (strip_volume r)")
  case True
  moreover have "r_disk r \<noteq> None" using True by (auto simp: has_persistence_def split: option.splits)
  ultimately show ?thesis
    using move_resource [OF icl rs operand_strip [OF r] r]
    by (auto simp: create_step_def contains_resource_operand contains_held [OF rs operand_strip [OF r]] returns_iff)
next
  case False
  then show ?thesis
    using contains_held [OF rs operand_strip [OF r]]
    by (auto simp: create_step_def contains_resource_def Let_def)
qed

lemma apply_accepted:
  assumes icl: "interval_set icl elements icl_inv" and rs: "rs_ok rs"
    and ops: "\<forall>r \<in> set (operands operation). post_format r \<and> wf_resource r \<and> \<not> r_shared r"
  shows "accepted (apply_resources icl rs operation) = accepted (apply_operation icl operation rs)"
proof -
  from apply_operation_conserves [OF icl rs ops] obtain y where y: "apply_operation icl operation rs = Inr y"
    "case y of Inl _ \<Rightarrow> True | Inr x \<Rightarrow> rs_ok x \<and> stock_of x = stock_of rs"
    unfolding conserves_def yields_def returns_iff by blast
  then show ?thesis
    by (cases y) (simp_all add: apply_resources_def andTry_def check_totals_ok [OF rs])
qed

lemma single_accepted:
  "accepted (with_operands (Some [r]) step rs) \<longleftrightarrow> validate r = None \<and> accepted (step r rs)"
proof (cases "validate r")
  case None
  then show ?thesis
    by (cases "step r rs") (auto simp: with_operands_def repeated_def accepted_iff andTry_def split: sum.splits)
qed (simp add: with_operands_def repeated_def)

definition operation :: "Operation_Type \<Rightarrow> Resource \<Rightarrow> Offer_Operation" where
  "operation type r =
     \<lparr>op_type = type, op_launch = None, op_launch_group = None, op_reserve = Some [r], op_unreserve = Some [r],
      op_create = Some [r], op_destroy = Some [r]\<rparr>"

text \<open>
  C13. Which operations \<open>apply\<close> accepts. A reservation needs a valid, dynamically reserved resource whose
  part below the new reservation one entry of the collection holds, or nothing at all to
  move; its removal needs such a resource that one entry holds; and a persistent volume needs
  one entry with the disk it is made of.
\<close>

theorem apply_accepts:
  assumes "interval_set icl elements icl_inv" and "rs_ok rs" and "post_format r" and "wf_resource r" and "\<not> r_shared r"
  shows "(accepted (apply_resources icl rs (operation OP_RESERVE r)) \<longleftrightarrow> validate r = None \<and> r_reservations r \<noteq> [] \<and>
      reservation_type (last (r_reservations r)) = DYNAMIC \<and> (amount r = 0 \<or> held rs (pop r))) \<and>
    (accepted (apply_resources icl rs (operation OP_UNRESERVE r)) \<longleftrightarrow> validate r = None \<and> r_reservations r \<noteq> [] \<and>
      reservation_type (last (r_reservations r)) = DYNAMIC \<and> held rs r) \<and>
    (accepted (apply_resources icl rs (operation OP_CREATE r)) \<longleftrightarrow> validate r = None \<and> has_persistence r \<and>
      validate (strip_volume r) = None \<and> held rs (strip_volume r))"
proof -
  have op: "accepted (apply_resources icl rs (operation type r)) = accepted (apply_operation icl (operation type r) rs)" for type
    by (rule apply_accepted [OF assms(1,2)])
      (use assms(3-5) in \<open>auto simp: operands_def operation_def repeated_def split: Operation_Type.splits\<close>)
  have "validate r = None \<Longrightarrow> operand r" using valid_operand assms(3-5) by blast
  then show ?thesis
    using reserve_accepts [OF assms(1,2)] unreserve_accepts [OF assms(1,2)] create_accepts [OF assms(1,2)]
    unfolding op by (auto simp: apply_operation_def operation_def single_accepted)
qed

theorem apply_accepts_witness:
  "accepted (apply_resources list_icl [wrap (scalar_resource ''cpus'' 10)]
      (operation OP_RESERVE ((scalar_resource ''cpus'' 4)\<lparr>r_reservations := [dynamic ''ads'']\<rparr>))) \<and>
   \<not> accepted (apply_resources list_icl [wrap (scalar_resource ''cpus'' 10)]
      (operation OP_UNRESERVE ((scalar_resource ''cpus'' 4)\<lparr>r_reservations := [dynamic ''ads'']\<rparr>)))"
proof -
  let ?r = "(scalar_resource ''cpus'' 4)\<lparr>r_reservations := [dynamic ''ads'']\<rparr>"
    and ?rs = "[wrap (scalar_resource ''cpus'' 10)]"
  have "post_format ?r" "wf_resource ?r" "\<not> r_shared ?r" by code_simp+
  moreover have "validate ?r = None" "r_reservations ?r \<noteq> []" "reservation_type (last (r_reservations ?r)) = DYNAMIC" by code_simp+
  moreover have "held ?rs (pop ?r)" "\<not> held ?rs ?r" by code_simp+
  ultimately show ?thesis
    using apply_accepts [OF lis.interval_set_axioms example_cpus_ok, of ?r] by simp
qed

subsection \<open>Reservation formats\<close>

text \<open>
  C14. Conversion brings every resource that passes validation to the one format the rest of the code
  works on: it fails no check, and the result passes validation again, has neither a role nor a
  reservation of the old format, is sound for arithmetic and comparison and has the same quantity.
\<close>

theorem valid_resource_normalizes:
  assumes "validate r = None" and "wf_resource r"
  shows "returns (convertResourceFormat POST_RESERVATION_REFINEMENT r) (\<lambda>q.
    validate q = None \<and> post_format q \<and> sound q \<and> amount q = amount r)"
  using posted_valid [OF assms(1)] posted_format [of r] posted_wf [OF assms(2)] validate_sound [of "posted r"]
  by (simp add: convertResourceFormat_def to_post_posted [OF assms(1)])

theorem valid_resource_normalizes_witness:
  "returns (convertResourceFormat POST_RESERVATION_REFINEMENT ((scalar_resource ''cpus'' 4)\<lparr>r_role := Some ''ads''\<rparr>))
     (\<lambda>q. validate q = None \<and> post_format q \<and> sound q)"
proof -
  let ?r = "(scalar_resource ''cpus'' 4)\<lparr>r_role := Some ''ads''\<rparr>"
  have "validate ?r = None" "wf_resource ?r" by code_simp+
  from valid_resource_normalizes [OF this] show ?thesis by (rule returns_mono) simp
qed

text \<open>
  C30. What conversion away from the common format and back does to a valid resource. Through the format
  before refinement, a resource with at most one reservation is restored, except that a static
  reservation loses its principal and its labels, and one with refined reservations fails the check
  that the conversion documents. Through the format of endpoints every resource is restored. In the
  other direction, a resource in the old format comes back with its role written out, also where
  it was left at its default.
\<close>

theorem format_roundtrip:
  "(validate r = None \<and> post_format r \<longrightarrow>
    andThen (convertResourceFormat PRE_RESERVATION_REFINEMENT r) (convertResourceFormat POST_RESERVATION_REFINEMENT) =
      (if length (r_reservations r) \<le> 1 then Inr (r\<lparr>r_reservations := map forget_static (r_reservations r)\<rparr>)
       else Inl CheckFailed)) \<and>
   (post_format r \<longrightarrow>
    andThen (convertResourceFormat ENDPOINT r) (convertResourceFormat POST_RESERVATION_REFINEMENT) = Inr r) \<and>
   (validate r = None \<and> r_reservations r = [] \<longrightarrow>
    andThen (convertResourceFormat POST_RESERVATION_REFINEMENT r) (convertResourceFormat PRE_RESERVATION_REFINEMENT) =
      Inr (r\<lparr>r_role := Some (res_role r)\<rparr>))"
proof -
  have "convertResourceFormat POST_RESERVATION_REFINEMENT = to_post" by (simp add: convertResourceFormat_def fun_eq_iff)
  then show ?thesis using pre_post [of r] endpoint_post [of r] post_pre [of r] by simp
qed

theorem format_roundtrip_witness:
  "andThen (convertResourceFormat PRE_RESERVATION_REFINEMENT ((scalar_resource ''cpus'' 4)\<lparr>r_reservations := [dynamic ''ads'']\<rparr>))
     (convertResourceFormat POST_RESERVATION_REFINEMENT) =
   Inr ((scalar_resource ''cpus'' 4)\<lparr>r_reservations := [dynamic ''ads'']\<rparr>)"
proof -
  let ?r = "(scalar_resource ''cpus'' 4)\<lparr>r_reservations := [dynamic ''ads'']\<rparr>"
  have "validate ?r = None" "post_format ?r" "length (r_reservations ?r) \<le> 1"
    "map forget_static (r_reservations ?r) = r_reservations ?r" by code_simp+
  then show ?thesis using format_roundtrip [of ?r] by simp
qed

text \<open>
  A valid static reservation may name a principal; the trip through the old format drops it.
\<close>

theorem static_principal_lost:
  "let v = (dynamic ''ads'')\<lparr>rsv_type := Some STATIC, rsv_principal := Some ''op''\<rparr>;
       r = (scalar_resource ''cpus'' 4)\<lparr>r_reservations := [v]\<rparr>
   in validate r = None \<and>
      andThen (convertResourceFormat PRE_RESERVATION_REFINEMENT r) (convertResourceFormat POST_RESERVATION_REFINEMENT) =
        Inr (r\<lparr>r_reservations := [v\<lparr>rsv_principal := None\<rparr>]\<rparr>)"
  by code_simp

text \<open>
  C16. Applying checkpointed resources to the resources of an agent never fails a check when the
  checkpointed resources are valid, in the common format and not shared: it reports an
  error or gives a well-formed collection with the totals of the agent.
\<close>

theorem checkpointed_conserved:
  assumes "interval_set icl elements icl_inv" and "rs_ok rs"
    and "\<forall>r \<in> set checkpointed. validate (resource r) = None \<and> post_format (resource r) \<and>
      wf_resource (resource r) \<and> \<not> r_shared (resource r)"
  shows "yields (applyCheckpointedResources icl rs checkpointed) (\<lambda>x. rs_ok x \<and> stock_of x = stock_of rs)"
  by (rule checkpointed_conserves [OF assms])

theorem checkpointed_conserved_witness:
  "\<exists>x. applyCheckpointedResources list_icl [wrap (scalar_resource ''cpus'' 10)]
      [wrap ((scalar_resource ''cpus'' 4)\<lparr>r_reservations := [dynamic ''ads'']\<rparr>)] = Inr (Inr x) \<and>
    rs_ok x \<and> stk_scalar (stock_of x) ''cpus'' = 10000"
proof -
  let ?rs = "[wrap (scalar_resource ''cpus'' 10)]"
  let ?c = "[wrap ((scalar_resource ''cpus'' 4)\<lparr>r_reservations := [dynamic ''ads'']\<rparr>)]"
  have "\<forall>r \<in> set ?c. validate (resource r) = None \<and> post_format (resource r) \<and>
      wf_resource (resource r) \<and> \<not> r_shared (resource r)" by code_simp
  from checkpointed_conserved [OF lis.interval_set_axioms example_cpus_ok this]
  have y: "yields (applyCheckpointedResources list_icl ?rs ?c) (\<lambda>x. rs_ok x \<and> stock_of x = stock_of ?rs)" .
  have "accepted (applyCheckpointedResources list_icl ?rs ?c)" by code_simp
  then obtain x where "applyCheckpointedResources list_icl ?rs ?c = Inr (Inr x)"
    by (auto simp: accepted_iff)
  with y show ?thesis by (simp add: example_cpus)
qed

subsection \<open>Finding resources\<close>

text \<open>
  C15. The search for a target in a collection of valid resources that are not shared fails no check.
  What it finds has exactly the quantity of the target, is well-formed, and is covered
  by the totals of the collection. A target without reservation that one entry holds is always found.
\<close>

theorem find_locates:
  assumes "interval_set icl elements icl_inv" and "rs_ok rs"
    and "\<forall>r \<in> set rs. validate (resource r) = None \<and> \<not> r_shared (resource r)"
    and "validate target = None" and "post_format target" and "wf_resource target" and "\<not> r_shared target"
    and "fits (amount target)"
  shows "returns (find_resource icl rs target) (\<lambda>found.
      case found of None \<Rightarrow> True
      | Some x \<Rightarrow> rs_ok x \<and> stock_of x = amount target \<and> (\<exists>rest. stock_of rs = stock_of x + rest)) \<and>
    (r_reservations target = [] \<and> amount target \<noteq> 0 \<and> held rs target \<longrightarrow> find_resource icl rs target \<noteq> Inr None)"
proof -
  have p: "\<forall>r \<in> set rs. plain r" using assms(3) by (simp add: plain_def)
  note t = valid_operand [OF assms(4-7)] assms(4,8)
  from find_located [OF assms(1,2) p t] find_succeeds [OF assms(1,2) p t] show ?thesis
    unfolding located_def by blast
qed

theorem find_locates_witness:
  "returns (find_resource list_icl [wrap (scalar_resource ''cpus'' 10)] (scalar_resource ''cpus'' 4)) (\<lambda>found.
     \<exists>x. found = Some x \<and> stk_scalar (stock_of x) ''cpus'' = 4000)"
proof -
  let ?t = "scalar_resource ''cpus'' 4" and ?rs = "[wrap (scalar_resource ''cpus'' 10)]"
  have "\<forall>r \<in> set ?rs. validate (resource r) = None \<and> \<not> r_shared (resource r)" "validate ?t = None" "post_format ?t"
    "wf_resource ?t" "\<not> r_shared ?t" "r_reservations ?t = []" "held ?rs ?t" by code_simp+
  moreover have "fits (amount ?t)" "amount ?t \<noteq> 0" by (auto simp: example_cpus fits_def zero_stock_def fun_eq_iff)
  ultimately have f: "returns (find_resource list_icl ?rs ?t) (\<lambda>found. case found of None \<Rightarrow> True
      | Some x \<Rightarrow> rs_ok x \<and> stock_of x = amount ?t \<and> (\<exists>rest. stock_of ?rs = stock_of x + rest))"
    and s: "find_resource list_icl ?rs ?t \<noteq> Inr None"
    using find_locates [OF lis.interval_set_axioms example_cpus_ok, of ?t] by blast+
  then show ?thesis by (auto simp: returns_iff example_cpus split: option.splits)
qed

subsection \<open>Shared volumes\<close>

definition copies :: "Resource \<Rightarrow> nat \<Rightarrow> Resource'" where
  "copies r n = \<lparr>resource = r, sharedCount = Some (int n)\<rparr>"

lemma wrap_copies: "r_shared r \<Longrightarrow> wrap r = copies r 1"
  by (simp add: wrap_def copies_def)

lemma copies_simps [simp]:
  "resource (copies r n) = r" "isShared' (copies r n)" "count' (copies r n) = int n" "sharedCount (copies r n) = Some (int n)"
  by (simp_all add: copies_def isShared'_def count'_def)

definition shareable :: "Resource \<Rightarrow> bool" where
  "shareable r \<longleftrightarrow> sound r \<and> validate r = None \<and> r_shared r \<and> amount r \<noteq> 0"

lemma shareable_wrap: "shareable r \<Longrightarrow> wrap r = copies r 1"
  by (simp add: shareable_def wrap_copies)

lemma copies_valid:
  assumes "shareable r"
  shows "validate' (copies r n) = None" and "isEmpty' (copies r n) = Inr (n = 0)" and "\<not> negative (copies r n)"
  using assms sound_parts(3) [of r]
  by (auto simp: shareable_def validate'_def isEmpty'_def amount_empty negative_def value_ok_def)

lemma copies_comparable:
  assumes "shareable r"
  shows "addable r r = Inr True" and "subtractable r r = Inr True" and "resource_eq r r = Inr True"
  using assms sound_parts(3) [of r] by (simp_all add: shareable_def addable_key subtractable_key resource_eq_key)

lemma add_copies:
  assumes "shareable r"
  shows "foldOutcome plus_resource (replicate m r) [copies r n] = Inr [copies r (n + m)]"
proof (induction m arbitrary: n)
  case (Suc m)
  have "add_to' (copies r n) (copies r 1) = Inr (copies r (n + 1))"
    by (simp add: add_to'_def copies_def isShared'_def count'_def)
  then have "plus_resource r [copies r n] = Inr [copies r (n + 1)]"
    using assms by (simp add: plus_resource_def plus_resource'_def shareable_wrap add_def copies_comparable copies_valid)
  with Suc.IH [of "n + 1"] show ?case by simp
qed simp

lemma subtract_copies:
  assumes "shareable r"
  shows "m \<le> n \<Longrightarrow> foldOutcome (minus_resource icl) (replicate m r) [copies r n] =
    Inr (if m < n \<or> m = 0 then [copies r (n - m)] else [])"
proof (induction m arbitrary: n)
  case (Suc m)
  have "sub_from' icl (copies r n) (copies r 1) = Inr (copies r (n - 1))"
    using Suc.prems by (simp add: sub_from'_def copies_def isShared'_def count'_def of_nat_diff)
  then have "minus_resource icl r [copies r n] = Inr (if n = 1 then [] else [copies r (n - 1)])"
    using assms Suc.prems
    by (simp add: minus_resource_def minus_resource'_def shareable_wrap subtract_def copies_comparable copies_valid
        remove_at_def)
  with Suc.IH [of "n - 1"] Suc.prems show ?case by (cases "n = 1") auto
qed simp

text \<open>
  C29. A shared volume is kept once, with a count of its copies: adding it \<open>n + 1\<close> times gives one entry
  that counts \<open>n + 1\<close> and holds the quantity of one volume, and the volume disappears from the
  collection exactly when as many copies have been subtracted.
\<close>

theorem shared_volume_counts:
  assumes "validate r = None" and "post_format r" and "wf_resource r" and "r_shared r" and "amount r \<noteq> 0"
  shows "\<exists>rs. foldOutcome plus_resource (replicate (Suc n) r) [] = Inr rs \<and> length rs = 1 \<and>
    Resources.count rs r = Inr (int (Suc n)) \<and> stock_of rs = amount r \<and>
    (\<forall>m \<le> Suc n. returns (foldOutcome (minus_resource icl) (replicate m r) rs) (\<lambda>x.
       Resources.count x r = Inr (int (Suc n - m)) \<and> (x = []) = (m = Suc n)))"
proof -
  have s: "shareable r" using assms validate_sound by (simp add: shareable_def)
  have "plus_resource r [] = Inr [copies r 1]"
    using s by (simp add: plus_resource_def plus_resource'_def shareable_wrap add_def copies_valid)
  then have f: "foldOutcome plus_resource (replicate (Suc n) r) [] = Inr [copies r (Suc n)]"
    using add_copies [OF s, of n 1] by simp
  have "returns (foldOutcome (minus_resource icl) (replicate m r) [copies r (Suc n)]) (\<lambda>x.
      Resources.count x r = Inr (int (Suc n - m)) \<and> (x = []) = (m = Suc n))" if "m \<le> Suc n" for m
    unfolding subtract_copies [OF s that] using copies_comparable(3) [OF s] that by (cases "m = Suc n") simp_all
  with copies_comparable(3) [OF s] show ?thesis unfolding f by (intro exI [of _ "[copies r (Suc n)]"]) simp
qed

theorem shared_volume_counts_witness:
  "\<exists>rs. foldOutcome plus_resource (replicate 3 ((volume ''v'' 5)\<lparr>r_shared := True\<rparr>)) [] = Inr rs \<and> length rs = 1 \<and>
    Resources.count rs ((volume ''v'' 5)\<lparr>r_shared := True\<rparr>) = Inr 3"
proof -
  let ?r = "(volume ''v'' 5)\<lparr>r_shared := True\<rparr>"
  have v: "validate ?r = None" "post_format ?r" "wf_resource ?r" "r_shared ?r" by code_simp+
  have "isEmpty ?r = Inr False" by code_simp
  then have "amount ?r \<noteq> 0" using amount_empty [OF validate_sound [OF v(1-3)]] by simp
  have "Suc 2 = 3" "int 3 = 3" by simp_all
  from shared_volume_counts [OF v \<open>amount ?r \<noteq> 0\<close>, of 2 list_icl, unfolded this] show ?thesis by blast
qed

subsection \<open>Divergences\<close>

text \<open>Validation compares each range with the later ones by their begins only and accepts ranges that overlap.\<close>

theorem validate_accepts_overlap:
  "validate (ranges_resource ''ports'' [mk_range 5 10, mk_range 1 6]) = None"
  by code_simp

text \<open>Creating a shared volume that already exists fails the check of the totals of disk.\<close>

theorem create_shared_twice_fails:
  "\<exists>e. apply_resources list_icl
     [wrap ((volume ''v'' 5)\<lparr>r_shared := True\<rparr>), wrap ((scalar_resource ''disk'' 5)\<lparr>r_reservations := [dynamic ''ads'']\<rparr>)]
     (operation OP_CREATE ((volume ''v'' 5)\<lparr>r_shared := True\<rparr>)) = Inl e"
proof -
  have "\<not> returns (apply_resources list_icl
     [wrap ((volume ''v'' 5)\<lparr>r_shared := True\<rparr>), wrap ((scalar_resource ''disk'' 5)\<lparr>r_reservations := [dynamic ''ads'']\<rparr>)]
     (operation OP_CREATE ((volume ''v'' 5)\<lparr>r_shared := True\<rparr>))) (\<lambda>_. True)"
    by code_simp
  then show ?thesis by (auto simp: returns_def split: sum.splits)
qed

text \<open>
  The search takes at most one resource for each of its three predicates, so it misses a target that
  two other roles hold together, and even one that the second of them holds alone.
\<close>

theorem find_gives_up:
  "find_resource list_icl
     [wrap ((scalar_resource ''cpus'' 1)\<lparr>r_reservations := [dynamic ''ads'']\<rparr>),
      wrap ((scalar_resource ''cpus'' 10)\<lparr>r_reservations := [dynamic ''web'']\<rparr>)]
     (scalar_resource ''cpus'' 5) = Inr None"
  by code_simp

text \<open>Several targets are each looked up in the whole collection, so more can be found than there is.\<close>

theorem find_overcommits:
  "\<exists>x. find_resources list_icl [wrap (scalar_resource ''cpus'' 5)]
     [wrap ((scalar_resource ''cpus'' 5)\<lparr>r_reservations := [dynamic ''ads'']\<rparr>),
      wrap ((scalar_resource ''cpus'' 5)\<lparr>r_reservations := [dynamic ''web'']\<rparr>)] = Inr (Some x) \<and> get_scalar ''cpus'' x = Some 10"
proof -
  have "case find_resources list_icl [wrap (scalar_resource ''cpus'' 5)]
     [wrap ((scalar_resource ''cpus'' 5)\<lparr>r_reservations := [dynamic ''ads'']\<rparr>),
      wrap ((scalar_resource ''cpus'' 5)\<lparr>r_reservations := [dynamic ''web'']\<rparr>)] of
      Inr (Some x) \<Rightarrow> get_scalar ''cpus'' x = Some 10 | _ \<Rightarrow> False"
    by code_simp
  then show ?thesis by (auto split: sum.splits option.splits)
qed

text \<open>Lists of labels with duplicates compare equal in one direction only.\<close>

theorem labels_compare_one_way:
  "labels_eq [\<lparr>label_key = ''a'', label_value = None\<rparr>, \<lparr>label_key = ''a'', label_value = None\<rparr>]
     [\<lparr>label_key = ''a'', label_value = None\<rparr>, \<lparr>label_key = ''b'', label_value = None\<rparr>] \<and>
   \<not> labels_eq [\<lparr>label_key = ''a'', label_value = None\<rparr>, \<lparr>label_key = ''b'', label_value = None\<rparr>]
     [\<lparr>label_key = ''a'', label_value = None\<rparr>, \<lparr>label_key = ''a'', label_value = None\<rparr>]"
  by code_simp

end
