(* ===== verification/Resources_Text.thy ===== *)
theory Resources_Text
  imports Resources_Properties Scalar_Text
begin

text \<open>
  The text of resources (\<open>liburb/source/resources.cpp\<close>): parsing of the command line form, and the printers.

  Text is first offered to the JSON parser. That parser and the conversion of a JSON array
  to protocol buffers are not part of the sources; \<open>json_reader\<close> gathers them as a parameter.
\<close>

subsection \<open>Parsing\<close>

record 'j json_reader =
  json_array :: "string \<Rightarrow> 'j option"
  json_resources :: "'j \<Rightarrow> Resource list option"

datatype command_line_error = PersistentVolumes | RevocableResources | DynamicReservations | DifferentTypes string

datatype parse_error =
    BadValue string value_error | BadType string | BadPair string | MismatchedParentheses string | BadJson
  | InvalidText resource_error | CommandLine command_line_error

definition empty_resource :: Resource where
  "empty_resource =
     \<lparr>r_provider_id = None, r_name = [], r_type = SCALAR, r_scalar = None, r_ranges = None, r_set = None,
      r_role = None, r_allocation_info = None, r_reservation = None, r_reservations = [], r_disk = None,
      r_revocable = False, r_shared = False\<rparr>"

definition parse_resource :: "numifier \<Rightarrow> string \<Rightarrow> string \<Rightarrow> string \<Rightarrow> (parse_error + Resource) outcome" where
  "parse_resource nm name val role =
     andThen (values_parse nm val) (\<lambda>result.
       case result of
         Inl e \<Rightarrow> Inr (Inl (BadValue name e))
       | Inr v \<Rightarrow>
           let r = empty_resource\<lparr>r_name := name\<rparr>;
               r = (if role \<noteq> ''*''
                    then r\<lparr>r_reservations := [\<lparr>rsv_type = Some STATIC, rsv_role = Some role, rsv_principal = None,
                             rsv_labels = None\<rparr>]\<rparr>
                    else r)
           in Inr (case v of
                VScalar x \<Rightarrow> Inr (r\<lparr>r_type := SCALAR, r_scalar := Some x\<rparr>)
              | VRanges rs \<Rightarrow> Inr (r\<lparr>r_type := RANGES, r_ranges := Some rs\<rparr>)
              | VSet xs \<Rightarrow> Inr (r\<lparr>r_type := SET, r_set := Some xs\<rparr>)
              | VText _ \<Rightarrow> Inl (BadType name)))"

text \<open>The name and the role in front of the colon.\<close>

definition parse_name :: "string \<Rightarrow> string \<Rightarrow> string \<Rightarrow> parse_error + string \<times> string" where
  "parse_name defaultRole token first =
     (case find_sub ''('' first of
        None \<Rightarrow> Inr (trim first, defaultRole)
      | Some openParen \<Rightarrow>
          (case find_sub '')'' first of
             None \<Rightarrow> Inl (MismatchedParentheses token)
           | Some closeParen \<Rightarrow>
               if closeParen < openParen then Inl (MismatchedParentheses token)
               else Inr (trim (substr first 0 openParen),
                         trim (substr first (openParen + 1) (closeParen - openParen - 1)))))"

definition simple_step :: "numifier \<Rightarrow> string \<Rightarrow> string \<Rightarrow> Resource list \<Rightarrow> (parse_error + Resource list) outcome" where
  "simple_step nm defaultRole token resources =
     (let pair = tokenize token '':'' None
      in if length pair \<noteq> 2 then Inr (Inl (BadPair token))
         else case parse_name defaultRole token (pair ! 0) of
                Inl e \<Rightarrow> Inr (Inl e)
              | Inr (name, role) \<Rightarrow>
                  andTry (parse_resource nm name (pair ! 1) role) (\<lambda>r. Inr (Inr (resources @ [r]))))"

definition fromSimpleString :: "numifier \<Rightarrow> string \<Rightarrow> string \<Rightarrow> (parse_error + Resource list) outcome" where
  "fromSimpleString nm text defaultRole =
     foldTry (simple_step nm defaultRole) (tokenize text '';'' None) []"

definition fromJSON :: "'j json_reader \<Rightarrow> 'j \<Rightarrow> string \<Rightarrow> parse_error + Resource list" where
  "fromJSON js json defaultRole =
     (case json_resources js json of
        None \<Rightarrow> Inl BadJson
      | Some rs \<Rightarrow>
          Inr (map (\<lambda>r. if r_role r = None \<and> length (r_reservations r) = 0 then r\<lparr>r_role := Some defaultRole\<rparr> else r) rs))"

definition fromString :: "'j json_reader \<Rightarrow> numifier \<Rightarrow> string \<Rightarrow> string \<Rightarrow> (parse_error + Resource list) outcome" where
  "fromString js nm text defaultRole =
     (case json_array js text of
        Some json \<Rightarrow> Inr (fromJSON js json defaultRole)
      | None \<Rightarrow> fromSimpleString nm text defaultRole)"

fun command_line_loop :: "(string \<rightharpoonup> Value_Type) \<Rightarrow> Resource list \<Rightarrow> command_line_error option outcome" where
  "command_line_loop nameTypes [] = Inr None"
| "command_line_loop nameTypes (r # rs) =
     andThen (isPersistentVolume r) (\<lambda>p. if p then Inr (Some PersistentVolumes)
       else andThen (isRevocable r) (\<lambda>v. if v then Inr (Some RevocableResources)
         else andThen (isDynamicallyReserved r) (\<lambda>d. if d then Inr (Some DynamicReservations)
           else case nameTypes (r_name r) of
                  Some type \<Rightarrow>
                    if type \<noteq> r_type r then Inr (Some (DifferentTypes (r_name r)))
                    else command_line_loop nameTypes rs
                | None \<Rightarrow> command_line_loop (nameTypes(r_name r \<mapsto> r_type r)) rs)))"

definition validateCommandLineResources :: "Resources \<Rightarrow> command_line_error option outcome" where
  "validateCommandLineResources rs = command_line_loop (\<lambda>_. None) (map resource rs)"

definition parse_step :: "Resource \<Rightarrow> Resources \<Rightarrow> (parse_error + Resources) outcome" where
  "parse_step r result =
     (case validate r of
        Some e \<Rightarrow> Inr (Inl (InvalidText e))
      | None \<Rightarrow> andThen (convertResourceFormat POST_RESERVATION_REFINEMENT r) (\<lambda>r.
                  andThen (add (wrap r) result) (\<lambda>result. Inr (Inr result))))"

definition parse_resources :: "'j json_reader \<Rightarrow> numifier \<Rightarrow> string \<Rightarrow> string \<Rightarrow> (parse_error + Resources) outcome" where
  "parse_resources js nm text defaultRole =
     andTry (fromString js nm text defaultRole) (\<lambda>resources.
       andTry (foldTry parse_step resources []) (\<lambda>result.
         andThen (validateCommandLineResources result) (\<lambda>e.
           case e of Some e \<Rightarrow> Inr (Inl (CommandLine e)) | None \<Rightarrow> Inr (Inr result))))"

subsection \<open>Printing\<close>

definition print_source :: "Source \<Rightarrow> string" where
  "print_source s =
     (case src_type s of
        MOUNT \<Rightarrow> ''MOUNT'' @ (case root (src_mount s) of None \<Rightarrow> [] | Some d \<Rightarrow> '':'' @ d)
      | PATH \<Rightarrow> ''PATH'' @ (case root (src_path s) of None \<Rightarrow> [] | Some d \<Rightarrow> '':'' @ d)
      | SOURCE_UNKNOWN \<Rightarrow> ''UNKNOWN'')"

definition print_volume :: "Volume \<Rightarrow> string" where
  "print_volume v =
     (case host_path v of
        None \<Rightarrow> container_path v
      | Some d \<Rightarrow> d @ '':'' @ container_path v @ (case vol_mode v of RW \<Rightarrow> '':rw'' | RO \<Rightarrow> '':ro''))"

definition print_label :: "Label \<Rightarrow> string" where
  "print_label l = label_key l @ (case label_value l of None \<Rightarrow> [] | Some v \<Rightarrow> '': '' @ v)"

definition print_labels :: "Labels \<Rightarrow> string" where
  "print_labels ls = ''{'' @ join '', '' (map print_label ls) @ ''}''"

definition print_reservation :: "ReservationInfo \<Rightarrow> string" where
  "print_reservation r =
     (case reservation_type r of RESERVATION_UNKNOWN \<Rightarrow> ''UNKNOWN'' | STATIC \<Rightarrow> ''STATIC'' | DYNAMIC \<Rightarrow> ''DYNAMIC'') @
     '','' @ reservation_role r @
     (case rsv_principal r of None \<Rightarrow> [] | Some p \<Rightarrow> '','' @ p) @
     (case rsv_labels r of None \<Rightarrow> [] | Some ls \<Rightarrow> '','' @ print_labels ls)"

definition print_disk :: "DiskInfo \<Rightarrow> string" where
  "print_disk d =
     (case disk_source d of None \<Rightarrow> [] | Some s \<Rightarrow> print_source s) @
     (case disk_persistence d of
        None \<Rightarrow> []
      | Some p \<Rightarrow> (if disk_source d \<noteq> None then '','' else []) @ pers_id p) @
     (case disk_volume d of None \<Rightarrow> [] | Some v \<Rightarrow> '':'' @ print_volume v)"

definition print_resource :: "Resource \<Rightarrow> string outcome" where
  "print_resource r =
     (let text = r_name r @
        (case r_allocation_info r of None \<Rightarrow> [] | Some role \<Rightarrow> ''(allocated: '' @ str role @ '')'') @
        (if length (r_reservations r) > 0
         then ''(reservations: ['' @ join '','' (map (\<lambda>v. ''('' @ print_reservation v @ '')'') (r_reservations r)) @ ''])''
         else []) @
        (case r_disk r of None \<Rightarrow> [] | Some d \<Rightarrow> ''['' @ print_disk d @ '']'') @
        (if r_revocable r then ''{REV}'' else []) @ (if r_shared r then ''<SHARED>'' else []) @ '':''
      in case r_type r of
           SCALAR \<Rightarrow> Inr (text @ print_scalar (scalar r))
         | RANGES \<Rightarrow> Inr (text @ print_ranges (ranges r))
         | SET \<Rightarrow> Inr (text @ print_set (items r))
         | TEXT \<Rightarrow> Inl CheckFailed)"

definition show_int :: "int \<Rightarrow> string" where
  "show_int i = (if i < 0 then CHR ''-'' # show_nat (nat (- i)) else show_nat (nat i))"

definition print_resource' :: "Resource' \<Rightarrow> string outcome" where
  "print_resource' r =
     andThen (print_resource (resource r)) (\<lambda>text.
       Inr (text @ (case sharedCount r of None \<Rightarrow> [] | Some n \<Rightarrow> ''<'' @ show_int n @ ''>'')))"

fun print_all :: "('a \<Rightarrow> string outcome) \<Rightarrow> 'a list \<Rightarrow> string list outcome" where
  "print_all print [] = Inr []"
| "print_all print (x # xs) = andThen (print x) (\<lambda>t. andThen (print_all print xs) (\<lambda>ts. Inr (t # ts)))"

definition print_resources :: "Resources \<Rightarrow> string outcome" where
  "print_resources rs =
     (if rs = [] then Inr ''{}''
      else andThen (print_all print_resource' rs) (\<lambda>ts. Inr (join ''; '' ts)))"

subsection \<open>What parsing yields\<close>

lemma parse_resource_returns: "\<exists>x. parse_resource nm name val role = Inr x"
proof -
  obtain x where "values_parse nm val = Inr x" using values_parse_returns ..
  then show ?thesis by (cases x) (simp_all add: parse_resource_def Let_def)
qed

lemma simple_step_yields: "yields (simple_step nm role token rs) (\<lambda>_. True)"
proof -
  have "yields (parse_resource nm name val role) (\<lambda>_. True)" for name val role
    using parse_resource_returns [of nm name val role] by (auto simp: yields_def split: sum.split)
  then show ?thesis
    by (auto simp: simple_step_def Let_def split: sum.split prod.split intro!: yields_andTry [where P = "\<lambda>_. True"])
qed

lemma fromString_yields: "yields (fromString js nm text role) (\<lambda>_. True)"
proof (cases "json_array js text")
  case None
  have "yields (fromSimpleString nm text role) (\<lambda>_. True)"
    unfolding fromSimpleString_def by (rule yields_foldTry) (simp_all add: simple_step_yields)
  with None show ?thesis by (simp add: fromString_def)
qed (auto simp: fromString_def yields_def split: sum.split)

lemma parse_step_yields:
  assumes rs: "rs_ok rs" and r: "wf_resource r" "\<not> r_shared r" and f: "fits (stock_of rs + amount r)"
  shows "yields (parse_step r rs) (\<lambda>x. rs_ok x \<and> stock_of x = stock_of rs + amount r)"
proof (cases "validate r")
  case None
  note p = posted_valid [OF None]
  have "operand (posted r)"
    using validate_sound [OF p(1) posted_format posted_wf [OF r(1)]] p(3) r(2) by (simp add: operand_def)
  from add_wrap [OF rs this] f p(2) show ?thesis
    by (auto simp: parse_step_def None convertResourceFormat_def to_post_posted [OF None] yields_def returns_iff)
qed (simp add: parse_step_def)

lemma parse_fold:
  assumes "rs_ok acc" and "list_all (\<lambda>r. wf_resource r \<and> \<not> r_shared r) rs"
    and "fits (stock_of acc + sum_list (map amount rs))"
  shows "yields (foldTry parse_step rs acc) (\<lambda>x. rs_ok x \<and> stock_of x = stock_of acc + sum_list (map amount rs))"
  using assms
proof (induction rs arbitrary: acc)
  case (Cons r rs)
  have f: "fits (stock_of acc + amount r + sum_list (map amount rs))" using Cons.prems(3) by (simp add: add.assoc)
  have "yields (parse_step r acc) (\<lambda>x. rs_ok x \<and> stock_of x = stock_of acc + amount r)"
    using parse_step_yields [OF Cons.prems(1)] Cons.prems(2) fits_add(1) [OF f] by simp
  then have "yields (andTry (parse_step r acc) (foldTry parse_step rs))
      (\<lambda>x. rs_ok x \<and> stock_of x = stock_of acc + amount r + sum_list (map amount rs))"
  proof (rule yields_andTry)
    fix x
    assume "rs_ok x \<and> stock_of x = stock_of acc + amount r"
    then show "yields (foldTry parse_step rs x)
        (\<lambda>x. rs_ok x \<and> stock_of x = stock_of acc + amount r + sum_list (map amount rs))"
      using Cons.IH [of x] Cons.prems(2) f by simp
  qed
  then show ?case by (simp add: add.assoc)
qed simp

text \<open>What the command line may hold.\<close>

definition plain_for_command_line :: "Resource \<Rightarrow> bool" where
  "plain_for_command_line r \<longleftrightarrow>
     \<not> has_persistence r \<and> \<not> r_revocable r \<and>
     (r_reservations r \<noteq> [] \<longrightarrow> reservation_type (last (r_reservations r)) \<noteq> DYNAMIC)"

definition agrees :: "(string \<rightharpoonup> Value_Type) \<Rightarrow> Resource list \<Rightarrow> bool" where
  "agrees m rs \<longleftrightarrow> (\<forall>r \<in> set rs. m (r_name r) = None \<or> m (r_name r) = Some (r_type r))"

definition uniform :: "Resource list \<Rightarrow> bool" where
  "uniform rs \<longleftrightarrow> (\<forall>r \<in> set rs. \<forall>q \<in> set rs. r_name r = r_name q \<longrightarrow> r_type r = r_type q)"

lemma uniform_Cons:
  "uniform (r # rs) \<longleftrightarrow> (\<forall>q \<in> set rs. r_name q = r_name r \<longrightarrow> r_type q = r_type r) \<and> uniform rs"
proof -
  have "(\<forall>q \<in> set rs. r_name r = r_name q \<longrightarrow> r_type r = r_type q) \<longleftrightarrow>
      (\<forall>q \<in> set rs. r_name q = r_name r \<longrightarrow> r_type q = r_type r)"
    by (intro ball_cong imp_cong refl eq_commute)
  then show ?thesis by (simp add: uniform_def ball_conj_distrib)
qed

lemma agrees_update:
  assumes "m (r_name r) = None \<or> m (r_name r) = Some (r_type r)"
  shows "agrees (m(r_name r \<mapsto> r_type r)) rs \<longleftrightarrow>
    agrees m rs \<and> (\<forall>q \<in> set rs. r_name q = r_name r \<longrightarrow> r_type q = r_type r)"
proof -
  let ?m = "m(r_name r \<mapsto> r_type r)"
  have "(?m (r_name q) = None \<or> ?m (r_name q) = Some (r_type q)) \<longleftrightarrow>
      (m (r_name q) = None \<or> m (r_name q) = Some (r_type q)) \<and> (r_name q = r_name r \<longrightarrow> r_type q = r_type r)" for q
  proof (cases "r_name q = r_name r")
    case True
    have "(r_type r = r_type q) = (r_type q = r_type r)" by (rule eq_commute)
    with True assms show ?thesis by (elim disjE) simp_all
  qed simp
  then show ?thesis unfolding agrees_def ball_conj_distrib [symmetric] by (intro ball_cong refl)
qed

lemma command_line_loop_spec:
  assumes "list_all sound rs"
  shows "returns (command_line_loop m rs) (\<lambda>e.
    e = None \<longleftrightarrow> list_all plain_for_command_line rs \<and> agrees m rs \<and> uniform rs)"
  using assms
proof (induction rs arbitrary: m)
  case Nil
  then show ?case by (simp add: agrees_def uniform_def)
next
  case (Cons r rs)
  have s: "check_format r x = x" for x :: "bool outcome" using Cons.prems by (simp add: check_format_def sound_def post_format_def)
  have p: "isPersistentVolume r = Inr (has_persistence r)" "isRevocable r = Inr (r_revocable r)"
    "isDynamicallyReserved r = Inr (r_reservations r \<noteq> [] \<and> reservation_type (last (r_reservations r)) = DYNAMIC)"
    by (auto simp: isPersistentVolume_def isRevocable_def isDynamicallyReserved_def isReserved_def isUnreserved_def s)
  show ?case
  proof (cases "plain_for_command_line r \<and> (m (r_name r) = None \<or> m (r_name r) = Some (r_type r))")
    case True
    then have "m (r_name r) = Some (r_type r) \<Longrightarrow> m(r_name r \<mapsto> r_type r) = m" by (simp add: fun_upd_idem)
    with True have eq: "command_line_loop m (r # rs) = command_line_loop (m(r_name r \<mapsto> r_type r)) rs"
      by (cases "m (r_name r)") (auto simp: p plain_for_command_line_def)
    have a: "agrees m (r # rs) \<longleftrightarrow> agrees m rs" using True by (auto simp: agrees_def)
    note u = agrees_update [of m r rs, OF conjunct2 [OF True]]
    show ?thesis
      unfolding eq a uniform_Cons
      by (rule returns_mono [OF Cons.IH [of "m(r_name r \<mapsto> r_type r)"]]) (use Cons.prems True in \<open>auto simp only: u list.pred_inject(2)\<close>)
  next
    case False
    then have "returns (command_line_loop m (r # rs)) (\<lambda>e. e \<noteq> None)"
      by (cases "m (r_name r)") (auto simp: p plain_for_command_line_def)
    moreover have "\<not> (list_all plain_for_command_line (r # rs) \<and> agrees m (r # rs) \<and> uniform (r # rs))"
      using False by (auto simp: agrees_def)
    ultimately show ?thesis by (simp only: simp_thms)
  qed
qed

lemma parse_resources_yields:
  assumes "\<And>resources. fromString js nm text role = Inr (Inr resources) \<Longrightarrow>
    list_all (\<lambda>r. wf_resource r \<and> \<not> r_shared r) resources \<and> fits (sum_list (map amount resources))"
  shows "yields (parse_resources js nm text role) (\<lambda>x.
    rs_ok x \<and> list_all (\<lambda>r. plain_for_command_line (resource r)) x \<and> uniform (map resource x) \<and>
    (\<exists>resources. fromString js nm text role = Inr (Inr resources) \<and> stock_of x = sum_list (map amount resources)))"
proof -
  obtain y where y: "fromString js nm text role = Inr y"
    using fromString_yields [of js nm "text" role] by (auto simp: yields_def returns_iff)
  show ?thesis
  proof (cases y)
    case (Inr resources)
    with y assms have p: "yields (foldTry parse_step resources []) (\<lambda>x. rs_ok x \<and> stock_of x = sum_list (map amount resources))"
      using parse_fold [of "[]" resources] by simp
    have c: "returns (validateCommandLineResources x) (\<lambda>e. e = None \<longleftrightarrow>
        list_all plain_for_command_line (map resource x) \<and> uniform (map resource x))" if "rs_ok x" for x
      using command_line_loop_spec [of "map resource x" "\<lambda>_. None"] rs_ok_sound [OF that]
      by (simp add: validateCommandLineResources_def list_all_iff agrees_def)
    have "yields (andThen (validateCommandLineResources x) (\<lambda>e.
        case e of Some e \<Rightarrow> Inr (Inl (CommandLine e)) | None \<Rightarrow> Inr (Inr x))) (\<lambda>x.
        rs_ok x \<and> list_all (\<lambda>r. plain_for_command_line (resource r)) x \<and> uniform (map resource x) \<and>
        stock_of x = sum_list (map amount resources))"
      if x: "rs_ok x \<and> stock_of x = sum_list (map amount resources)" for x
      by (rule yields_andThen [OF c]) (use x in \<open>auto simp: list.pred_map o_def split: option.split\<close>)
    then show ?thesis
      unfolding parse_resources_def using y Inr by (simp add: andTry_def [of "Inr _"] yields_andTry [OF p])
  qed (simp add: parse_resources_def y andTry_def)
qed

subsection \<open>Reading back what was printed\<close>

definition name_ok :: "string \<Rightarrow> bool" where
  "name_ok n \<longleftrightarrow> n \<noteq> [] \<and> list_all (\<lambda>c. c \<notin> set ('':;('' @ WHITESPACE)) n"

definition value_printable :: "Resource \<Rightarrow> bool" where
  "value_printable r =
     (case r_type r of
        SCALAR \<Rightarrow> convertToFixed (scalar r) \<le> 2 ^ 49
      | RANGES \<Rightarrow> canonical (ranges r)
      | SET \<Rightarrow> list_all (\<lambda>x. item_ok x \<and> CHR '':'' \<notin> set x \<and> CHR '';'' \<notin> set x) (items r)
      | TEXT \<Rightarrow> False)"

text \<open>A resource without metadata: only a name and a value.\<close>

definition printable :: "Resource \<Rightarrow> bool" where
  "printable r \<longleftrightarrow>
     sound r \<and> name_ok (r_name r) \<and> value_printable r \<and> r_provider_id r = None \<and> r_allocation_info r = None \<and>
     r_reservations r = [] \<and> r_disk r = None \<and> \<not> r_revocable r \<and> \<not> r_shared r"

definition value_text :: "Resource \<Rightarrow> string" where
  "value_text r =
     (case r_type r of
        SCALAR \<Rightarrow> print_scalar (scalar r) | RANGES \<Rightarrow> print_ranges (ranges r) | SET \<Rightarrow> print_set (items r) | TEXT \<Rightarrow> [])"

lemma print_printable: "printable r \<Longrightarrow> print_resource r = Inr (r_name r @ '':'' @ value_text r)"
  by (auto simp: printable_def print_resource_def value_text_def sound_def value_ok_def split: Value_Type.splits)

text \<open>The resource a printed one is read back as.\<close>

definition similar :: "Resource \<Rightarrow> Resource \<Rightarrow> bool" where
  "similar q r \<longleftrightarrow>
     sound q \<and> validate q = None \<and> res_key q = res_key r \<and> same_value q r \<and> \<not> exclusive q \<and> \<not> r_shared q"

lemma canonical_validates: "canonical rs \<Longrightarrow> validate_ranges rs = None"
proof (induction rs)
  case (Cons r rs)
  then have r: "valid_range r" "canonical rs" by (simp_all add: canonical_Cons)
  have "\<not> range_begin q \<le> range_end r" if "q \<in> set rs" for q
  proof -
    have "valid_range q" using r(2) that by (simp add: canonical_def list_all_iff)
    then have "range_begin q \<in> ranges_set rs" using that by (auto simp: ranges_set_def range_set_def valid_le)
    then have "range_end r + 1 < range_begin q" by (rule canonical_above [OF Cons.prems])
    with valid_succ [OF r(1)] show ?thesis by simp
  qed
  then show ?case using Cons.IH r valid_le [OF r(1)] by (auto simp: list_ex_iff)
qed simp

lemma parse_value:
  assumes nm: "casts_numerals nm" "casts_decimals nm" and r: "printable r"
  shows "\<exists>q. parse_resource nm (r_name r) (value_text r) ''*'' = Inr (Inr q) \<and> similar q r"
proof -
  let ?q = "empty_resource\<lparr>r_name := r_name r\<rparr>"
  have v: "value_ok r" "value_printable r" using r by (auto simp: printable_def dest: sound_parts)
  have n: "r_name r \<noteq> []" using r by (simp add: printable_def name_ok_def)
  have key: "res_key (?q\<lparr>r_type := r_type r, r_scalar := a, r_ranges := b, r_set := c\<rparr>) = res_key r" for a b c
    using r by (simp add: printable_def res_key_def empty_resource_def)
  have sim: "similar q r" if q: "q = ?q\<lparr>r_type := r_type r, r_scalar := a, r_ranges := b, r_set := c\<rparr>"
      and "value_ok q" "validate_value q = None" "same_value q r" for q a b c
  proof -
    have "validate_disk q = None" "validate_pre q = None" "validate_shared q = None"
      unfolding q
      by (simp_all add: validate_disk_def validate_pre_def validate_shared_def empty_resource_def res_role_def validate_role_def)
    moreover have "r_name q = r_name r" "r_reservations q = []" "post_format q" "r_disk q = None" "\<not> r_shared q"
      unfolding q by (simp_all add: empty_resource_def post_format_def)
    ultimately show ?thesis
      using that n key by (simp add: similar_def validate_def sound_def exclusive_def)
  qed
  show ?thesis
  proof (cases "r_type r")
    case SCALAR
    with v have "0 \<le> scalar r" "convertToFixed (scalar r) \<le> 2 ^ 49" by (simp_all add: value_ok_def value_printable_def)
    from scalar_text [OF nm(2) this] obtain y where
      y: "values_parse nm (value_text r) = Inr (Inr (VScalar y))" "scalar_eq y (scalar r)" "0 \<le> y"
      by (auto simp: value_text_def SCALAR)
    let ?r = "?q\<lparr>r_type := r_type r, r_scalar := Some y, r_ranges := None, r_set := None\<rparr>"
    have "parse_resource nm (r_name r) (value_text r) ''*'' = Inr (Inr ?r)"
      by (simp add: parse_resource_def y(1) SCALAR empty_resource_def)
    moreover have "similar ?r r"
      using y(2,3) by (intro sim [OF refl]) (simp_all add: SCALAR value_ok_def validate_value_def same_value_def scalar_def
          scalar_eq_def [symmetric])
    ultimately show ?thesis by blast
  next
    case RANGES
    with v have c: "canonical (ranges r)" by (simp add: value_printable_def)
    let ?r = "?q\<lparr>r_type := r_type r, r_scalar := None, r_ranges := Some (ranges r), r_set := None\<rparr>"
    have "parse_resource nm (r_name r) (value_text r) ''*'' = Inr (Inr ?r)"
      using values_parse_ranges [OF nm(1), of "ranges r"]
      by (simp add: parse_resource_def value_text_def merged_canonical [OF c] RANGES empty_resource_def)
    moreover have "similar ?r r"
      using v(1) canonical_validates [OF c]
      by (intro sim [OF refl]) (simp_all add: RANGES value_ok_def validate_value_def same_value_def ranges_def repeated_def)
    ultimately show ?thesis by blast
  next
    case SET
    with v have "list_all item_ok (items r)" by (auto simp: value_printable_def list_all_iff)
    note p = values_parse_set [OF this]
    let ?r = "?q\<lparr>r_type := r_type r, r_scalar := None, r_ranges := None, r_set := Some (items r)\<rparr>"
    have "parse_resource nm (r_name r) (value_text r) ''*'' = Inr (Inr ?r)"
      by (simp add: parse_resource_def value_text_def p SET empty_resource_def)
    moreover have "similar ?r r"
      using v(1) by (intro sim [OF refl])
        (simp_all add: SET value_ok_def validate_value_def same_value_def items_def repeated_def validate_items_distinct)
    ultimately show ?thesis by blast
  qed (use v in \<open>simp add: value_ok_def\<close>)
qed

lemma value_text_chars:
  assumes r: "printable r"
  shows "value_text r \<noteq> []" and "CHR '':'' \<notin> set (value_text r)" and "CHR '';'' \<notin> set (value_text r)"
proof -
  have v: "value_ok r" "value_printable r" using r by (auto simp: printable_def dest: sound_parts)
  have d: "digit (CHR '':'') = None" "digit (CHR '';'') = None" by code_simp+
  have "value_text r \<noteq> [] \<and> CHR '':'' \<notin> set (value_text r) \<and> CHR '';'' \<notin> set (value_text r)"
  proof (cases "r_type r")
    case SCALAR
    with v have s: "is_decimal (value_text r)"
      using print_scalar_is_decimal by (simp add: value_ok_def value_printable_def value_text_def)
    then show ?thesis using decimal_charset [OF s] d by (fastforce simp: is_decimal_def whole_def)
  next
    case RANGES
    have "CHR '':'' \<notin> set (join '', '' (map print_range (ranges r)))" "CHR '';'' \<notin> set (join '', '' (map print_range (ranges r)))"
      using set_join [of "'', ''" "map print_range (ranges r)"] print_range_charset d by fastforce+
    then show ?thesis by (simp add: value_text_def RANGES print_ranges_def)
  next
    case SET
    with v have "list_all (\<lambda>x. CHR '':'' \<notin> set x \<and> CHR '';'' \<notin> set x) (items r)"
      by (auto simp: value_printable_def list_all_iff)
    then have "CHR '':'' \<notin> set (join '', '' (items r))" "CHR '';'' \<notin> set (join '', '' (items r))"
      using set_join [of "'', ''" "items r"] by (fastforce simp: list_all_iff)+
    then show ?thesis by (simp add: value_text_def SET print_set_def)
  qed (use v in \<open>simp add: value_ok_def\<close>)
  then show "value_text r \<noteq> []" "CHR '':'' \<notin> set (value_text r)" "CHR '';'' \<notin> set (value_text r)" by simp_all
qed

lemma fields_two:
  assumes "n \<noteq> []" and "CHR '':'' \<notin> set n" and "s \<noteq> []" and "CHR '':'' \<notin> set s"
  shows "tokenize (n @ '':'' @ s) '':'' None = [n, s]"
proof -
  let ?c = "\<lambda>c. c \<in> set '':''"
  have "Strings.fields ?c (n @ CHR '':'' # s) = Strings.fields ?c n @ Strings.fields ?c s"
    by (rule fields_append_delim) simp
  moreover have "\<forall>c \<in> set n. \<not> ?c c" "\<forall>c \<in> set s. \<not> ?c c" using assms(2,4) by auto
  ultimately show ?thesis
    using fields_delim_free [OF assms(1), of ?c] fields_delim_free [OF assms(3), of ?c] by (simp add: tokenize_fields)
qed

lemma trim_free:
  assumes "\<forall>c \<in> set n. c \<notin> set WHITESPACE"
  shows "trim n = n" and "trim (CHR '' '' # n) = n"
proof -
  have w: "CHR '' '' \<in> set WHITESPACE" by code_simp
  have free: "dropWhile (\<lambda>c. c \<in> set WHITESPACE) s = s" if "set s \<subseteq> set n" for s
    using assms that by (cases s) auto
  from free [of n] free [of "rev n"] w show "trim n = n" "trim (CHR '' '' # n) = n"
    by (simp_all add: trim_def trim_chars_strip strip_def)
qed

lemma simple_step_printed:
  assumes nm: "casts_numerals nm" "casts_decimals nm" and r: "printable r"
  shows "\<exists>q. similar q r \<and> (\<forall>acc.
    simple_step nm ''*'' (r_name r @ '':'' @ value_text r) acc = Inr (Inr (acc @ [q])) \<and>
    simple_step nm ''*'' ('' '' @ r_name r @ '':'' @ value_text r) acc = Inr (Inr (acc @ [q])))"
proof -
  have n: "r_name r \<noteq> []" "\<forall>c \<in> set (r_name r). c \<notin> set WHITESPACE" "CHR '':'' \<notin> set (r_name r)" "CHR ''('' \<notin> set (r_name r)"
    using r by (auto simp: printable_def name_ok_def list_all_iff)
  note v = value_text_chars [OF r]
  obtain q where q: "parse_resource nm (r_name r) (value_text r) ''*'' = Inr (Inr q)" "similar q r"
    using parse_value [OF assms] by blast
  have p: "parse_name ''*'' token (r_name r) = Inr (r_name r, ''*'')"
    "parse_name ''*'' token (CHR '' '' # r_name r) = Inr (r_name r, ''*'')" for token
    using find_sub_absent [of "CHR ''(''" "r_name r"] find_sub_absent [of "CHR ''(''" "CHR '' '' # r_name r"] n(4) trim_free [OF n(2)]
    by (simp_all add: parse_name_def)
  have t: "tokenize (r_name r @ '':'' @ value_text r) '':'' None = [r_name r, value_text r]"
    "tokenize ((CHR '' '' # r_name r) @ '':'' @ value_text r) '':'' None = [CHR '' '' # r_name r, value_text r]"
    using fields_two [OF n(1,3) v(1,2)] fields_two [of "CHR '' '' # r_name r", OF _ _ v(1,2)] n(3) by simp_all
  show ?thesis
    using q t p by (intro exI [of _ q]) (simp add: simple_step_def andTry_def)
qed

lemma fields_printed:
  assumes "list_all (\<lambda>x. x \<noteq> [] \<and> CHR '';'' \<notin> set x) (x # xs)"
  shows "tokenize (join ''; '' (x # xs)) '';'' None = x # map ((@) '' '') xs"
  using assms
proof (induction xs arbitrary: x)
  case Nil
  then show ?case using fields_delim_free [of x "\<lambda>c. c \<in> set '';''"] by (fastforce simp: tokenize_fields)
next
  case (Cons y ys)
  let ?c = "\<lambda>c. c \<in> set '';''"
  have "Strings.fields ?c (x @ CHR '';'' # ('' '' @ join ''; '' (y # ys))) = Strings.fields ?c x @ Strings.fields ?c ('' '' @ join ''; '' (y # ys))"
    by (rule fields_append_delim) simp
  moreover have "'' '' @ join ''; '' (y # ys) = join ''; '' (('' '' @ y) # ys)" by (cases ys) simp_all
  moreover have "Strings.fields ?c x = [x]" using Cons.prems fields_delim_free [of x ?c] by fastforce
  ultimately show ?case using Cons.IH [of "'' '' @ y"] Cons.prems by (simp add: tokenize_fields)
qed

definition piece :: "Resource \<Rightarrow> string" where
  "piece r = r_name r @ '':'' @ value_text r"

lemma simple_fold_printed:
  assumes "casts_numerals nm" "casts_decimals nm" and "list_all printable rs"
  shows "\<exists>qs. list_all2 similar qs rs \<and> (\<forall>acc.
    foldTry (simple_step nm ''*'') (map piece rs) acc = Inr (Inr (acc @ qs)) \<and>
    foldTry (simple_step nm ''*'') (map (\<lambda>r. '' '' @ piece r) rs) acc = Inr (Inr (acc @ qs)))"
  using assms(3)
proof (induction rs)
  case (Cons r rs)
  then obtain qs where qs: "list_all2 similar qs rs" "\<forall>acc.
      foldTry (simple_step nm ''*'') (map piece rs) acc = Inr (Inr (acc @ qs)) \<and>
      foldTry (simple_step nm ''*'') (map (\<lambda>r. '' '' @ piece r) rs) acc = Inr (Inr (acc @ qs))" by auto
  from Cons.prems have "printable r" by simp
  from simple_step_printed [OF assms(1,2) this] obtain q where "similar q r" "\<forall>acc.
      simple_step nm ''*'' (piece r) acc = Inr (Inr (acc @ [q])) \<and>
      simple_step nm ''*'' ('' '' @ piece r) acc = Inr (Inr (acc @ [q]))" by (auto simp: piece_def)
  with qs show ?case by (intro exI [of _ "q # qs"]) (simp add: andTry_def)
qed simp

lemma similar_parts:
  assumes "similar q r" and "printable r"
  shows "r_name q = r_name r" and "r_type q = r_type r" and "r_reservations q = []" and "r_disk q = None"
    and "\<not> r_revocable q" and "posted q = q" and "amount q = amount r"
proof -
  have k: "res_key q = res_key r" using assms(1) by (simp add: similar_def)
  then show "r_name q = r_name r" "r_type q = r_type r" "r_reservations q = []" "r_disk q = None" "\<not> r_revocable q"
    using assms(2) by (simp_all add: res_key_def printable_def)
  have "post_format q" using assms(1) by (simp add: similar_def sound_def)
  with \<open>r_reservations q = []\<close> show "posted q = q"
    by (simp add: posted_def post_format_def res_role_def)
  show "amount q = amount r" using assms(1) by (intro same_amount) (simp_all add: similar_def)
qed

lemma list_all2_partner: "list_all2 P xs ys \<Longrightarrow> x \<in> set xs \<Longrightarrow> \<exists>y \<in> set ys. P x y"
  by (induction rule: list_all2_induct) auto

lemma similar_entry:
  assumes "similar q (resource r)" and "printable (resource r)" and "entry_ok r"
  shows "entry_ok (wrap q)"
proof (rule entry_wrap)
  show "sound q" using assms(1) by (simp add: similar_def)
  show "amount q \<noteq> 0" using entry_parts(2) [OF assms(3)] similar_parts(7) [OF assms(1,2)] by simp
qed

lemma similar_apart:
  assumes "similar x (resource f)" and "similar q (resource r)" and "printable (resource f)" and "can_add x q"
  shows "can_add (resource f) (resource r)"
proof -
  have "res_key (resource f) = res_key (resource r)" using assms by (simp add: can_add_def similar_def)
  with assms(3) show ?thesis by (simp add: can_add_def printable_def exclusive_def)
qed

lemma parse_step_printed:
  assumes ok: "rs_ok (front @ r # rest)" and p: "\<forall>r \<in> set (front @ r # rest). printable (resource r)"
    and ps: "list_all2 (\<lambda>q r. similar q (resource r)) ps front" and q: "similar q (resource r)"
  shows "parse_step q (map wrap ps) = Inr (Inr (map wrap ps @ [wrap q]))"
proof -
  have e: "\<forall>r \<in> set (front @ r # rest). entry_ok r" and a: "\<forall>f \<in> set front. \<not> can_add (resource f) (resource r)"
    using ok by (simp_all add: rs_ok_def apart_append_iff)
  have x: "entry_ok (wrap x) \<and> \<not> can_add x q" if "x \<in> set ps" for x
  proof -
    obtain f where f: "f \<in> set front" "similar x (resource f)" using list_all2_partner [OF ps \<open>x \<in> set ps\<close>] by blast
    then show ?thesis using similar_entry [OF f(2)] similar_apart [OF f(2) q] e a p by auto
  qed
  have "add (wrap q) (map wrap ps) = Inr (map wrap ps @ [wrap q])"
  proof (rule add_new)
    show "\<forall>y \<in> set (map wrap ps). entry_ok y" using x by simp
    show "entry_ok (wrap q)" using similar_entry [OF q] e p by simp
    show "\<forall>y \<in> set (map wrap ps). \<not> can_add (resource y) (resource (wrap q))" using x by simp
  qed
  moreover have "validate q = None" "posted q = q" using q p similar_parts(6) [OF q] by (simp_all add: similar_def)
  ultimately show ?thesis by (simp add: parse_step_def convertResourceFormat_def to_post_posted)
qed

lemma parse_fold_printed:
  assumes "list_all2 (\<lambda>q r. similar q (resource r)) qs rest"
    and "rs_ok (front @ rest)" and "\<forall>r \<in> set (front @ rest). printable (resource r)"
    and "list_all2 (\<lambda>q r. similar q (resource r)) ps front"
  shows "foldTry parse_step qs (map wrap ps) = Inr (Inr (map wrap (ps @ qs)))"
  using assms
proof (induction arbitrary: ps front rule: list_all2_induct)
  case (Cons q qs r rest)
  note parse_step_printed [OF Cons.prems(1,2,3) Cons.hyps(1)]
  moreover have "foldTry parse_step qs (map wrap (ps @ [q])) = Inr (Inr (map wrap ((ps @ [q]) @ qs)))"
    using Cons.prems Cons.hyps(1) by (intro Cons.IH [of "front @ [r]"]) (simp_all add: list_all2_appendI)
  ultimately show ?case by (simp add: andTry_def)
qed simp

lemma command_line_printed:
  assumes qs: "list_all2 (\<lambda>q r. similar q (resource r)) qs rs" and p: "\<forall>r \<in> set rs. printable (resource r)"
    and u: "uniform (map resource rs)"
  shows "validateCommandLineResources (map wrap qs) = Inr None"
proof -
  have s: "sound x \<and> plain_for_command_line x" if x: "x \<in> set qs" for x
  proof -
    obtain r where r: "r \<in> set rs" "similar x (resource r)" using list_all2_partner [OF qs x] by blast
    with p similar_parts(3-5) [OF r(2)] show ?thesis
      by (simp add: plain_for_command_line_def has_persistence_def similar_def)
  qed
  have "r_type x = r_type y" if n: "x \<in> set qs" "y \<in> set qs" "r_name x = r_name y" for x y
  proof -
    obtain r where r: "r \<in> set rs" "similar x (resource r)" using list_all2_partner [OF qs n(1)] by blast
    obtain s where s: "s \<in> set rs" "similar y (resource s)" using list_all2_partner [OF qs n(2)] by blast
    have "r_name (resource r) = r_name (resource s)"
      using n(3) similar_parts(1) [OF r(2)] similar_parts(1) [OF s(2)] r s p by simp
    then have "r_type (resource r) = r_type (resource s)" using u r(1) s(1) unfolding uniform_def set_map by blast
    then show ?thesis using similar_parts(2) [OF r(2)] similar_parts(2) [OF s(2)] r s p by simp
  qed
  then have "uniform qs" unfolding uniform_def by blast
  moreover have "list_all sound qs" "list_all plain_for_command_line qs" using s by (simp_all add: list_all_iff)
  ultimately show ?thesis
    using command_line_loop_spec [of qs "\<lambda>_. None"]
    by (auto simp: validateCommandLineResources_def agrees_def o_def returns_iff)
qed

lemma print_all_printable:
  assumes "\<forall>r \<in> set rs. printable (resource r) \<and> entry_ok r"
  shows "print_all print_resource' rs = Inr (map (\<lambda>r. piece (resource r)) rs)"
  using assms
proof (induction rs)
  case (Cons r rs)
  then have "sharedCount r = None" by (auto simp: printable_def entry_ok_def split: option.splits)
  with Cons show ?case by (simp add: print_resource'_def print_printable piece_def)
qed simp

lemma piece_chars:
  assumes r: "printable r"
  shows "piece r \<noteq> [] \<and> CHR '';'' \<notin> set (piece r)"
proof -
  have "\<forall>c \<in> set (r_name r). c \<notin> set ('':;('' @ WHITESPACE)" using r by (simp add: printable_def name_ok_def list_all_iff)
  then have "CHR '';'' \<notin> set (r_name r)" by fastforce
  with value_text_chars(3) [OF r] show ?thesis by (simp add: piece_def)
qed

lemma fromString_printed:
  assumes nm: "casts_numerals nm" "casts_decimals nm" and p: "list_all printable (r # rs)"
    and js: "json_array js (join ''; '' (map piece (r # rs))) = None"
  shows "\<exists>qs. list_all2 similar qs (r # rs) \<and> fromString js nm (join ''; '' (map piece (r # rs))) ''*'' = Inr (Inr qs)"
proof -
  have r: "printable r" "list_all printable rs" using p by simp_all
  have "list_all (\<lambda>x. x \<noteq> [] \<and> CHR '';'' \<notin> set x) (piece r # map piece rs)"
    using piece_chars r by (simp add: list_all_iff)
  note t = fields_printed [OF this]
  obtain q where q: "similar q r" "\<And>acc. simple_step nm ''*'' (piece r) acc = Inr (Inr (acc @ [q]))"
    using simple_step_printed [OF nm r(1)] unfolding piece_def by blast
  obtain qs where qs: "list_all2 similar qs rs"
    "\<And>acc. foldTry (simple_step nm ''*'') (map (\<lambda>r. '' '' @ piece r) rs) acc = Inr (Inr (acc @ qs))"
    using simple_fold_printed [OF nm r(2)] by blast
  have m: "map ((@) '' '') (map piece rs) = map (\<lambda>r. '' '' @ piece r) rs" by simp
  have "fromSimpleString nm (join ''; '' (map piece (r # rs))) ''*'' = Inr (Inr (q # qs))"
    unfolding fromSimpleString_def list.map(2) [of piece r] t m foldTry.simps q(2)
    using qs(2) [of "[q]"] by (simp add: andTry_def)
  with js q(1) qs(1) show ?thesis by (intro exI [of _ "q # qs"]) (simp only: fromString_def option.case list_all2_Cons simp_thms)
qed

lemma printed_reads_back:
  assumes "casts_numerals nm" "casts_decimals nm" and "rs \<noteq> []" and "\<forall>r \<in> set rs. printable (resource r) \<and> entry_ok r"
    and "json_array js (join ''; '' (map piece (map resource rs))) = None"
  shows "\<exists>qs. list_all2 (\<lambda>q r. similar q (resource r)) qs rs \<and>
    fromString js nm (join ''; '' (map piece (map resource rs))) ''*'' = Inr (Inr qs)"
proof -
  obtain r rest where rs: "rs = r # rest" using assms(3) by (cases rs) auto
  have "list_all printable (resource r # map resource rest)" using assms(4) rs by (auto simp: list_all_iff)
  from fromString_printed [OF assms(1,2) this, of js] assms(5) rs show ?thesis
    by (simp add: list_all2_map2 [of _ _ resource, symmetric])
qed

lemma similar_equal:
  assumes "list_all2 (\<lambda>q r. similar q (resource r)) qs rs" and "\<forall>r \<in> set rs. printable (resource r) \<and> entry_ok r"
  shows "list_all2 (\<lambda>q r. resource_eq q (resource r) = Inr True \<and> sharedCount (wrap q) = None) qs rs"
  using assms
proof (induction rule: list_all2_induct)
  case (Cons q qs r rs)
  have s: "sound q" "sound (resource r)" using Cons.hyps(1) Cons.prems by (simp_all add: similar_def printable_def)
  show ?case using Cons resource_eq_key [OF s] by (simp add: similar_def wrap_def)
qed simp

subsection \<open>Properties\<close>

text \<open>
  C17. Parsing never fails a check: text that reads as resources gives an error or a collection that satisfies
  the invariant, whose totals are those of the resources read, that holds no persistent volume,
  no revocable resource and no dynamic reservation, and in which a name has one type.
\<close>

theorem parse_resources_sound:
  assumes "fromString js nm text role = Inr (Inr resources)"
    and "list_all (\<lambda>r. wf_resource r \<and> \<not> r_shared r) resources" and "fits (sum_list (map amount resources))"
  shows "yields (parse_resources js nm text role) (\<lambda>x.
    rs_ok x \<and> stock_of x = sum_list (map amount resources) \<and>
    list_all (\<lambda>r. plain_for_command_line (resource r)) x \<and> uniform (map resource x))"
proof -
  have "yields (parse_resources js nm text role) (\<lambda>x.
    rs_ok x \<and> list_all (\<lambda>r. plain_for_command_line (resource r)) x \<and> uniform (map resource x) \<and>
    (\<exists>resources. fromString js nm text role = Inr (Inr resources) \<and> stock_of x = sum_list (map amount resources)))"
    by (rule parse_resources_yields) (use assms in auto)
  then show ?thesis by (rule yields_mono) (use assms(1) in auto)
qed

definition no_json :: "unit json_reader" where
  "no_json = \<lparr>json_array = (\<lambda>_. None), json_resources = (\<lambda>_. None)\<rparr>"

definition set_resource :: "string \<Rightarrow> item_set \<Rightarrow> Resource" where
  "set_resource name xs = (scalar_resource name 0)\<lparr>r_type := SET, r_scalar := None, r_set := Some xs\<rparr>"

theorem parse_resources_sound_witness:
  "returns (parse_resources no_json decimal_numifier ''ports:[1-5]; zones:{a, b}; ports:[8-9]'' ''*'') (\<lambda>x.
     case x of Inl e \<Rightarrow> False | Inr x \<Rightarrow> rs_ok x \<and> uniform (map resource x) \<and>
       stock_of x = amount (ranges_resource ''ports'' [mk_range 1 5]) + amount (set_resource ''zones'' [''a'', ''b'']) +
         amount (ranges_resource ''ports'' [mk_range 8 9]))"
proof -
  let ?p = "parse_resources no_json decimal_numifier ''ports:[1-5]; zones:{a, b}; ports:[8-9]'' ''*''"
  let ?rs = "[ranges_resource ''ports'' [mk_range 1 5], set_resource ''zones'' [''a'', ''b''], ranges_resource ''ports'' [mk_range 8 9]]"
  have f: "fromString no_json decimal_numifier ''ports:[1-5]; zones:{a, b}; ports:[8-9]'' ''*'' = Inr (Inr ?rs)" by code_simp
  have w: "list_all (\<lambda>r. wf_resource r \<and> \<not> r_shared r) ?rs" by code_simp
  have "fits (sum_list (map amount ?rs))"
    by (simp add: fits_def amount_def ranges_resource_def set_resource_def scalar_resource_def)
  note s = parse_resources_sound [OF f w this]
  have "returns ?p (\<lambda>x. case x of Inl e \<Rightarrow> False | Inr x \<Rightarrow> True)" by code_simp
  with s show ?thesis by (auto simp: yields_def returns_iff add.assoc split: sum.splits)
qed

text \<open>
  C18. Printed resources are read back: a collection of resources without metadata prints, and where its text is
  not JSON it parses to a collection of as many resources, each equal to the one printed.
\<close>

theorem resources_text_roundtrip:
  assumes "casts_numerals nm" and "casts_decimals nm" and "rs_ok rs" and "rs \<noteq> []"
    and "\<forall>r \<in> set rs. printable (resource r)" and "uniform (map resource rs)"
  shows "\<exists>text. print_resources rs = Inr text \<and>
    (json_array js text = None \<longrightarrow> (\<exists>x. parse_resources js nm text ''*'' = Inr (Inr x) \<and>
      list_all2 (\<lambda>q r. resource_eq (resource q) (resource r) = Inr True \<and> sharedCount q = None) x rs))"
proof -
  let ?t = "join ''; '' (map piece (map resource rs))"
  have e: "\<forall>r \<in> set rs. printable (resource r) \<and> entry_ok r" using assms(3,5) by (simp add: rs_ok_def)
  have p: "print_resources rs = Inr ?t" using assms(4) print_all_printable [OF e] by (simp add: print_resources_def o_def)
  have "\<exists>x. parse_resources js nm ?t ''*'' = Inr (Inr x) \<and>
      list_all2 (\<lambda>q r. resource_eq (resource q) (resource r) = Inr True \<and> sharedCount q = None) x rs"
    if js: "json_array js ?t = None"
  proof -
    obtain qs where qs: "list_all2 (\<lambda>q r. similar q (resource r)) qs rs" "fromString js nm ?t ''*'' = Inr (Inr qs)"
      using printed_reads_back [OF assms(1,2,4) e js] by blast
    have "foldTry parse_step qs [] = Inr (Inr (map wrap qs))"
      using parse_fold_printed [OF qs(1), of "[]" "[]"] assms(3,5) by simp
    then have "parse_resources js nm ?t ''*'' = Inr (Inr (map wrap qs))"
      using qs(2) command_line_printed [OF qs(1) assms(5,6)] by (simp add: parse_resources_def andTry_def)
    moreover have "list_all2 (\<lambda>q r. resource_eq q (resource r) = Inr True \<and> sharedCount (wrap q) = None) qs rs"
      using qs(1) e by (rule similar_equal)
    ultimately show ?thesis by (simp add: list_all2_map1)
  qed
  with p show ?thesis by (intro exI [of _ ?t] conjI impI)
qed

lemma example_printable:
  "printable (scalar_resource ''cpus'' (5 / 2))" "printable (ranges_resource ''ports'' [mk_range 1 5])"
proof -
  have "name_ok ''cpus''" "name_ok ''ports''" "canonical [mk_range 1 5]" "convertToFixed (5 / 2) \<le> 2 ^ 49" "list_all valid_range [mk_range 1 5]" by code_simp+
  then show "printable (scalar_resource ''cpus'' (5 / 2))" "printable (ranges_resource ''ports'' [mk_range 1 5])"
    by (simp_all add: printable_def sound_def post_format_def value_ok_def value_printable_def scalar_resource_def
        ranges_resource_def scalar_def ranges_def repeated_def)
qed

lemma example_printed_ok: "rs_ok [wrap (scalar_resource ''cpus'' (5 / 2)), wrap (ranges_resource ''ports'' [mk_range 1 5])]"
proof -
  let ?c = "scalar_resource ''cpus'' (5 / 2)" and ?p = "ranges_resource ''ports'' [mk_range 1 5]"
  have c: "convertToFixed (5 / 2) = 2500" by code_simp
  have a: "amount ?c = Stock (\<lambda>n. if n = ''cpus'' then 2500 else 0) {} {}"
    using c by (simp add: amount_def scalar_def scalar_resource_def cong: if_cong)
  have b: "amount ?p = Stock (\<lambda>_. 0) ({''ports''} \<times> range_set (mk_range 1 5)) {}"
    by (simp add: amount_def ranges_resource_def scalar_resource_def ranges_def repeated_def)
  have "amount ?c \<noteq> 0" unfolding a by (auto simp: zero_stock_def fun_eq_iff)
  moreover have "amount ?p \<noteq> 0" unfolding b by (auto simp: zero_stock_def range_set_def mk_range_def)
  moreover have "sound ?c" "sound ?p" using example_printable by (simp_all add: printable_def)
  ultimately have "entry_ok (wrap ?c)" "entry_ok (wrap ?p)" by (simp_all add: entry_wrap)
  moreover have "apart []" by (simp add: apart_def)
  then have "apart [wrap ?c, wrap ?p]"
    by (simp add: apart_Cons can_add_def res_key_def scalar_resource_def ranges_resource_def)
  moreover have "fits (stock_of [wrap ?c, wrap ?p])" by (simp add: a b fits_def)
  ultimately show ?thesis by (simp add: rs_ok_def)
qed

theorem resources_text_roundtrip_witness:
  "\<exists>x. parse_resources no_json decimal_numifier ''cpus:2.5; ports:[1-5]'' ''*'' = Inr (Inr x) \<and>
     list_all2 (\<lambda>q r. resource_eq (resource q) (resource r) = Inr True \<and> sharedCount q = None) x
       [wrap (scalar_resource ''cpus'' (5 / 2)), wrap (ranges_resource ''ports'' [mk_range 1 5])]"
proof -
  let ?c = "scalar_resource ''cpus'' (5 / 2)" and ?p = "ranges_resource ''ports'' [mk_range 1 5]"
  have "print_ranges [mk_range 1 5] = ''[1-5]''" by code_simp
  then have "print_resources [wrap ?c, wrap ?p] = Inr ''cpus:2.5; ports:[1-5]''"
    using print_two_and_half
    by (simp add: print_resources_def print_resource'_def print_resource_def wrap_def scalar_resource_def ranges_resource_def
        scalar_def ranges_def repeated_def)
  moreover have "uniform (map resource [wrap ?c, wrap ?p])"
    by (simp add: uniform_def scalar_resource_def ranges_resource_def)
  ultimately show ?thesis
    using resources_text_roundtrip [OF decimal_numifier_ok example_printed_ok, of no_json] example_printable
    by (simp add: no_json_def)
qed

text \<open>
  The empty collection prints as \<open>{}\<close>, which does not parse: the text holds no pair of a name and a value.
\<close>

theorem empty_resources_unread:
  "print_resources [] = Inr ''{}'' \<and>
   parse_resources no_json decimal_numifier ''{}'' ''*'' = Inr (Inl (BadPair ''{}''))"
  by code_simp

end
