(* ===== verification/Spec2Isabelle.thy ===== *)
theory Spec2Isabelle
  imports Roles Url Fixed_Point Ranges Values Maps Messages Broker Scheduler_Properties Executor_Properties Attributes Resources_Text
begin

text \<open>
  liburb (\<open>src/urb-core/source/cpp/liburb\<close>) is the library that a Mesos framework links in place of
  libmesos to run on the Universal Resource Broker. A framework talks to a driver
  (\<open>MesosSchedulerDriver\<close> in its scheduler, \<open>MesosExecutorDriver\<close> in its executors). The driver owns a process
  object, which turns calls of the framework into protocol buffers, writes them to a redis
  channel through a message broker, and turns messages from the URB master into callbacks of the
  framework. Offers and tasks carry resources, which the library compares, adds, splits, reserves and
  prints.

  \<^bold>\<open>How the model is written.\<close> Pure code is a HOL function of the same name. Stateful code passes a
  record of the state. Code that may take the process down returns an \<open>outcome\<close>: a failed glog check
  is \<open>Inl CheckFailed\<close>, a call through an unassigned channel pointer \<open>Inl WildChannel\<close>. Errors that the
  source returns (\<open>Try\<close>, \<open>Option<Error>\<close>, \<open>Status\<close>) are values. Callbacks of the framework are arguments:
  a handler takes a function that stands for what the framework does when called back, and the
  drivers tie the knot with a bound on the nesting of callbacks, whose exhaustion is
  \<open>Inl DepthExceeded\<close>; the theorems on termination say which bound is enough. Log output is not modelled. A message in
  the trace is a write that the channel issued; the library catches and logs the failures of redis, so they
  change nothing in its state.

  \<^bold>\<open>Theories.\<close>
  \<^item> \<open>Prelude\<close>: outcomes, their sequencing and the rules by which properties pass through it.
  \<^item> \<open>Strings\<close>, \<open>Numbers\<close>: the parts of stout (\<open>3rdparty/stout/strings.hpp\<close>) and of the standard library that the
    parsers use. \<open>Maps\<close>: \<open>std::map\<close> as a sorted association list, and \<open>linkedhashmap.hpp\<close> with its
    list of entries and its index, which is shown to refine a list of keys and values.
  \<^item> \<open>Roles\<close> (\<open>roles.cpp\<close>), \<open>Url\<close> (\<open>url.hpp\<close>): validation and hierarchy of roles; the master URL and its text.
  \<^item> \<open>Fixed_Point\<close>, \<open>Ranges\<close>, \<open>Sets\<close>, \<open>Values\<close>, \<open>Scalar_Text\<close> (\<open>values.cpp\<close>, \<open>numify.hpp\<close>): the four kinds of values,
    their operators, printers and parser; \<open>Scalar_Text\<close> has the 15 significant digits of a double. Doubles are
    rationals with the IEEE rounding written out; 64 bit bounds of ranges are words. The interval set of
    boost and \<open>boost::lexical_cast\<close> are parameters; the locale \<open>interval_set\<close> states the documented
    behaviour of the first and is interpreted on an executable list of intervals.
  \<^item> \<open>Attributes\<close> (\<open>attributes.cpp\<close>): parsing, validity, lookup and comparison of attributes, as maps from name
    and type to values.
  \<^item> \<open>Type_Utils\<close> (\<open>type_utils.cpp\<close>): comparison of messages whose repeated fields have no order.
  \<^item> \<open>Resource\<close>, \<open>Stock\<close>, \<open>Resources\<close>, \<open>Resources_Invariant\<close> (\<open>resources.cpp\<close>): one resource, the stock it
    amounts to, collections of resources and their invariant. \<open>Resources_Queries\<close>: inclusion, filters, quantities
    and reservations. \<open>Resources_Operations\<close>: \<open>apply\<close> on offer operations.
    \<open>Resources_Keys\<close>: addition and subtraction for each key, where totals alone would not show a number or an
    item left behind, since the stock unites ranges and sets. \<open>Resources_Formats\<close>
    (\<open>resources_utils.cpp\<close>): the reservation formats, normalisation, downgrading and checkpointed resources.
    \<open>Resources_Find\<close>: what the search for resources finds. \<open>Resources_Properties\<close>: the properties of
    collections. \<open>Resources_Text\<close>: the command line form, its checks, and the printers; the JSON
    parser is a parameter.
  \<^item> \<open>Messages\<close>: the messages between framework, library and master, with the fields the code reads.
  \<^item> \<open>Broker\<close> (\<open>message_broker_redis.cpp\<close>): choice of the redis server, connection and channels. Whether redis
    answers is a parameter.
  \<^item> \<open>Scheduler_Process\<close>, \<open>Scheduler_Driver\<close>, \<open>Scheduler_Properties\<close> (\<open>scheduler_process.cpp\<close>, \<open>sched.cpp\<close>): every
    handler, timer and driver call of the scheduler side, an event loop that interleaves messages,
    timers and calls arbitrarily, and its invariant. \<open>Executor_Process\<close>, \<open>Executor_Driver\<close>,
    \<open>Executor_Properties\<close> (\<open>executor_process.cpp\<close>, \<open>exec.cpp\<close>): the same for the executor side.

  \<^bold>\<open>What is shown.\<close> Every state reachable through the event loop satisfies the invariant of its side
  (\<open>sched_invariant\<close>, \<open>executor_invariant\<close>); the checks in the code hold in them, with the
  exceptions named (\<open>sched_checks\<close>, \<open>executor_checks\<close>). Status updates are delivered once and acknowledged;
  updates an executor stores survive until they are acknowledged and are sent again on reconnection;
  launches report every task they do not send. The request to register is sent once redis
  answers, and the answer of the master is taken. The status of a driver changes in start, stop and
  abort only. Values: ranges and sets are sets of numbers and items
  with unique representations, scalars are exact in thousandths up to \<open>2 ^ 50\<close>, printed values and
  URLs are read back. Resources: addition and subtraction keep the invariant of a collection and
  add to and take from its totals; offer operations, checkpointed resources and stripping
  conserve the totals; filters divide them; a search returns what it was asked for; the
  conversions between reservation formats are inverse up to what the old format cannot hold; parsing yields well-formed collections,
  and printed resources without metadata are read back. Some theorems state where the code does not do what its comments say.

  \<^bold>\<open>Bounds.\<close> \<open>2 ^ 50\<close> thousandths keep the three roundings of the fixed point conversion below half a
  thousandth. Ranges are assumed not to reach \<open>2 ^ 64 - 1\<close>, where the code wraps. A nesting of callbacks of two
  is enough for every executor and for a scheduler that does not launch from a status update callback.

  The theorems on resources assume \<open>wf_resource\<close> where they start from validated messages: the disk source has the
  message of its type, labels are distinct, and ranges end below \<open>2 ^ 64 - 1\<close>, none of which validation checks.
  Executor updates are kept as long as generated UUIDs differ before their first zero byte.

  \<^bold>\<open>Not modelled.\<close> The Java and Python bindings (\<open>org_apache_mesos_*.cpp\<close>, \<open>convert.cpp\<close>, \<open>construct.cpp\<close>,
  \<open>python-bindings\<close>), which only convert objects between languages; the fetcher
  (\<open>mesos/fetcher.cpp\<close>, \<open>slave/containerizer/fetcher.cpp\<close>), which runs shell commands and HTTP
  transfers; logging; the event loop of libev, the redis client and the generated protocol
  buffer classes, which are not part of the sources; the other headers of stout; the headers of
  the v1 API, which no code here implements.
\<close>

end
